(* ===== verification/Prelude.thy ===== *)
theory Prelude
  imports Main "HOL-Library.Word" "HOL-Library.Sublist"
begin

text \<open>
  Shared vocabulary of the development: the C and C++ types the program uses, the
  \<^verbatim>\<open>std::string\<close> and \<^verbatim>\<open>string.h\<close> operations it calls, decimal conversion
  as \<^verbatim>\<open>sprintf\<close>, \<^verbatim>\<open>atoi\<close> and \<^verbatim>\<open>atol\<close> do it, and the generic
  lemmas on lists, characters and words that the component theories share.

  A \<^verbatim>\<open>std::string\<close> is a HOL \<open>string\<close> (a list of 8-bit characters). A C
  string inside a buffer is the part before its first NUL: \<open>cstr\<close>.
\<close>

unbundle bit_operations_syntax

named_theorems byte_simps \<open>conversion between characters and bytes\<close>
named_theorems str_simps \<open>std::string operations on small arguments\<close>

type_synonym byte = "8 word"
type_synonym u32 = "32 word"
type_synonym u64 = "64 word"

subsection \<open>Characters and bytes\<close>

definition byte_of :: "char \<Rightarrow> byte" where
  "byte_of c = word_of_nat (of_char c)"

definition char_of_byte :: "byte \<Rightarrow> char" where
  "char_of_byte b = char_of (unat b)"

abbreviation NUL :: char where "NUL \<equiv> CHR 0x00"
abbreviation CR :: char where "CR \<equiv> CHR 0x0D"
abbreviation LF :: char where "LF \<equiv> CHR 0x0A"
abbreviation TAB :: char where "TAB \<equiv> CHR 0x09"

definition bytes_of :: "string \<Rightarrow> byte list" where
  "bytes_of s = map byte_of s"

definition string_of_bytes :: "byte list \<Rightarrow> string" where
  "string_of_bytes bs = map char_of_byte bs"

text \<open>The part of a character buffer that C string functions see.\<close>

definition cstr :: "string \<Rightarrow> string" where
  "cstr s = takeWhile (\<lambda>c. c \<noteq> NUL) s"

subsection \<open>std::string\<close>

text \<open>
  \<open>str_find s p i\<close> is \<^verbatim>\<open>s.find(p, i)\<close>: the least position from \<open>i\<close> on where
  \<open>p\<close> occurs in \<open>s\<close>, \<open>None\<close> for \<^verbatim>\<open>npos\<close>. \<open>find_from\<close> scans the
  suffix that starts at position \<open>i\<close>.
\<close>

fun find_from :: "nat \<Rightarrow> string \<Rightarrow> string \<Rightarrow> nat option" where
  "find_from i p [] = (if p = [] then Some i else None)"
| "find_from i p (c # cs) = (if prefix p (c # cs) then Some i else find_from (Suc i) p cs)"

definition str_find :: "string \<Rightarrow> string \<Rightarrow> nat \<Rightarrow> nat option" where
  "str_find s p i = (if i \<le> length s then find_from i p (drop i s) else None)"

text \<open>\<^verbatim>\<open>s.rfind(p)\<close> for a one-character pattern: the greatest position holding it.\<close>

definition str_rfind_char :: "string \<Rightarrow> char \<Rightarrow> nat option" where
  "str_rfind_char s c =
     (case dropWhile (\<lambda>x. x \<noteq> c) (rev s) of [] \<Rightarrow> None | xs \<Rightarrow> Some (length xs - 1))"

text \<open>\<^verbatim>\<open>s.substr(pos, n)\<close> raises \<^verbatim>\<open>std::out_of_range\<close> when \<open>pos\<close> is past the end.\<close>

definition str_substr :: "string \<Rightarrow> nat \<Rightarrow> nat \<Rightarrow> string option" where
  "str_substr s pos n = (if pos \<le> length s then Some (take n (drop pos s)) else None)"

definition str_replace :: "string \<Rightarrow> nat \<Rightarrow> nat \<Rightarrow> string \<Rightarrow> string" where
  "str_replace s pos n r = take pos s @ r @ drop (pos + n) s"

subsection \<open>Decimal conversion\<close>

definition is_digit :: "char \<Rightarrow> bool" where
  "is_digit c \<longleftrightarrow> 48 \<le> (of_char c :: nat) \<and> (of_char c :: nat) \<le> 57"

definition digit_val :: "char \<Rightarrow> int" where
  "digit_val c = int (of_char c) - 48"

definition is_space :: "char \<Rightarrow> bool" where
  "is_space c \<longleftrightarrow> c = CHR '' '' \<or> (9 \<le> (of_char c :: nat) \<and> (of_char c :: nat) \<le> 13)"

fun digits_value :: "int \<Rightarrow> string \<Rightarrow> int" where
  "digits_value acc [] = acc"
| "digits_value acc (c # cs) =
     (if is_digit c then digits_value (10 * acc + digit_val c) cs else acc)"

text \<open>\<^verbatim>\<open>strtol\<close> in base 10 without the range check.\<close>

definition parse_int :: "string \<Rightarrow> int" where
  "parse_int s =
     (case dropWhile is_space s of
        [] \<Rightarrow> 0
      | c # cs \<Rightarrow>
          if c = CHR ''-'' then - digits_value 0 cs
          else if c = CHR ''+'' then digits_value 0 cs
          else digits_value 0 (c # cs))"

text \<open>
  glibc: \<^verbatim>\<open>atol\<close> is \<^verbatim>\<open>strtol\<close>, which saturates at the 64-bit bounds, and
  \<^verbatim>\<open>atoi\<close> is \<^verbatim>\<open>(int) strtol\<close>, which keeps the low 32 bits.
\<close>

definition atol :: "string \<Rightarrow> int" where
  "atol s = max (- (2 ^ 63)) (min (2 ^ 63 - 1) (parse_int s))"

definition atoi :: "string \<Rightarrow> int" where
  "atoi s = sint (word_of_int (atol s) :: 32 word)"

fun show_nat :: "nat \<Rightarrow> string" where
  "show_nat n = (if n < 10 then [char_of (48 + n)] else show_nat (n div 10) @ [char_of (48 + n mod 10)])"

declare show_nat.simps [simp del]

text \<open>\<^verbatim>\<open>%d\<close> and \<^verbatim>\<open>%ld\<close>; \<^verbatim>\<open>%02d\<close> and \<^verbatim>\<open>%4d\<close>/\<^verbatim>\<open>%04d\<close> on non-negative values.\<close>

definition show_int :: "int \<Rightarrow> string" where
  "show_int i = (if i < 0 then CHR ''-'' # show_nat (nat (- i)) else show_nat (nat i))"

definition pad_left :: "char \<Rightarrow> nat \<Rightarrow> string \<Rightarrow> string" where
  "pad_left c n s = replicate (n - length s) c @ s"

subsection \<open>Lemmas on characters and bytes\<close>

lemma unat_byte_of [byte_simps]: "unat (byte_of c) = of_char c"
  by (simp add: byte_of_def unat_of_nat)

lemma char_of_byte_of [simp, byte_simps]: "char_of_byte (byte_of c) = c"
  by (simp add: char_of_byte_def unat_byte_of)

lemma byte_of_char_of_byte [simp, byte_simps]: "byte_of (char_of_byte b) = b"
proof -
  have "unat b < 256" using unsigned_less [of b] by simp
  then have "of_char (char_of (unat b)) = unat b" by simp
  then show ?thesis by (simp add: byte_of_def char_of_byte_def)
qed

lemma byte_of_inject [simp]: "byte_of c = byte_of d \<longleftrightarrow> c = d"
  by (metis char_of_byte_of)

lemma string_of_bytes_of [simp]: "string_of_bytes (bytes_of s) = s"
  by (simp add: string_of_bytes_def bytes_of_def comp_def)

lemma bytes_of_string_of [simp]: "bytes_of (string_of_bytes bs) = bs"
  by (simp add: string_of_bytes_def bytes_of_def comp_def)

lemma length_bytes_of [simp]: "length (bytes_of s) = length s"
  by (simp add: bytes_of_def)

lemma length_string_of_bytes [simp]: "length (string_of_bytes bs) = length bs"
  by (simp add: string_of_bytes_def)

lemma cstr_no_NUL: "NUL \<notin> set (cstr s)"
proof
  assume "NUL \<in> set (cstr s)"
  then have "NUL \<noteq> NUL" unfolding cstr_def by (rule set_takeWhileD [THEN conjunct2])
  then show False by simp
qed

lemma cstr_id [simp]: "NUL \<notin> set s \<Longrightarrow> cstr s = s"
  unfolding cstr_def by (induction s) auto

lemma cstr_append_NUL: "NUL \<notin> set s \<Longrightarrow> cstr (s @ NUL # t) = s"
  unfolding cstr_def by (induction s) auto

lemma unat_lt_byte: "unat (b :: byte) < 256"
  using unsigned_less [of b] by simp

lemma unat_lt_u32: "unat (w :: u32) < 2 ^ 32"
  using unsigned_less [of w] by simp

lemma unat_lt_u64: "unat (w :: u64) < 2 ^ 64"
  using unsigned_less [of w] by simp

subsection \<open>Lemmas on find and substr\<close>

lemma find_from_shift: "find_from (i + k) p s = map_option (\<lambda>n. n + k) (find_from i p s)"
  by (induction s arbitrary: i) (auto simp flip: add_Suc)

lemma find_from_Some:
  "find_from i p s = Some n \<Longrightarrow> i \<le> n \<and> prefix p (drop (n - i) s) \<and> n - i \<le> length s"
proof (induction s arbitrary: i)
  case (Cons c cs)
  show ?case
  proof (cases "prefix p (c # cs)")
    case False
    with Cons.prems have "find_from (Suc i) p cs = Some n" by simp
    from Cons.IH [OF this] have "Suc i \<le> n" "prefix p (drop (n - Suc i) cs)" "n - Suc i \<le> length cs"
      by auto
    moreover from \<open>Suc i \<le> n\<close> have "n - i = Suc (n - Suc i)" by simp
    ultimately show ?thesis by simp
  qed (use Cons.prems in auto)
qed (auto split: if_splits)

lemma find_from_first:
  "find_from i p s = Some n \<Longrightarrow> j < n - i \<Longrightarrow> \<not> prefix p (drop j s)"
proof (induction s arbitrary: i j)
  case (Cons c cs)
  then show ?case by (cases j) (auto split: if_splits)
qed (auto split: if_splits)

lemma find_from_None: "find_from i p s = None \<longleftrightarrow> \<not> sublist p s"
  by (induction s arbitrary: i) (auto simp: sublist_Cons_right)

lemma str_find_None_iff: "str_find s p 0 = None \<longleftrightarrow> \<not> sublist p s"
  by (simp add: str_find_def find_from_None)

lemma str_find_Some:
  assumes "str_find s p i = Some n"
  shows "i \<le> n" and "n + length p \<le> length s" and "take (length p) (drop n s) = p"
proof -
  from assms have le: "i \<le> length s" and f: "find_from i p (drop i s) = Some n"
    by (auto simp: str_find_def split: if_splits)
  from find_from_Some [OF f] have 1: "i \<le> n" "prefix p (drop (n - i) (drop i s))"
    "n - i \<le> length (drop i s)" by auto
  then show "i \<le> n" by simp
  from 1 have pre: "prefix p (drop n s)" by simp
  from 1 le have "n \<le> length s" by auto
  with pre show "n + length p \<le> length s" by (auto dest: prefix_length_le)
  from pre show "take (length p) (drop n s) = p" by (auto simp: prefix_def)
qed

lemma str_find_first:
  assumes "str_find s p i = Some n" "i \<le> j" "j < n"
  shows "\<not> prefix p (drop j s)"
proof -
  from assms have f: "find_from i p (drop i s) = Some n"
    by (auto simp: str_find_def split: if_splits)
  from assms(2,3) have "j - i < n - i" by simp
  from find_from_first [OF f this] assms(2) show ?thesis by simp
qed

lemma find_from_skip_char:
  "c \<notin> set s \<Longrightarrow> find_from i [c] (s @ c # t) = Some (i + length s)"
  by (induction s arbitrary: i) auto

lemma find_from_absent_char: "c \<notin> set s \<Longrightarrow> find_from i [c] s = None"
  by (induction s arbitrary: i) auto

lemma str_find_char:
  "c \<notin> set s \<Longrightarrow> str_find (u @ s @ c # t) [c] (length u) = Some (length u + length s)"
  by (simp add: str_find_def find_from_skip_char)

lemma str_find_char_None: "c \<notin> set s \<Longrightarrow> str_find (u @ s) [c] (length u) = None"
  by (simp add: str_find_def find_from_absent_char)

lemma str_substr_append:
  "str_substr (u @ s @ t) (length u) (length s) = Some s"
  by (simp add: str_substr_def)

subsection \<open>Lemmas on decimal conversion\<close>

lemma is_digit_char_of [simp]: "(n::nat) < 10 \<Longrightarrow> is_digit (char_of (48 + n))"
  by (simp add: is_digit_def)

lemma digit_val_char_of [simp]: "(n::nat) < 10 \<Longrightarrow> digit_val (char_of (48 + n)) = int n"
  by (simp add: digit_val_def)

lemma show_nat_digits: "\<forall>c \<in> set (show_nat n). is_digit c"
  by (induction n rule: show_nat.induct) (subst show_nat.simps, auto)

lemma show_nat_nonempty [simp]: "show_nat n \<noteq> []"
  by (subst show_nat.simps) simp

lemma digits_value_append:
  "\<forall>c \<in> set s. is_digit c \<Longrightarrow> digits_value acc (s @ t) = digits_value (digits_value acc s) t"
  by (induction s arbitrary: acc) auto

lemma digits_value_show_nat: "digits_value 0 (show_nat n) = int n"
proof (induction n rule: show_nat.induct)
  case (1 n)
  show ?case
  proof (cases "n < 10")
    case False
    with 1 have IH: "digits_value 0 (show_nat (n div 10)) = int (n div 10)" by simp
    have "digits_value 0 (show_nat n)
        = digits_value (digits_value 0 (show_nat (n div 10))) [char_of (48 + n mod 10)]"
      using False by (subst show_nat.simps) (simp add: digits_value_append show_nat_digits)
    then have "digits_value 0 (show_nat n) = 10 * int (n div 10) + int (n mod 10)" by (simp add: IH)
    also have "\<dots> = int (10 * (n div 10) + n mod 10)" by (simp only: of_nat_add of_nat_mult of_nat_numeral)
    finally show ?thesis by (simp only: mult_div_mod_eq)
  qed (subst show_nat.simps, simp)
qed

lemma is_digit_not_special:
  "is_digit c \<Longrightarrow> \<not> is_space c" "is_digit c \<Longrightarrow> c \<noteq> CHR ''-''" "is_digit c \<Longrightarrow> c \<noteq> CHR ''+''"
  "is_digit c \<Longrightarrow> c \<noteq> CHR ''#''" "is_digit c \<Longrightarrow> c \<noteq> NUL"
  by (auto simp: is_digit_def is_space_def)

lemma parse_int_show_nat: "parse_int (show_nat n) = int n"
proof -
  obtain c cs where s: "show_nat n = c # cs" by (cases "show_nat n") auto
  then have d: "is_digit c" using show_nat_digits [of n] by simp
  then have "dropWhile is_space (show_nat n) = c # cs" by (simp add: s is_digit_not_special)
  then show ?thesis
    using d digits_value_show_nat [of n] by (simp add: parse_int_def is_digit_not_special s)
qed

lemma parse_int_show_int: "parse_int (show_int i) = i"
proof (cases "i < 0")
  case True
  then show ?thesis
    by (simp add: show_int_def parse_int_def is_space_def digits_value_show_nat)
qed (simp add: show_int_def parse_int_show_nat)

lemma atol_show_int:
  assumes "- (2 ^ 63) \<le> i" "i < 2 ^ 63" shows "atol (show_int i) = i"
  using assms by (simp add: atol_def parse_int_show_int)

lemma sint_word_of_int_32: "- (2 ^ 31) \<le> i \<Longrightarrow> i < 2 ^ 31 \<Longrightarrow> sint (word_of_int i :: 32 word) = i"
  using signed_take_bit_int_eq_self [of 31 i] by (simp add: sint_sbintrunc')

lemma atoi_show_int:
  assumes "- (2 ^ 31) \<le> i" "i < 2 ^ 31" shows "atoi (show_int i) = i"
proof -
  from assms have "atol (show_int i) = i" by (intro atol_show_int) auto
  with assms show ?thesis unfolding atoi_def by (simp add: sint_word_of_int_32)
qed

lemma atoi_bounds: "- (2 ^ 31) \<le> atoi s \<and> atoi s < 2 ^ 31"
  unfolding atoi_def
  using sint_greater_eq [of "word_of_int (atol s) :: 32 word"] sint_less [of "word_of_int (atol s) :: 32 word"]
  by simp

subsection \<open>Tokens\<close>

text \<open>\<open>strtok_r\<close> to the end of its string: the maximal runs without a delimiter.\<close>

fun strtok_acc :: "char \<Rightarrow> string \<Rightarrow> string \<Rightarrow> string list" where
  "strtok_acc d [] acc = (if acc = [] then [] else [rev acc])"
| "strtok_acc d (c # cs) acc =
     (if c = d then (if acc = [] then [] else [rev acc]) @ strtok_acc d cs []
      else strtok_acc d cs (c # acc))"

definition strtok :: "char \<Rightarrow> string \<Rightarrow> string list" where
  "strtok d s = strtok_acc d s []"

lemma strtok_acc_slash:
  "strtok_acc d (x @ d # y) acc = strtok_acc d x acc @ strtok_acc d y []"
  by (induction x arbitrary: acc) auto

lemma strtok_at: "strtok d (x @ d # y) = strtok d x @ strtok d y"
  by (simp add: strtok_def strtok_acc_slash)

lemma strtok_acc_word: "d \<notin> set t \<Longrightarrow> strtok_acc d t acc = (if rev t @ acc = [] then [] else [rev acc @ t])"
  by (induction t arbitrary: acc) auto

lemma strtok_word: "d \<notin> set t \<Longrightarrow> strtok d t = (if t = [] then [] else [t])"
  by (simp add: strtok_def strtok_acc_word)

end
