(* ===== verification/Md5.thy ===== *)
theory Md5
  imports Prelude
begin

text \<open>
  The class \<^verbatim>\<open>CMd5\<close> (\<^verbatim>\<open>src/src/CommonTools/Md5/Md5.h\<close>, \<^verbatim>\<open>Md5.cpp\<close>): the running
  state of an MD5 computation and its operations \<open>Md5Init\<close>, \<open>Md5Update\<close>, \<open>Md5Final\<close>,
  \<open>Md5Transform\<close> and \<open>Md5ByteReverse\<close>. The byte buffer \<^verbatim>\<open>m_ucIn\<close> is read and written
  both as bytes and, through the casts to \<^verbatim>\<open>UINT*\<close>, as little-endian 32-bit words
  (\<open>load32\<close>, \<open>store32\<close>), as on the x86 targets of the makefile.

  The reference \<open>md5_ref\<close> is RFC 1321: padding of the whole message, the round
  functions and the constant and shift tables in loop form. The theorems show that the
  incremental implementation computes it, however the message is cut into updates and
  whatever the buffer held before, and the locale \<open>streaming_hash\<close> gives that contract
  to the code that hashes keys.
\<close>

section \<open>The code\<close>

record CMd5 =
  m_uiBuf :: "u32 \<times> u32 \<times> u32 \<times> u32"
  m_uiBits :: "u32 \<times> u32"
  m_ucIn :: "byte list"

definition F1 :: "u32 \<Rightarrow> u32 \<Rightarrow> u32 \<Rightarrow> u32" where
  "F1 x y z = z XOR (x AND (y XOR z))"

definition F2 :: "u32 \<Rightarrow> u32 \<Rightarrow> u32 \<Rightarrow> u32" where
  "F2 x y z = F1 z x y"

definition F3 :: "u32 \<Rightarrow> u32 \<Rightarrow> u32 \<Rightarrow> u32" where
  "F3 x y z = x XOR y XOR z"

definition F4 :: "u32 \<Rightarrow> u32 \<Rightarrow> u32 \<Rightarrow> u32" where
  "F4 x y z = y XOR (x OR NOT z)"

definition MD5STEP ::
  "(u32 \<Rightarrow> u32 \<Rightarrow> u32 \<Rightarrow> u32) \<Rightarrow> u32 \<Rightarrow> u32 \<Rightarrow> u32 \<Rightarrow> u32 \<Rightarrow> u32 \<Rightarrow> nat \<Rightarrow> u32" where
  "MD5STEP f w x y z data s =
     (let w = w + (f x y z + data); w = (push_bit s w OR drop_bit (32 - s) w) in w + x)"

definition Md5Init :: "CMd5 \<Rightarrow> CMd5" where
  "Md5Init c = c\<lparr>m_uiBuf := (0x67452301, 0xefcdab89, 0x98badcfe, 0x10325476), m_uiBits := (0, 0)\<rparr>"

definition Md5Transform :: "u32 \<times> u32 \<times> u32 \<times> u32 \<Rightarrow> u32 list \<Rightarrow> u32 \<times> u32 \<times> u32 \<times> u32" where
  "Md5Transform buf inp =
    (case buf of (buf0, buf1, buf2, buf3) \<Rightarrow>
     let a = buf0; b = buf1; c = buf2; d = buf3;
     a = MD5STEP F1 a b c d (inp ! 0 + 0xd76aa478) 7;
     d = MD5STEP F1 d a b c (inp ! 1 + 0xe8c7b756) 12;
     c = MD5STEP F1 c d a b (inp ! 2 + 0x242070db) 17;
     b = MD5STEP F1 b c d a (inp ! 3 + 0xc1bdceee) 22;
     a = MD5STEP F1 a b c d (inp ! 4 + 0xf57c0faf) 7;
     d = MD5STEP F1 d a b c (inp ! 5 + 0x4787c62a) 12;
     c = MD5STEP F1 c d a b (inp ! 6 + 0xa8304613) 17;
     b = MD5STEP F1 b c d a (inp ! 7 + 0xfd469501) 22;
     a = MD5STEP F1 a b c d (inp ! 8 + 0x698098d8) 7;
     d = MD5STEP F1 d a b c (inp ! 9 + 0x8b44f7af) 12;
     c = MD5STEP F1 c d a b (inp ! 10 + 0xffff5bb1) 17;
     b = MD5STEP F1 b c d a (inp ! 11 + 0x895cd7be) 22;
     a = MD5STEP F1 a b c d (inp ! 12 + 0x6b901122) 7;
     d = MD5STEP F1 d a b c (inp ! 13 + 0xfd987193) 12;
     c = MD5STEP F1 c d a b (inp ! 14 + 0xa679438e) 17;
     b = MD5STEP F1 b c d a (inp ! 15 + 0x49b40821) 22;
     a = MD5STEP F2 a b c d (inp ! 1 + 0xf61e2562) 5;
     d = MD5STEP F2 d a b c (inp ! 6 + 0xc040b340) 9;
     c = MD5STEP F2 c d a b (inp ! 11 + 0x265e5a51) 14;
     b = MD5STEP F2 b c d a (inp ! 0 + 0xe9b6c7aa) 20;
     a = MD5STEP F2 a b c d (inp ! 5 + 0xd62f105d) 5;
     d = MD5STEP F2 d a b c (inp ! 10 + 0x02441453) 9;
     c = MD5STEP F2 c d a b (inp ! 15 + 0xd8a1e681) 14;
     b = MD5STEP F2 b c d a (inp ! 4 + 0xe7d3fbc8) 20;
     a = MD5STEP F2 a b c d (inp ! 9 + 0x21e1cde6) 5;
     d = MD5STEP F2 d a b c (inp ! 14 + 0xc33707d6) 9;
     c = MD5STEP F2 c d a b (inp ! 3 + 0xf4d50d87) 14;
     b = MD5STEP F2 b c d a (inp ! 8 + 0x455a14ed) 20;
     a = MD5STEP F2 a b c d (inp ! 13 + 0xa9e3e905) 5;
     d = MD5STEP F2 d a b c (inp ! 2 + 0xfcefa3f8) 9;
     c = MD5STEP F2 c d a b (inp ! 7 + 0x676f02d9) 14;
     b = MD5STEP F2 b c d a (inp ! 12 + 0x8d2a4c8a) 20;
     a = MD5STEP F3 a b c d (inp ! 5 + 0xfffa3942) 4;
     d = MD5STEP F3 d a b c (inp ! 8 + 0x8771f681) 11;
     c = MD5STEP F3 c d a b (inp ! 11 + 0x6d9d6122) 16;
     b = MD5STEP F3 b c d a (inp ! 14 + 0xfde5380c) 23;
     a = MD5STEP F3 a b c d (inp ! 1 + 0xa4beea44) 4;
     d = MD5STEP F3 d a b c (inp ! 4 + 0x4bdecfa9) 11;
     c = MD5STEP F3 c d a b (inp ! 7 + 0xf6bb4b60) 16;
     b = MD5STEP F3 b c d a (inp ! 10 + 0xbebfbc70) 23;
     a = MD5STEP F3 a b c d (inp ! 13 + 0x289b7ec6) 4;
     d = MD5STEP F3 d a b c (inp ! 0 + 0xeaa127fa) 11;
     c = MD5STEP F3 c d a b (inp ! 3 + 0xd4ef3085) 16;
     b = MD5STEP F3 b c d a (inp ! 6 + 0x04881d05) 23;
     a = MD5STEP F3 a b c d (inp ! 9 + 0xd9d4d039) 4;
     d = MD5STEP F3 d a b c (inp ! 12 + 0xe6db99e5) 11;
     c = MD5STEP F3 c d a b (inp ! 15 + 0x1fa27cf8) 16;
     b = MD5STEP F3 b c d a (inp ! 2 + 0xc4ac5665) 23;
     a = MD5STEP F4 a b c d (inp ! 0 + 0xf4292244) 6;
     d = MD5STEP F4 d a b c (inp ! 7 + 0x432aff97) 10;
     c = MD5STEP F4 c d a b (inp ! 14 + 0xab9423a7) 15;
     b = MD5STEP F4 b c d a (inp ! 5 + 0xfc93a039) 21;
     a = MD5STEP F4 a b c d (inp ! 12 + 0x655b59c3) 6;
     d = MD5STEP F4 d a b c (inp ! 3 + 0x8f0ccc92) 10;
     c = MD5STEP F4 c d a b (inp ! 10 + 0xffeff47d) 15;
     b = MD5STEP F4 b c d a (inp ! 1 + 0x85845dd1) 21;
     a = MD5STEP F4 a b c d (inp ! 8 + 0x6fa87e4f) 6;
     d = MD5STEP F4 d a b c (inp ! 15 + 0xfe2ce6e0) 10;
     c = MD5STEP F4 c d a b (inp ! 6 + 0xa3014314) 15;
     b = MD5STEP F4 b c d a (inp ! 13 + 0x4e0811a1) 21;
     a = MD5STEP F4 a b c d (inp ! 4 + 0xf7537e82) 6;
     d = MD5STEP F4 d a b c (inp ! 11 + 0xbd3af235) 10;
     c = MD5STEP F4 c d a b (inp ! 2 + 0x2ad7d2bb) 15;
     b = MD5STEP F4 b c d a (inp ! 9 + 0xeb86d391) 21
     in (buf0 + a, buf1 + b, buf2 + c, buf3 + d))"

definition store32 :: "u32 \<Rightarrow> byte list" where
  "store32 w = [ucast w, ucast (drop_bit 8 w), ucast (drop_bit 16 w), ucast (drop_bit 24 w)]"

fun load32 :: "byte list \<Rightarrow> u32 list" where
  "load32 (b0 # b1 # b2 # b3 # bs) =
     (ucast b0 OR push_bit 8 (ucast b1) OR push_bit 16 (ucast b2) OR push_bit 24 (ucast b3)) # load32 bs"
| "load32 _ = []"

fun Md5ByteReverse :: "byte list \<Rightarrow> nat \<Rightarrow> byte list" where
  "Md5ByteReverse (b0 # b1 # b2 # b3 # bs) (Suc uiLongs) =
     (let uiValue = push_bit 16 (push_bit 8 (ucast b3) OR ucast b2) OR (push_bit 8 (ucast b1) OR ucast b0)
      in store32 uiValue @ Md5ByteReverse bs uiLongs)"
| "Md5ByteReverse bs _ = bs"

text \<open>\<^verbatim>\<open>memcpy(dst + off, p, n)\<close> into the fixed buffer.\<close>

definition memcpy_at :: "byte list \<Rightarrow> nat \<Rightarrow> byte list \<Rightarrow> byte list" where
  "memcpy_at dst off p = take off dst @ p @ drop (off + length p) dst"

text \<open>The block loop of \<open>Md5Update\<close>: whole 64-byte blocks are transformed, the rest is kept.\<close>

function Md5Blocks :: "CMd5 \<Rightarrow> byte list \<Rightarrow> CMd5" where
  "Md5Blocks c puszBuf =
     (if 64 \<le> length puszBuf then
        let inb = Md5ByteReverse (memcpy_at (m_ucIn c) 0 (take 64 puszBuf)) 16;
            c = c\<lparr>m_ucIn := inb, m_uiBuf := Md5Transform (m_uiBuf c) (load32 inb)\<rparr>
        in Md5Blocks c (drop 64 puszBuf)
      else c\<lparr>m_ucIn := memcpy_at (m_ucIn c) 0 puszBuf\<rparr>)"
  by pat_completeness auto
termination
  by (relation "measure (\<lambda>(c, p). length p)") auto

declare Md5Blocks.simps [simp del]

text \<open>\<open>uiLen\<close> is a \<^verbatim>\<open>UINT\<close>; every caller passes the length of the buffer it hands over.\<close>

definition Md5Update :: "CMd5 \<Rightarrow> byte list \<Rightarrow> CMd5" where
  "Md5Update c puszBuf =
     (let uiLen = word_of_nat (length puszBuf) :: u32;
          uiValue = fst (m_uiBits c);
          bits0 = uiValue + push_bit 3 uiLen;
          bits1 = (if bits0 < uiValue then snd (m_uiBits c) + 1 else snd (m_uiBits c));
          bits1 = bits1 + drop_bit 29 uiLen;
          c = c\<lparr>m_uiBits := (bits0, bits1)\<rparr>;
          off = unat (drop_bit 3 uiValue AND 0x3f)
      in if off \<noteq> 0 then
           if unat uiLen < 64 - off then c\<lparr>m_ucIn := memcpy_at (m_ucIn c) off puszBuf\<rparr>
           else
             let inb = Md5ByteReverse (memcpy_at (m_ucIn c) off (take (64 - off) puszBuf)) 16
             in Md5Blocks (c\<lparr>m_ucIn := inb, m_uiBuf := Md5Transform (m_uiBuf c) (load32 inb)\<rparr>)
                  (drop (64 - off) puszBuf)
         else Md5Blocks c puszBuf)"

text \<open>\<^verbatim>\<open>((UINT*)m_ucIn)[14]\<close> and \<^verbatim>\<open>[15]\<close> are the last eight bytes of the buffer.\<close>

definition Md5Final :: "CMd5 \<Rightarrow> CMd5 \<times> byte list" where
  "Md5Final c =
     (let uiCount = unat (drop_bit 3 (fst (m_uiBits c)) AND 0x3F);
          inb = memcpy_at (m_ucIn c) uiCount [0x80];
          pcCur = uiCount + 1;
          uiCount = 64 - 1 - uiCount;
          (inb, buf) =
            (if uiCount < 8 then
               let inb = memcpy_at inb pcCur (replicate uiCount 0);
                   inb = Md5ByteReverse inb 16;
                   buf = Md5Transform (m_uiBuf c) (load32 inb)
               in (memcpy_at inb 0 (replicate 56 0), buf)
             else (memcpy_at inb pcCur (replicate (uiCount - 8) 0), m_uiBuf c));
          inb = Md5ByteReverse inb 14;
          inb = memcpy_at inb 56 (store32 (fst (m_uiBits c)) @ store32 (snd (m_uiBits c)));
          (a, b, cc, d) = Md5Transform buf (load32 inb);
          digest = Md5ByteReverse (store32 a @ store32 b @ store32 cc @ store32 d) 4
      in (c\<lparr>m_ucIn := inb, m_uiBuf := (a, b, cc, d)\<rparr>, digest))"

section \<open>The reference: RFC 1321\<close>

definition F_rfc :: "u32 \<Rightarrow> u32 \<Rightarrow> u32 \<Rightarrow> u32" where
  "F_rfc x y z = (x AND y) OR (NOT x AND z)"

definition G_rfc :: "u32 \<Rightarrow> u32 \<Rightarrow> u32 \<Rightarrow> u32" where
  "G_rfc x y z = (x AND z) OR (y AND NOT z)"

definition H_rfc :: "u32 \<Rightarrow> u32 \<Rightarrow> u32 \<Rightarrow> u32" where
  "H_rfc x y z = x XOR y XOR z"

definition I_rfc :: "u32 \<Rightarrow> u32 \<Rightarrow> u32 \<Rightarrow> u32" where
  "I_rfc x y z = y XOR (x OR NOT z)"

definition rotl :: "nat \<Rightarrow> u32 \<Rightarrow> u32" where
  "rotl s w = word_rotl s w"

definition K_table :: "u32 list" where
  "K_table = [
   0xd76aa478, 0xe8c7b756, 0x242070db, 0xc1bdceee,
   0xf57c0faf, 0x4787c62a, 0xa8304613, 0xfd469501,
   0x698098d8, 0x8b44f7af, 0xffff5bb1, 0x895cd7be,
   0x6b901122, 0xfd987193, 0xa679438e, 0x49b40821,
   0xf61e2562, 0xc040b340, 0x265e5a51, 0xe9b6c7aa,
   0xd62f105d, 0x02441453, 0xd8a1e681, 0xe7d3fbc8,
   0x21e1cde6, 0xc33707d6, 0xf4d50d87, 0x455a14ed,
   0xa9e3e905, 0xfcefa3f8, 0x676f02d9, 0x8d2a4c8a,
   0xfffa3942, 0x8771f681, 0x6d9d6122, 0xfde5380c,
   0xa4beea44, 0x4bdecfa9, 0xf6bb4b60, 0xbebfbc70,
   0x289b7ec6, 0xeaa127fa, 0xd4ef3085, 0x04881d05,
   0xd9d4d039, 0xe6db99e5, 0x1fa27cf8, 0xc4ac5665,
   0xf4292244, 0x432aff97, 0xab9423a7, 0xfc93a039,
   0x655b59c3, 0x8f0ccc92, 0xffeff47d, 0x85845dd1,
   0x6fa87e4f, 0xfe2ce6e0, 0xa3014314, 0x4e0811a1,
   0xf7537e82, 0xbd3af235, 0x2ad7d2bb, 0xeb86d391]"

definition round_fun :: "nat \<Rightarrow> u32 \<Rightarrow> u32 \<Rightarrow> u32 \<Rightarrow> u32" where
  "round_fun i = (if i < 16 then F_rfc else if i < 32 then G_rfc else if i < 48 then H_rfc else I_rfc)"

definition msg_index :: "nat \<Rightarrow> nat" where
  "msg_index i = (if i < 16 then i else if i < 32 then (5 * i + 1) mod 16
     else if i < 48 then (3 * i + 5) mod 16 else (7 * i) mod 16)"

definition shift_amount :: "nat \<Rightarrow> nat" where
  "shift_amount i = ([[7, 12, 17, 22], [5, 9, 14, 20], [4, 11, 16, 23], [6, 10, 15, 21]] ! (i div 16)) ! (i mod 4)"

fun md5_step :: "u32 list \<Rightarrow> nat \<Rightarrow> u32 \<times> u32 \<times> u32 \<times> u32 \<Rightarrow> u32 \<times> u32 \<times> u32 \<times> u32" where
  "md5_step inp i (a, b, c, d) =
     (d, b + rotl (shift_amount i) (a + round_fun i b c d + K_table ! i + inp ! msg_index i), b, c)"

fun add4 :: "u32 \<times> u32 \<times> u32 \<times> u32 \<Rightarrow> u32 \<times> u32 \<times> u32 \<times> u32 \<Rightarrow> u32 \<times> u32 \<times> u32 \<times> u32" where
  "add4 (a0, b0, c0, d0) (a, b, c, d) = (a0 + a, b0 + b, c0 + c, d0 + d)"

definition compress :: "u32 \<times> u32 \<times> u32 \<times> u32 \<Rightarrow> u32 list \<Rightarrow> u32 \<times> u32 \<times> u32 \<times> u32" where
  "compress s inp = add4 s (fold (md5_step inp) [0..<64] s)"

definition md5_iv :: "u32 \<times> u32 \<times> u32 \<times> u32" where
  "md5_iv = (0x67452301, 0xefcdab89, 0x98badcfe, 0x10325476)"

text \<open>Process the whole 64-byte blocks of a message.\<close>

function md5_fold :: "u32 \<times> u32 \<times> u32 \<times> u32 \<Rightarrow> byte list \<Rightarrow> u32 \<times> u32 \<times> u32 \<times> u32" where
  "md5_fold s m = (if 64 \<le> length m then md5_fold (compress s (load32 (take 64 m))) (drop 64 m) else s)"
  by pat_completeness auto
termination
  by (relation "measure (\<lambda>(s, m). length m)") auto

declare md5_fold.simps [simp del]

definition len64 :: "byte list \<Rightarrow> u64" where
  "len64 m = word_of_nat (8 * length m)"

definition store64 :: "u64 \<Rightarrow> byte list" where
  "store64 w = store32 (ucast w) @ store32 (ucast (drop_bit 32 w))"

definition md5_pad :: "byte list \<Rightarrow> byte list" where
  "md5_pad m = m @ [0x80] @ replicate ((119 - length m mod 64) mod 64) 0 @ store64 (len64 m)"

definition md5_ref :: "byte list \<Rightarrow> byte list" where
  "md5_ref m = (case md5_fold md5_iv (md5_pad m) of
     (a, b, c, d) \<Rightarrow> store32 a @ store32 b @ store32 c @ store32 d)"

section \<open>The transform is the RFC's compression function\<close>

lemma round_fun_code: "F1 = F_rfc" "F2 = G_rfc" "F3 = H_rfc" "F4 = I_rfc"
proof -
  show "F1 = F_rfc"
    by (intro ext bit_word_eqI) (auto simp: F1_def F_rfc_def bit_simps)
  show "F2 = G_rfc"
    by (intro ext bit_word_eqI) (auto simp: F2_def F1_def G_rfc_def bit_simps)
qed (auto simp: fun_eq_iff F3_def H_rfc_def F4_def I_rfc_def)

lemma rotate_word:
  assumes "s < 32" shows "push_bit s w OR drop_bit (32 - s) w = rotl s (w :: u32)"
proof (rule bit_word_eqI)
  fix n assume "n < LENGTH(32)"
  then have n: "n < 32" by simp
  define m where "m = 32 - s"
  have L: "bit (push_bit s w OR drop_bit m w) n \<longleftrightarrow> (s \<le> n \<and> bit w (n - s)) \<or> bit w (m + n)"
    using n by (simp add: bit_or_iff bit_push_bit_iff bit_drop_bit_eq)
  have R: "bit (rotl s w) n \<longleftrightarrow> bit w ((n + m) mod 32)"
    using n assms by (simp only: rotl_def bit_word_rotl_iff m_def) simp
  show "bit (push_bit s w OR drop_bit (32 - s) w) n = bit (rotl s w) n"
  proof (cases "s \<le> n")
    case True
    then have "\<not> bit w (m + n)" using bit_imp_le_length [of w "m + n"] by (auto simp: m_def)
    moreover have "(n + m) mod 32 = n - s" using True n by (simp add: m_def mod_if)
    ultimately show ?thesis using True L R by (simp add: m_def)
  next
    case False
    then have "(n + m) mod 32 = m + n" using n assms by (simp add: m_def)
    with False L R show ?thesis by (simp add: m_def add.commute [of _ n])
  qed
qed

lemma MD5STEP_rotl: "s < 32 \<Longrightarrow> MD5STEP f w x y z data s = x + rotl s (w + f x y z + data)"
  by (simp add: MD5STEP_def rotate_word Let_def ac_simps)

definition step_code :: "u32 list \<Rightarrow> nat \<Rightarrow> u32 \<Rightarrow> u32 \<Rightarrow> u32 \<Rightarrow> u32 \<Rightarrow> u32" where
  "step_code inp i a b c d =
     MD5STEP (round_fun i) a b c d (inp ! msg_index i + K_table ! i) (shift_amount i)"

lemma shift_amount_lt: "shift_amount i < 32" if "i < 64"
proof -
  have "i div 16 < 4" "i mod 4 < 4" using that by auto
  then have "i div 16 \<in> {0, 1, 2, 3}" "i mod 4 \<in> {0, 1, 2, 3}" by auto
  then show ?thesis by (auto simp: shift_amount_def)
qed

lemma fold_step:
  assumes "i < 64"
  shows "fold (md5_step inp) (i # is) (a, b, c, d) =
    (let t = step_code inp i a b c d in fold (md5_step inp) is (d, t, b, c))"
  using shift_amount_lt [OF assms] by (simp add: step_code_def MD5STEP_rotl Let_def ac_simps)

lemma fold_step_numeral:
  "fold (md5_step inp) (0 # is) (a, b, c, d) =
    (let t = step_code inp 0 a b c d in fold (md5_step inp) is (d, t, b, c))"
  "fold (md5_step inp) (1 # is) (a, b, c, d) =
    (let t = step_code inp 1 a b c d in fold (md5_step inp) is (d, t, b, c))"
  "numeral k < (64::nat) \<Longrightarrow> fold (md5_step inp) (numeral k # is) (a, b, c, d) =
    (let t = step_code inp (numeral k) a b c d in fold (md5_step inp) is (d, t, b, c))"
  by (simp_all only: fold_step)

lemma upt_64: "[0..<64] =
  [0, 1, 2, 3, 4, 5, 6, 7, 8, 9, 10, 11, 12, 13, 14, 15, 16, 17, 18, 19, 20, 21, 22, 23, 24, 25,
   26, 27, 28, 29, 30, 31, 32, 33, 34, 35, 36, 37, 38, 39, 40, 41, 42, 43, 44, 45, 46, 47, 48, 49,
   50, 51, 52, 53, 54, 55, 56, 57, 58, 59, 60, 61, 62, 63]"
  by (simp add: upt_rec)

text \<open>The 64 macro calls of the code, as entries of the tables.\<close>

lemma step_code_table:
  "step_code inp 0 a b c d = MD5STEP F1 a b c d (inp ! 0 + 0xd76aa478) 7"
  "step_code inp 1 a b c d = MD5STEP F1 a b c d (inp ! 1 + 0xe8c7b756) 12"
  "step_code inp 2 a b c d = MD5STEP F1 a b c d (inp ! 2 + 0x242070db) 17"
  "step_code inp 3 a b c d = MD5STEP F1 a b c d (inp ! 3 + 0xc1bdceee) 22"
  "step_code inp 4 a b c d = MD5STEP F1 a b c d (inp ! 4 + 0xf57c0faf) 7"
  "step_code inp 5 a b c d = MD5STEP F1 a b c d (inp ! 5 + 0x4787c62a) 12"
  "step_code inp 6 a b c d = MD5STEP F1 a b c d (inp ! 6 + 0xa8304613) 17"
  "step_code inp 7 a b c d = MD5STEP F1 a b c d (inp ! 7 + 0xfd469501) 22"
  "step_code inp 8 a b c d = MD5STEP F1 a b c d (inp ! 8 + 0x698098d8) 7"
  "step_code inp 9 a b c d = MD5STEP F1 a b c d (inp ! 9 + 0x8b44f7af) 12"
  "step_code inp 10 a b c d = MD5STEP F1 a b c d (inp ! 10 + 0xffff5bb1) 17"
  "step_code inp 11 a b c d = MD5STEP F1 a b c d (inp ! 11 + 0x895cd7be) 22"
  "step_code inp 12 a b c d = MD5STEP F1 a b c d (inp ! 12 + 0x6b901122) 7"
  "step_code inp 13 a b c d = MD5STEP F1 a b c d (inp ! 13 + 0xfd987193) 12"
  "step_code inp 14 a b c d = MD5STEP F1 a b c d (inp ! 14 + 0xa679438e) 17"
  "step_code inp 15 a b c d = MD5STEP F1 a b c d (inp ! 15 + 0x49b40821) 22"
  "step_code inp 16 a b c d = MD5STEP F2 a b c d (inp ! 1 + 0xf61e2562) 5"
  "step_code inp 17 a b c d = MD5STEP F2 a b c d (inp ! 6 + 0xc040b340) 9"
  "step_code inp 18 a b c d = MD5STEP F2 a b c d (inp ! 11 + 0x265e5a51) 14"
  "step_code inp 19 a b c d = MD5STEP F2 a b c d (inp ! 0 + 0xe9b6c7aa) 20"
  "step_code inp 20 a b c d = MD5STEP F2 a b c d (inp ! 5 + 0xd62f105d) 5"
  "step_code inp 21 a b c d = MD5STEP F2 a b c d (inp ! 10 + 0x02441453) 9"
  "step_code inp 22 a b c d = MD5STEP F2 a b c d (inp ! 15 + 0xd8a1e681) 14"
  "step_code inp 23 a b c d = MD5STEP F2 a b c d (inp ! 4 + 0xe7d3fbc8) 20"
  "step_code inp 24 a b c d = MD5STEP F2 a b c d (inp ! 9 + 0x21e1cde6) 5"
  "step_code inp 25 a b c d = MD5STEP F2 a b c d (inp ! 14 + 0xc33707d6) 9"
  "step_code inp 26 a b c d = MD5STEP F2 a b c d (inp ! 3 + 0xf4d50d87) 14"
  "step_code inp 27 a b c d = MD5STEP F2 a b c d (inp ! 8 + 0x455a14ed) 20"
  "step_code inp 28 a b c d = MD5STEP F2 a b c d (inp ! 13 + 0xa9e3e905) 5"
  "step_code inp 29 a b c d = MD5STEP F2 a b c d (inp ! 2 + 0xfcefa3f8) 9"
  "step_code inp 30 a b c d = MD5STEP F2 a b c d (inp ! 7 + 0x676f02d9) 14"
  "step_code inp 31 a b c d = MD5STEP F2 a b c d (inp ! 12 + 0x8d2a4c8a) 20"
  "step_code inp 32 a b c d = MD5STEP F3 a b c d (inp ! 5 + 0xfffa3942) 4"
  "step_code inp 33 a b c d = MD5STEP F3 a b c d (inp ! 8 + 0x8771f681) 11"
  "step_code inp 34 a b c d = MD5STEP F3 a b c d (inp ! 11 + 0x6d9d6122) 16"
  "step_code inp 35 a b c d = MD5STEP F3 a b c d (inp ! 14 + 0xfde5380c) 23"
  "step_code inp 36 a b c d = MD5STEP F3 a b c d (inp ! 1 + 0xa4beea44) 4"
  "step_code inp 37 a b c d = MD5STEP F3 a b c d (inp ! 4 + 0x4bdecfa9) 11"
  "step_code inp 38 a b c d = MD5STEP F3 a b c d (inp ! 7 + 0xf6bb4b60) 16"
  "step_code inp 39 a b c d = MD5STEP F3 a b c d (inp ! 10 + 0xbebfbc70) 23"
  "step_code inp 40 a b c d = MD5STEP F3 a b c d (inp ! 13 + 0x289b7ec6) 4"
  "step_code inp 41 a b c d = MD5STEP F3 a b c d (inp ! 0 + 0xeaa127fa) 11"
  "step_code inp 42 a b c d = MD5STEP F3 a b c d (inp ! 3 + 0xd4ef3085) 16"
  "step_code inp 43 a b c d = MD5STEP F3 a b c d (inp ! 6 + 0x04881d05) 23"
  "step_code inp 44 a b c d = MD5STEP F3 a b c d (inp ! 9 + 0xd9d4d039) 4"
  "step_code inp 45 a b c d = MD5STEP F3 a b c d (inp ! 12 + 0xe6db99e5) 11"
  "step_code inp 46 a b c d = MD5STEP F3 a b c d (inp ! 15 + 0x1fa27cf8) 16"
  "step_code inp 47 a b c d = MD5STEP F3 a b c d (inp ! 2 + 0xc4ac5665) 23"
  "step_code inp 48 a b c d = MD5STEP F4 a b c d (inp ! 0 + 0xf4292244) 6"
  "step_code inp 49 a b c d = MD5STEP F4 a b c d (inp ! 7 + 0x432aff97) 10"
  "step_code inp 50 a b c d = MD5STEP F4 a b c d (inp ! 14 + 0xab9423a7) 15"
  "step_code inp 51 a b c d = MD5STEP F4 a b c d (inp ! 5 + 0xfc93a039) 21"
  "step_code inp 52 a b c d = MD5STEP F4 a b c d (inp ! 12 + 0x655b59c3) 6"
  "step_code inp 53 a b c d = MD5STEP F4 a b c d (inp ! 3 + 0x8f0ccc92) 10"
  "step_code inp 54 a b c d = MD5STEP F4 a b c d (inp ! 10 + 0xffeff47d) 15"
  "step_code inp 55 a b c d = MD5STEP F4 a b c d (inp ! 1 + 0x85845dd1) 21"
  "step_code inp 56 a b c d = MD5STEP F4 a b c d (inp ! 8 + 0x6fa87e4f) 6"
  "step_code inp 57 a b c d = MD5STEP F4 a b c d (inp ! 15 + 0xfe2ce6e0) 10"
  "step_code inp 58 a b c d = MD5STEP F4 a b c d (inp ! 6 + 0xa3014314) 15"
  "step_code inp 59 a b c d = MD5STEP F4 a b c d (inp ! 13 + 0x4e0811a1) 21"
  "step_code inp 60 a b c d = MD5STEP F4 a b c d (inp ! 4 + 0xf7537e82) 6"
  "step_code inp 61 a b c d = MD5STEP F4 a b c d (inp ! 11 + 0xbd3af235) 10"
  "step_code inp 62 a b c d = MD5STEP F4 a b c d (inp ! 2 + 0x2ad7d2bb) 15"
  "step_code inp 63 a b c d = MD5STEP F4 a b c d (inp ! 9 + 0xeb86d391) 21"
  by (simp_all add: step_code_def K_table_def round_fun_def msg_index_def shift_amount_def
      round_fun_code)

lemma add4_Let: "add4 s (let t = e in f t) = (let t = e in add4 s (f t))"
  by (simp add: Let_def)

lemma Md5Transform_compress: "Md5Transform s inp = compress s inp"
proof -
  obtain a b c d where s: "s = (a, b, c, d)" by (cases s)
  show ?thesis
    unfolding Md5Transform_def compress_def s upt_64 prod.case
      Let_def [of a] Let_def [of b] Let_def [of c] Let_def [of d]
    by (simp only: fold_step_numeral rel_simps fold_simps(1) step_code_table add4_Let add4.simps)
qed

section \<open>Bytes and words of the buffer\<close>

lemma store32_parts:
  "store32 (push_bit 16 (push_bit 8 (ucast b3) OR ucast b2) OR (push_bit 8 (ucast b1) OR ucast b0)) = [b0, b1, b2, b3]"
  for b0 b1 b2 b3 :: byte
proof -
  have eq: "ucast (drop_bit k (push_bit 16 (push_bit 8 (ucast b3) OR ucast b2) OR (push_bit 8 (ucast b1) OR ucast b0)) :: u32) = b"
    if "(k, b) \<in> {(0, b0), (8, b1), (16, b2), (24, b3)}" for k and b :: byte
    using that by (intro bit_word_eqI) (auto simp: bit_simps dest: bit_imp_le_length)
  show ?thesis
    using eq [of 0 b0] eq [of 8 b1] eq [of 16 b2] eq [of 24 b3] by (simp add: store32_def)
qed

lemma load32_store32: "load32 (store32 w @ bs) = w # load32 bs"
proof -
  have "(ucast (ucast w :: byte) :: u32) OR push_bit 8 (ucast (ucast (drop_bit 8 w) :: byte)) OR
    push_bit 16 (ucast (ucast (drop_bit 16 w) :: byte)) OR push_bit 24 (ucast (ucast (drop_bit 24 w) :: byte)) = w"
  proof (rule bit_word_eqI)
    fix n assume "n < LENGTH(32)"
    then consider "n < 8" | "8 \<le> n" "n < 16" | "16 \<le> n" "n < 24" | "24 \<le> n" "n < 32" by fastforce
    then show "bit ((ucast (ucast w :: byte) :: u32) OR push_bit 8 (ucast (ucast (drop_bit 8 w) :: byte)) OR
        push_bit 16 (ucast (ucast (drop_bit 16 w) :: byte)) OR
        push_bit 24 (ucast (ucast (drop_bit 24 w) :: byte))) n = bit w n"
      by cases (auto simp: bit_simps)
  qed
  then show ?thesis by (simp add: store32_def)
qed

text \<open>On a little-endian machine the byte reversal changes nothing.\<close>

lemma Md5ByteReverse_id [simp]: "Md5ByteReverse bs n = bs"
  by (induction bs n rule: Md5ByteReverse.induct) (simp_all only: Md5ByteReverse.simps Let_def store32_parts append.simps)

lemma length_store32 [simp]: "length (store32 w) = 4"
  by (simp add: store32_def)

lemma length_memcpy_at [simp]:
  "off + length p \<le> length dst \<Longrightarrow> length (memcpy_at dst off p) = length dst"
  by (simp add: memcpy_at_def)

lemma take_memcpy_at:
  "off \<le> length dst \<Longrightarrow> take (off + length p) (memcpy_at dst off p) = take off dst @ p"
  by (simp add: memcpy_at_def min_def)

lemma memcpy_at_0: "memcpy_at dst 0 p = p @ drop (length p) dst"
  by (simp add: memcpy_at_def)

section \<open>Folding over blocks\<close>

lemma md5_fold_append:
  "length xs mod 64 = 0 \<Longrightarrow> md5_fold s (xs @ ys) = md5_fold (md5_fold s xs) ys"
proof (induction s xs rule: md5_fold.induct)
  case (1 s m)
  show ?case
  proof (cases "64 \<le> length m")
    case True
    then have "length (drop 64 m) mod 64 = 0" using "1.prems" by (simp add: mod_if)
    with 1 True show ?thesis by (simp add: md5_fold.simps [of s m] md5_fold.simps [of s "m @ ys"])
  next
    case False
    with "1.prems" have "m = []" by auto
    then show ?thesis by (simp add: md5_fold.simps [of s "[]"])
  qed
qed

lemma md5_fold_short: "length m < 64 \<Longrightarrow> md5_fold s m = s"
  by (subst md5_fold.simps) simp

lemma md5_fold_block: "length m = 64 \<Longrightarrow> md5_fold s m = compress s (load32 m)"
  by (subst md5_fold.simps) (simp add: md5_fold_short)

definition md5_whole :: "byte list \<Rightarrow> byte list" where
  "md5_whole m = take (64 * (length m div 64)) m"

definition md5_rest :: "byte list \<Rightarrow> byte list" where
  "md5_rest m = drop (64 * (length m div 64)) m"

lemma md5_whole_rest: "md5_whole m @ md5_rest m = m"
  by (simp add: md5_whole_def md5_rest_def)

lemma length_md5_rest [simp]: "length (md5_rest m) = length m mod 64"
  by (simp add: md5_rest_def minus_mult_div_eq_mod)

lemma length_md5_whole: "length (md5_whole m) mod 64 = 0"
  using times_div_less_eq_dividend [of 64 "length m"] by (simp add: md5_whole_def min_absorb2)

lemma md5_fold_whole: "md5_fold s (m @ ys) = md5_fold (md5_fold s m) (md5_rest m @ ys)"
proof -
  have "md5_fold s m = md5_fold s (md5_whole m)"
    using md5_fold_append [OF length_md5_whole, of s m "md5_rest m"]
    by (simp add: md5_whole_rest md5_fold_short)
  moreover have "md5_fold s (m @ ys) = md5_fold s (md5_whole m @ (md5_rest m @ ys))"
    by (simp flip: append_assoc add: md5_whole_rest)
  ultimately show ?thesis by (simp add: md5_fold_append [OF length_md5_whole])
qed

lemma md5_rest_append: "md5_rest (m @ ys) = md5_rest (md5_rest m @ ys)"
proof -
  define k where "k = 64 * (length m div 64)"
  have le: "k \<le> length m" by (simp add: k_def)
  have len: "length m = k + length m mod 64" by (simp add: k_def)
  have "length (m @ ys) div 64 = length m div 64 + (length m mod 64 + length ys) div 64"
    by (simp add: div_add1_eq [of "length m" "length ys"]) (simp add: div_add1_eq [of "length m mod 64" "length ys"])
  then have "md5_rest (m @ ys) = drop (64 * ((length m mod 64 + length ys) div 64)) (drop k (m @ ys))"
    by (simp add: md5_rest_def k_def add_mult_distrib2 add.commute)
  also have "drop k (m @ ys) = md5_rest m @ ys" using le by (simp add: md5_rest_def k_def)
  finally show ?thesis by (simp add: md5_rest_def [of "md5_rest m @ ys"])
qed

lemma Md5Blocks_long:
  assumes "64 \<le> length p" and "length (m_ucIn c) = 64"
  shows "Md5Blocks c p = Md5Blocks (c\<lparr>m_ucIn := take 64 p,
    m_uiBuf := compress (m_uiBuf c) (load32 (take 64 p))\<rparr>) (drop 64 p)"
proof -
  have "memcpy_at (m_ucIn c) 0 (take 64 p) = take 64 p"
    using assms by (simp add: memcpy_at_0 min_def)
  then show ?thesis using assms(1) by (subst Md5Blocks.simps) (simp add: Let_def Md5Transform_compress)
qed

lemma Md5Blocks_short:
  "length p < 64 \<Longrightarrow> Md5Blocks c p = c\<lparr>m_ucIn := memcpy_at (m_ucIn c) 0 p\<rparr>"
  by (subst Md5Blocks.simps) simp

lemma md5_rest_drop: "64 \<le> length p \<Longrightarrow> md5_rest p = md5_rest (drop 64 p)"
  using md5_rest_append [of "take 64 p" "drop 64 p"] by (simp add: md5_rest_def min_def)

lemma md5_rest_short: "length p < 64 \<Longrightarrow> md5_rest p = p"
  by (simp add: md5_rest_def)

lemma Md5Blocks_spec:
  assumes "length (m_ucIn c) = 64"
  shows "m_uiBuf (Md5Blocks c p) = md5_fold (m_uiBuf c) p \<and> m_uiBits (Md5Blocks c p) = m_uiBits c \<and>
    length (m_ucIn (Md5Blocks c p)) = 64 \<and> take (length p mod 64) (m_ucIn (Md5Blocks c p)) = md5_rest p"
  using assms
proof (induction p arbitrary: c rule: length_induct)
  case (1 p)
  show ?case
  proof (cases "64 \<le> length p")
    case True
    define c' where "c' = c\<lparr>m_ucIn := take 64 p, m_uiBuf := compress (m_uiBuf c) (load32 (take 64 p))\<rparr>"
    have "length (m_ucIn c') = 64" "length (drop 64 p) < length p" using True by (auto simp: c'_def)
    note IH = "1.IH" [rule_format, OF this(2,1)]
    have "length p mod 64 = length (drop 64 p) mod 64" using True by (simp add: le_mod_geq)
    then show ?thesis
      using IH True by (simp add: Md5Blocks_long "1.prems" md5_rest_drop md5_fold.simps [of _ p] flip: c'_def)
        (simp add: c'_def)
  next
    case False
    with 1 show ?thesis by (simp add: Md5Blocks_short md5_fold_short md5_rest_short memcpy_at_0)
  qed
qed

section \<open>The bit counter\<close>

text \<open>The 64-bit count of message bits held in \<open>m_uiBits\<close>.\<close>

definition bit_count :: "CMd5 \<Rightarrow> nat" where
  "bit_count c = unat (snd (m_uiBits c)) * 2 ^ 32 + unat (fst (m_uiBits c))"

lemma counter_update:
  fixes lo hi :: u32
  assumes "n < 2 ^ 32"
  defines "l \<equiv> word_of_nat n :: u32"
  defines "lo' \<equiv> lo + push_bit 3 l"
  defines "hi' \<equiv> (if lo' < lo then hi + 1 else hi) + drop_bit 29 l"
  shows "(unat hi' * 2 ^ 32 + unat lo') mod 2 ^ 64 = (unat hi * 2 ^ 32 + unat lo + 8 * n) mod 2 ^ 64"
proof -
  have l: "unat l = n" using assms(1) by (simp add: l_def unat_of_nat)
  have dhi: "unat (drop_bit 29 l) = n div 2 ^ 29"
    unfolding unat_drop_bit_eq l by (simp only: drop_bit_eq_div)
  define A B P H where "A = unat lo" and "B = unat hi" and "P = 8 * n mod 2 ^ 32" and "H = n div 2 ^ 29"
  define c :: nat where "c = (if A + P < 2 ^ 32 then 0 else 1)"
  have lt: "A < 2 ^ 32" "P < 2 ^ 32" using unat_lt_u32 [of lo] by (simp_all add: A_def P_def)
  have n: "8 * n = H * 2 ^ 32 + P" 
  proof -
    have "8 * n div 2 ^ 32 = H" by (simp add: H_def div_mult2_eq [of "8 * n" 8 "2 ^ 29", simplified])
    then show ?thesis using div_mult_mod_eq [of "8 * n" "2 ^ 32"] by (simp add: P_def)
  qed
  have dlo: "unat (push_bit 3 l) = P"
    by (simp add: push_bit_eq_mult unat_word_ariths l P_def mult.commute)
  then have A': "unat lo' = (A + P) mod 2 ^ 32" by (simp add: lo'_def unat_word_ariths A_def)
  have AP: "A + P = c * 2 ^ 32 + unat lo'" using lt unfolding A' c_def by (auto simp: mod_if)
  have carry: "lo' < lo \<longleftrightarrow> c = 1"
    unfolding word_less_nat_alt using AP lt by (auto simp: c_def A_def split: if_splits)
  have B': "unat hi' = (B + c + H) mod 2 ^ 32"
  proof (cases "c = 1")
    case True
    then show ?thesis using carry by (simp add: hi'_def unat_word_ariths dhi B_def H_def mod_simps)
  next
    case False
    then have "c = 0" by (simp add: c_def split: if_splits)
    then show ?thesis using carry by (simp add: hi'_def unat_word_ariths dhi B_def H_def)
  qed
  have "(unat hi' * 2 ^ 32 + unat lo') mod 2 ^ 64 = ((B + c + H) * 2 ^ 32 + unat lo') mod 2 ^ 64"
    unfolding B' using mult_mod_left [of "B + c + H" "2 ^ 32" "2 ^ 32"] by (simp add: mod_simps)
  also have "(B + c + H) * 2 ^ 32 + unat lo' = unat hi * 2 ^ 32 + unat lo + 8 * n"
    using AP n by (simp add: A_def B_def algebra_simps)
  finally show ?thesis .
qed

section \<open>The streaming invariant\<close>

text \<open>The state \<open>c\<close> has absorbed the message \<open>m\<close>.\<close>

definition md5_inv :: "CMd5 \<Rightarrow> byte list \<Rightarrow> bool" where
  "md5_inv c m \<longleftrightarrow> length (m_ucIn c) = 64 \<and> m_uiBuf c = md5_fold md5_iv m \<and>
     bit_count c = 8 * length m mod 2 ^ 64 \<and> take (length m mod 64) (m_ucIn c) = md5_rest m"

lemma md5_inv_Init: "length (m_ucIn c) = 64 \<Longrightarrow> md5_inv (Md5Init c) []"
  by (simp add: md5_inv_def Md5Init_def bit_count_def md5_fold_short md5_iv_def md5_rest_def)

lemma buffer_offset:
  assumes "md5_inv c m"
  shows "unat (drop_bit 3 (fst (m_uiBits c)) AND 0x3f) = length m mod 64"
proof -
  let ?b = "unat (fst (m_uiBits c))"
  have "?b < 2 ^ 32" by (rule unat_lt_u32)
  moreover from assms have "(unat (snd (m_uiBits c)) * 2 ^ 32 + ?b) mod 2 ^ 32 = 8 * length m mod 2 ^ 64 mod 2 ^ 32"
    by (simp add: md5_inv_def bit_count_def)
  ultimately have b: "?b = 8 * length m mod 2 ^ 32" by (simp add: mod_mod_cancel)
  have "drop_bit 3 (fst (m_uiBits c)) AND 0x3f = take_bit 6 (drop_bit 3 (fst (m_uiBits c)))"
    by (simp add: take_bit_eq_mask mask_eq_exp_minus_1)
  then have "unat (drop_bit 3 (fst (m_uiBits c)) AND 0x3f) = (?b div 8) mod 64"
    unfolding unsigned_take_bit_eq unat_drop_bit_eq
    by (simp only: unsigned_take_bit_eq unat_drop_bit_eq) (simp add: take_bit_eq_mod drop_bit_eq_div)
  also have "?b div 8 = length m mod 2 ^ 29"
    using mod_mult_mult1 [of 8 "length m" "2 ^ 29"] by (simp add: b)
  then have "(?b div 8) mod 64 = length m mod 64" by (simp add: mod_mod_cancel)
  finally show ?thesis .
qed

text \<open>What an update does to the counter and to the message, before the cases of the buffer.\<close>

definition add_bits :: "CMd5 \<Rightarrow> byte list \<Rightarrow> CMd5" where
  "add_bits c xs =
     (let uiLen = word_of_nat (length xs) :: u32; b0 = fst (m_uiBits c); b0' = b0 + push_bit 3 uiLen
      in c\<lparr>m_uiBits := (b0', (if b0' < b0 then snd (m_uiBits c) + 1 else snd (m_uiBits c)) + drop_bit 29 uiLen)\<rparr>)"

lemma bit_count_lt: "bit_count c < 2 ^ 64"
  using unat_lt_u32 [of "fst (m_uiBits c)"] unat_lt_u32 [of "snd (m_uiBits c)"]
  by (simp add: bit_count_def)

lemma m_uiBits_add_bits:
  "m_uiBits (add_bits c xs) =
    (fst (m_uiBits c) + push_bit 3 (word_of_nat (length xs)),
     (if fst (m_uiBits c) + push_bit 3 (word_of_nat (length xs)) < fst (m_uiBits c)
      then snd (m_uiBits c) + 1 else snd (m_uiBits c)) + drop_bit 29 (word_of_nat (length xs)))"
  by (simp add: add_bits_def Let_def)

lemma bit_count_add_bits:
  assumes "length xs < 2 ^ 32"
  shows "bit_count (add_bits c xs) = (bit_count c + 8 * length xs) mod 2 ^ 64"
proof -
  have "bit_count (add_bits c xs) mod 2 ^ 64 = (bit_count c + 8 * length xs) mod 2 ^ 64"
    using counter_update [OF assms, where lo = "fst (m_uiBits c)" and hi = "snd (m_uiBits c)"]
    by (simp only: bit_count_def m_uiBits_add_bits fst_conv snd_conv)
  then show ?thesis using bit_count_lt [of "add_bits c xs"] by simp
qed

lemma add_bits_frame [simp]:
  "m_uiBuf (add_bits c xs) = m_uiBuf c" "m_ucIn (add_bits c xs) = m_ucIn c"
  by (simp_all add: add_bits_def Let_def)

lemma bit_count_frame [simp]:
  "bit_count (c\<lparr>m_ucIn := i\<rparr>) = bit_count c" "bit_count (c\<lparr>m_uiBuf := b\<rparr>) = bit_count c"
  by (simp_all add: bit_count_def)

lemma Md5Update_cases:
  assumes "md5_inv c m" and "length xs < 2 ^ 32"
  defines "off \<equiv> length m mod 64"
  shows "Md5Update c xs =
    (if off \<noteq> 0 then
       if length xs < 64 - off then (add_bits c xs)\<lparr>m_ucIn := memcpy_at (m_ucIn c) off xs\<rparr>
       else Md5Blocks ((add_bits c xs)\<lparr>m_ucIn := md5_rest m @ take (64 - off) xs,
              m_uiBuf := compress (m_uiBuf c) (load32 (md5_rest m @ take (64 - off) xs))\<rparr>) (drop (64 - off) xs)
     else Md5Blocks (add_bits c xs) xs)"
proof -
  have len: "unat (word_of_nat (length xs) :: u32) = length xs" using assms(2) by (simp add: unat_of_nat)
  have inv: "length (m_ucIn c) = 64" "take off (m_ucIn c) = md5_rest m"
    using assms(1) by (simp_all add: md5_inv_def off_def)
  have "off < 64" by (simp add: off_def)
  then have "memcpy_at (m_ucIn c) off (take (64 - off) xs) = md5_rest m @ take (64 - off) xs"
    if "64 - off \<le> length xs" using that inv by (simp add: memcpy_at_def min_def)
  then show ?thesis
    unfolding Md5Update_def Let_def add_bits_def buffer_offset [OF assms(1)] len off_def [symmetric]
    by (simp add: Md5Transform_compress)
qed

lemma md5_inv_Update:
  assumes inv: "md5_inv c m" and len: "length xs < 2 ^ 32"
  shows "md5_inv (Md5Update c xs) (m @ xs)"
proof -
  define off where "off = length m mod 64"
  define k where "k = 64 - off"
  have off: "off < 64" "length (md5_rest m) = off" by (simp_all add: off_def)
  have bits: "bit_count (add_bits c xs) = 8 * length (m @ xs) mod 2 ^ 64"
    using inv len by (simp add: bit_count_add_bits md5_inv_def mod_simps algebra_simps)
  have c: "length (m_ucIn c) = 64" "m_uiBuf c = md5_fold md5_iv m" "take off (m_ucIn c) = md5_rest m"
    using inv by (simp_all add: md5_inv_def off_def)
  have fold: "md5_fold md5_iv (m @ xs) = md5_fold (m_uiBuf c) (md5_rest m @ xs)"
    using md5_fold_whole by (simp add: c)
  have rest: "md5_rest (m @ xs) = md5_rest (md5_rest m @ xs)" by (rule md5_rest_append)
  have mod: "length (m @ xs) mod 64 = (off + length xs) mod 64" by (simp add: off_def mod_simps)
  note upd = Md5Update_cases [OF inv len, folded off_def, folded k_def]
  consider "off \<noteq> 0" "length xs < k" | "off \<noteq> 0" "k \<le> length xs" | "off = 0" by linarith
  then show ?thesis
  proof cases
    case 1
    then have small: "length (md5_rest m @ xs) < 64" using off by (simp add: k_def)
    have "(off + length xs) mod 64 = off + length xs" using 1 by (simp add: k_def)
    then have t: "take ((off + length xs) mod 64) (memcpy_at (m_ucIn c) off xs) = md5_rest m @ xs"
      using take_memcpy_at [of off "m_ucIn c" xs] off c by simp
    show ?thesis
      unfolding md5_inv_def fold rest mod md5_fold_short [OF small] md5_rest_short [OF small] upd
      using 1 off c t bits by (simp add: k_def)
  next
    case 2
    define blk where "blk = md5_rest m @ take k xs"
    define c' where "c' = (add_bits c xs)\<lparr>m_ucIn := blk, m_uiBuf := compress (m_uiBuf c) (load32 blk)\<rparr>"
    have blk: "length blk = 64" "md5_rest m @ xs = blk @ drop k xs"
      using 2 off by (simp_all add: blk_def k_def)
    have sp: "Md5Update c xs = Md5Blocks c' (drop k xs)" using 2 by (simp add: upd blk_def c'_def)
    have "md5_fold (m_uiBuf c) (blk @ drop k xs) = md5_fold (compress (m_uiBuf c) (load32 blk)) (drop k xs)"
      using blk(1) by (simp add: md5_fold_append md5_fold_block)
    moreover have "md5_rest (blk @ drop k xs) = md5_rest (drop k xs)"
      using md5_rest_drop [of "blk @ drop k xs"] blk(1) by simp
    moreover have "(off + length xs) mod 64 = length (drop k xs) mod 64"
    proof -
      have "off + length xs = 64 + (length xs - k)" using 2 off by (simp add: k_def)
      then show ?thesis by simp
    qed
    ultimately have *: "md5_fold md5_iv (m @ xs) = md5_fold (compress (m_uiBuf c) (load32 blk)) (drop k xs)"
      "md5_rest (m @ xs) = md5_rest (drop k xs)" "length (m @ xs) mod 64 = length (drop k xs) mod 64"
      unfolding fold rest mod blk(2) by simp_all
    have "length (m_ucIn c') = 64" by (simp add: c'_def blk)
    from Md5Blocks_spec [OF this, of "drop k xs"] show ?thesis
      using bits unfolding md5_inv_def sp * bit_count_def by (simp add: c'_def)
  next
    case 3
    then show ?thesis
      using Md5Blocks_spec [of "add_bits c xs" xs] c bits off
      unfolding md5_inv_def upd fold rest mod bit_count_def by simp
  qed
qed

section \<open>Finalisation\<close>

lemma store64_bit_count:
  assumes "md5_inv c m"
  shows "store64 (len64 m) = store32 (fst (m_uiBits c)) @ store32 (snd (m_uiBits c))"
proof -
  let ?lo = "fst (m_uiBits c)" and ?hi = "snd (m_uiBits c)"
  have "unat (len64 m) = 8 * length m mod 2 ^ 64" by (simp only: len64_def unat_of_nat) simp
  with assms have u: "unat (len64 m) = unat ?hi * 2 ^ 32 + unat ?lo"
    by (simp add: md5_inv_def bit_count_def)
  have "unat (ucast (len64 m) :: u32) = unat ?lo"
    unfolding unsigned_ucast_eq u take_bit_eq_mod using unat_lt_u32 [of ?lo] by simp
  moreover have "unat (ucast (drop_bit 32 (len64 m)) :: u32) = unat ?hi"
    unfolding unsigned_ucast_eq unat_drop_bit_eq u
    unfolding drop_bit_eq_div take_bit_eq_mod
    using unat_lt_u32 [of ?lo] unat_lt_u32 [of ?hi] by simp
  ultimately show ?thesis by (simp only: store64_def word_unat_eq_iff [symmetric])
qed

lemma memcpy_at_append: "off = length u \<Longrightarrow> memcpy_at (u @ v) off p = u @ p @ drop (length p) v"
  by (simp add: memcpy_at_def)

lemma pad_0x80:
  assumes "off < 64" "length b = 64" "take off b = r" "off + n < 64"
  shows "memcpy_at (memcpy_at b off [0x80]) (off + 1) (replicate n 0)
    = (r @ [0x80] @ replicate n 0) @ drop (off + 1 + n) b"
proof -
  have r: "b = r @ drop off b" "length r = off" using assms by (auto simp flip: assms(3))
  have "memcpy_at b off [0x80] = (r @ [0x80]) @ drop (off + 1) b"
    using memcpy_at_append [of off r "drop off b" "[0x80]"] r by (simp add: drop_drop)
  then show ?thesis
    using memcpy_at_append [of "off + 1" "r @ [0x80]" "drop (off + 1) b" "replicate n 0"] r(2)
    by (simp add: drop_drop ac_simps)
qed

lemma Md5Final_small:
  assumes "off + 8 < 64" "length b = 64" "length l = 8" "take off b = r"
  shows "memcpy_at (memcpy_at (memcpy_at b off [0x80]) (off + 1) (replicate (55 - off) 0)) 56 l
    = r @ [0x80] @ replicate (55 - off) 0 @ l"
proof -
  have "length r = off" using assms by auto
  then have "56 = length (r @ [0x80 :: byte] @ replicate (55 - off) 0)" using assms(1) by simp
  from memcpy_at_append [OF this] show ?thesis
    using pad_0x80 [of off b r "55 - off"] assms by simp
qed

lemma Md5Final_large:
  assumes "off < 64" "length b = 64" "take off b = r"
  shows "memcpy_at (memcpy_at b off [0x80]) (off + 1) (replicate (63 - off) 0)
    = r @ [0x80] @ replicate (63 - off) 0"
  using pad_0x80 [OF assms, of "63 - off"] assms by simp

lemma Md5Final_ref:
  assumes inv: "md5_inv c m"
  shows "snd (Md5Final c) = md5_ref m"
proof -
  define off where "off = length m mod 64"
  define r where "r = md5_rest m"
  define l where "l = store64 (len64 m)"
  have l: "store32 (fst (m_uiBits c)) @ store32 (snd (m_uiBits c)) = l" "length l = 8"
    using store64_bit_count [OF inv] by (simp_all add: l_def store64_def)
  have c: "length (m_ucIn c) = 64" "m_uiBuf c = md5_fold md5_iv m" "take off (m_ucIn c) = r"
    using inv by (simp_all add: md5_inv_def off_def r_def)
  have off: "off < 64" "length r = off" by (simp_all add: off_def r_def)
  have pad: "md5_fold md5_iv (md5_pad m) =
      md5_fold (m_uiBuf c) (r @ [0x80] @ replicate ((119 - off) mod 64) 0 @ l)"
    unfolding md5_pad_def md5_fold_whole [of md5_iv m] c(2) r_def l_def off_def by simp
  show ?thesis
  proof (cases "off + 8 < 64")
    case True
    then have "(119 - off) mod 64 = 55 - off" by (simp add: mod_if)
    moreover have "length (r @ [0x80] @ replicate (55 - off) 0 @ l) = 64" using True off l by simp
    ultimately have "md5_fold md5_iv (md5_pad m) =
        compress (m_uiBuf c) (load32 (r @ [0x80] @ replicate (55 - off) 0 @ l))"
      by (simp only: pad md5_fold_block)
    moreover have "\<not> 63 - off < 8" using True by simp
    ultimately show ?thesis
      using True Md5Final_small [OF True c(1) l(2) c(3)]
      by (simp add: Md5Final_def md5_ref_def buffer_offset [OF inv] Let_def l Md5Transform_compress
          flip: off_def split: prod.splits)
  next
    case False
    then have z: "(119 - off) mod 64 = (63 - off) + 56" using off by (simp add: mod_if)
    define blk where "blk = r @ [0x80] @ replicate (63 - off) (0 :: byte)"
    have blk: "length blk = 64" using off by (simp add: blk_def)
    have "md5_fold md5_iv (md5_pad m) = md5_fold (m_uiBuf c) (blk @ replicate 56 0 @ l)"
      unfolding pad z replicate_add blk_def by simp
    also have "\<dots> = compress (compress (m_uiBuf c) (load32 blk)) (load32 (replicate 56 0 @ l))"
      using blk l by (simp add: md5_fold_append md5_fold_block)
    finally have f: "md5_fold md5_iv (md5_pad m) = \<dots>" .
    have "memcpy_at (memcpy_at blk 0 (replicate 56 0)) 56 l = replicate 56 0 @ l"
      using blk l by (simp add: memcpy_at_def)
    moreover have "63 - off < 8" using False off by simp
    ultimately show ?thesis
      using False off Md5Final_large [OF off(1) c(1,3), folded blk_def]
      by (simp add: Md5Final_def md5_ref_def buffer_offset [OF inv] Let_def l Md5Transform_compress f
          flip: off_def split: prod.splits)
  qed
qed

section \<open>The contract of a streaming hash\<close>

text \<open>
  What the code that hashes keys relies on: an object that is initialised, fed with
  buffers and finalised yields the hash \<open>H\<close> of everything it was fed, whatever the
  object held before.
\<close>

locale streaming_hash =
  fixes ready :: "'c \<Rightarrow> bool"
    and init :: "'c \<Rightarrow> 'c"
    and update :: "'c \<Rightarrow> byte list \<Rightarrow> 'c"
    and final :: "'c \<Rightarrow> 'c \<times> byte list"
    and absorbed :: "'c \<Rightarrow> byte list \<Rightarrow> bool"
    and H :: "byte list \<Rightarrow> byte list"
    and max_len :: nat
  assumes absorbed_init: "ready c \<Longrightarrow> absorbed (init c) []"
    and absorbed_update: "absorbed c m \<Longrightarrow> length xs < max_len \<Longrightarrow> absorbed (update c xs) (m @ xs)"
    and final_hash: "absorbed c m \<Longrightarrow> snd (final c) = H m"
    and ready_final: "absorbed c m \<Longrightarrow> ready (fst (final c))"
begin

lemma absorbed_updates:
  assumes "absorbed c m" and "\<forall>xs \<in> set xss. length xs < max_len"
  shows "absorbed (fold (\<lambda>xs c. update c xs) xss c) (m @ concat xss)"
  using assms
proof (induction xss arbitrary: c m)
  case (Cons xs xss)
  then have "absorbed (update c xs) (m @ xs)" by (simp add: absorbed_update)
  with Cons.IH [OF this] Cons.prems show ?case by simp
qed simp

lemma hash_updates:
  "ready c \<Longrightarrow> \<forall>xs \<in> set xss. length xs < max_len \<Longrightarrow>
   snd (final (fold (\<lambda>xs c. update c xs) xss (init c))) = H (concat xss)"
  using absorbed_updates [OF absorbed_init] by (auto intro: final_hash)

lemma hash_once:
  "ready c \<Longrightarrow> length xs < max_len \<Longrightarrow> snd (final (update (init c) xs)) = H xs"
  using hash_updates [of c "[xs]"] by simp

lemma ready_once:
  "ready c \<Longrightarrow> length xs < max_len \<Longrightarrow> ready (fst (final (update (init c) xs)))"
  using absorbed_update [OF absorbed_init, of c xs] by (simp add: ready_final)

end

definition md5_ready :: "CMd5 \<Rightarrow> bool" where
  "md5_ready c \<longleftrightarrow> length (m_ucIn c) = 64"

lemma md5_ready_Final: "md5_inv c m \<Longrightarrow> md5_ready (fst (Md5Final c))"
proof -
  assume inv: "md5_inv c m"
  have "length m mod 64 < 64" "length (m_ucIn c) = 64" using inv by (simp_all add: md5_inv_def)
  then show ?thesis
    unfolding Md5Final_def Let_def buffer_offset [OF inv]
    by (auto simp: md5_ready_def split: prod.splits)
qed

interpretation md5: streaming_hash md5_ready Md5Init Md5Update Md5Final md5_inv md5_ref "2 ^ 32"
  by unfold_locales (simp_all add: md5_ready_def md5_inv_Init md5_inv_Update Md5Final_ref md5_ready_Final [unfolded md5_ready_def])

section \<open>Properties\<close>

text \<open>
  C11. Feeding a message to \<open>Md5Update\<close> in any sequence of buffers shorter than
  4 GB and finalising yields the RFC 1321 digest of the concatenated message, whatever
  the object's 64-byte buffer and counters held before \<open>Md5Init\<close>.
\<close>

theorem md5_incremental_correct:
  assumes "length (m_ucIn c) = 64" and "\<forall>xs \<in> set xss. length xs < 2 ^ 32"
  shows "snd (Md5Final (fold (\<lambda>xs c. Md5Update c xs) xss (Md5Init c))) = md5_ref (concat xss)"
  using md5.hash_updates [of c xss] assms by (simp add: md5_ready_def)

definition blank_md5 :: CMd5 where
  "blank_md5 = \<lparr>m_uiBuf = (1, 2, 3, 4), m_uiBits = (5, 6), m_ucIn = replicate 64 7\<rparr>"

theorem md5_incremental_correct_witness:
  "snd (Md5Final (fold (\<lambda>xs c. Md5Update c xs) [[0x61], [0x62, 0x63]] (Md5Init blank_md5)))
    = md5_ref (concat [[0x61], [0x62, 0x63]])"
  by (rule md5_incremental_correct) (simp_all add: blank_md5_def)

text \<open>
  The RFC 1321 test vector: the digest the class computes for the message
  \<^verbatim>\<open>abc\<close> is \<^verbatim>\<open>900150983cd24fb0d6963f7d28e17f72\<close>.
\<close>

theorem md5_abc_vector:
  "snd (Md5Final (Md5Update (Md5Init blank_md5) (bytes_of ''abc''))) =
    [0x90, 0x01, 0x50, 0x98, 0x3c, 0xd2, 0x4f, 0xb0, 0xd6, 0x96, 0x3f, 0x7d, 0x28, 0xe1, 0x7f, 0x72]"
proof -
  have "bytes_of ''abc'' = [0x61, 0x62, 0x63]" by code_simp
  moreover have "md5_ref [0x61, 0x62, 0x63] =
    [0x90, 0x01, 0x50, 0x98, 0x3c, 0xd2, 0x4f, 0xb0, 0xd6, 0x96, 0x3f, 0x7d, 0x28, 0xe1, 0x7f, 0x72]"
    by code_simp
  ultimately show ?thesis
    using md5.hash_once [of blank_md5 "[0x61, 0x62, 0x63]"] by (simp add: md5_ready_def blank_md5_def)
qed

text \<open>
  C34. The unrolled macro sequence of \<open>Md5Transform\<close>, with its rewritten round
  functions, is the table-driven compression function of RFC 1321, for every chaining
  value and every block.
\<close>

theorem md5_transform_is_rfc: "Md5Transform s inp = compress s inp"
  by (rule Md5Transform_compress)

end
