(* ===== verification/Base64.thy ===== *)
theory Base64
  imports Prelude "HOL-Library.Signed_Division"
begin

text \<open>
  Base 64 and the XOR obfuscation on top of it: \<^verbatim>\<open>src/src/CommonTools/Base64Encode/\<close>
  \<^verbatim>\<open>Base64.cpp\<close> and \<^verbatim>\<open>Base64_2.cpp\<close> (two copies that differ in one letter of the
  alphabet) and the third encoder \<^verbatim>\<open>CTcpSocket::EncodingBase64\<close> of
  \<^verbatim>\<open>src/src/CommonTools/Socket/TcpSocket.cpp\<close>.

  The two copies are the same text over their alphabet, so the loops are definitions with the
  alphabet as an argument; the locale \<open>base64_alphabet\<close> states what an alphabet must satisfy
  and proves the round trip once, and both alphabets interpret it.
\<close>

section \<open>The code of Base64.cpp and Base64\_2.cpp\<close>

definition is_alnum :: "char \<Rightarrow> bool" where
  "is_alnum c \<longleftrightarrow> is_digit c \<or> (65 \<le> (of_char c :: nat) \<and> (of_char c :: nat) \<le> 90)
     \<or> (97 \<le> (of_char c :: nat) \<and> (of_char c :: nat) \<le> 122)"

definition base64_chars :: string where
  "base64_chars = ''ABCDEFGHIJKLMNOPQRSTUVWXYZabcdefghijklmnopqrstuvwxyz0123456789+/''"

definition base64_chars_2 :: string where
  "base64_chars_2 = ''ABCDEFGHIJKLMNOPQRSTUVWXYZabcdefghijklmnopqrstuvwxyz0123456789-/''"

definition is_base64 :: "char \<Rightarrow> bool" where
  "is_base64 c \<longleftrightarrow> is_alnum c \<or> c = CHR ''+'' \<or> c = CHR ''/''"

definition is_base64_2 :: "char \<Rightarrow> bool" where
  "is_base64_2 c \<longleftrightarrow> is_alnum c \<or> c = CHR ''-'' \<or> c = CHR ''/''"

text \<open>The four sextets of \<^verbatim>\<open>char_array_3\<close>, and the three bytes of \<^verbatim>\<open>char_array_4\<close>.\<close>

definition to_char_array_4 :: "byte \<Rightarrow> byte \<Rightarrow> byte \<Rightarrow> byte list" where
  "to_char_array_4 a b c =
     [drop_bit 2 (a AND 0xfc),
      push_bit 4 (a AND 0x03) + drop_bit 4 (b AND 0xf0),
      push_bit 2 (b AND 0x0f) + drop_bit 6 (c AND 0xc0),
      c AND 0x3f]"

definition to_char_array_3 :: "byte \<Rightarrow> byte \<Rightarrow> byte \<Rightarrow> byte \<Rightarrow> byte list" where
  "to_char_array_3 a b c d =
     [push_bit 2 a + drop_bit 4 (b AND 0x30),
      push_bit 4 (b AND 0xf) + drop_bit 2 (c AND 0x3c),
      push_bit 6 (c AND 0x3) + d]"

text \<open>
  The encoder's loop: \<open>arr\<close> is the filled part \<^verbatim>\<open>char_array_3[0..i)\<close>, \<open>ret\<close> the
  output so far. It ends with the bytes that did not fill a group.
\<close>

fun encode_loop :: "string \<Rightarrow> byte list \<Rightarrow> byte list \<Rightarrow> string \<Rightarrow> byte list \<times> string" where
  "encode_loop chars [] arr ret = (arr, ret)"
| "encode_loop chars (x # xs) arr ret =
     (let arr = arr @ [x] in
      if length arr = 3
      then encode_loop chars xs []
             (ret @ map (\<lambda>w. chars ! unat w) (to_char_array_4 (arr ! 0) (arr ! 1) (arr ! 2)))
      else encode_loop chars xs arr ret)"

definition encode_with :: "string \<Rightarrow> byte list \<Rightarrow> string" where
  "encode_with chars bytes_to_encode =
     (let (arr, ret) = encode_loop chars bytes_to_encode [] []; i = length arr in
      if i \<noteq> 0 then
        let arr = arr @ replicate (3 - i) 0;
            arr4 = to_char_array_4 (arr ! 0) (arr ! 1) (arr ! 2)
        in ret @ map (\<lambda>w. chars ! unat w) (take (i + 1) arr4) @ replicate (3 - i) (CHR ''='')
      else ret)"

text \<open>\<^verbatim>\<open>base64_chars.find(c)\<close> stored into an \<^verbatim>\<open>unsigned char\<close>: \<^verbatim>\<open>npos\<close> becomes 255.\<close>

definition sextet_of :: "string \<Rightarrow> byte \<Rightarrow> byte" where
  "sextet_of chars b =
     (case str_find chars [char_of_byte b] 0 of None \<Rightarrow> 255 | Some n \<Rightarrow> word_of_nat n)"

fun decode_loop ::
  "string \<Rightarrow> (char \<Rightarrow> bool) \<Rightarrow> string \<Rightarrow> byte list \<Rightarrow> string \<Rightarrow> byte list \<times> string" where
  "decode_loop chars valid [] arr ret = (arr, ret)"
| "decode_loop chars valid (c # cs) arr ret =
     (if c \<noteq> CHR ''='' \<and> valid c then
        let arr = arr @ [byte_of c] in
        if length arr = 4 then
          let v = map (sextet_of chars) arr in
          decode_loop chars valid cs []
            (ret @ map char_of_byte (to_char_array_3 (v ! 0) (v ! 1) (v ! 2) (v ! 3)))
        else decode_loop chars valid cs arr ret
      else (arr, ret))"

definition decode_with :: "string \<Rightarrow> (char \<Rightarrow> bool) \<Rightarrow> string \<Rightarrow> string" where
  "decode_with chars valid encoded_string =
     (let (arr, ret) = decode_loop chars valid encoded_string [] []; i = length arr in
      if i \<noteq> 0 then
        let v = map (sextet_of chars) (arr @ replicate (4 - i) 0);
            arr3 = to_char_array_3 (v ! 0) (v ! 1) (v ! 2) (v ! 3)
        in ret @ map char_of_byte (take (i - 1) arr3)
      else ret)"

definition base64_encode :: "byte list \<Rightarrow> string" where
  "base64_encode bytes_to_encode = encode_with base64_chars bytes_to_encode"

definition base64_decode :: "string \<Rightarrow> string" where
  "base64_decode encoded_string = decode_with base64_chars is_base64 encoded_string"

definition base64_encode_2 :: "byte list \<Rightarrow> string" where
  "base64_encode_2 bytes_to_encode = encode_with base64_chars_2 bytes_to_encode"

definition base64_decode_2 :: "string \<Rightarrow> string" where
  "base64_decode_2 encoded_string = decode_with base64_chars_2 is_base64_2 encoded_string"

text \<open>
  \<open>Encrypt\<close> draws a random key and overwrites it with 20, so the key is 20; the
  characters are signed, and \<open>smod\<close> is C's remainder.
\<close>

definition xor_char :: "int \<Rightarrow> char \<Rightarrow> char" where
  "xor_char key c = char_of_byte (word_of_int (sint (byte_of c) XOR (key smod 32)))"

definition Encrypt :: "string \<Rightarrow> string" where
  "Encrypt oriString =
     (let ranDomNum = 20;
          finalString = map (xor_char ranDomNum) (rev oriString) @ [char_of_byte (word_of_int ranDomNum)]
      in base64_encode (bytes_of finalString))"

text \<open>\<^verbatim>\<open>decodeString.at(length() - 1)\<close> raises \<^verbatim>\<open>std::out_of_range\<close> on an empty string: \<open>None\<close>.\<close>

definition Decrypt :: "string \<Rightarrow> string option" where
  "Decrypt oriString =
     (let decodeString = base64_decode oriString in
      if decodeString = [] then None
      else let ranDomNum = sint (byte_of (last decodeString))
           in Some (rev (map (xor_char ranDomNum) (butlast decodeString))))"

definition Encrypt_2 :: "string \<Rightarrow> string" where
  "Encrypt_2 oriString =
     (let ranDomNum = 20;
          finalString = map (xor_char ranDomNum) (rev oriString) @ [char_of_byte (word_of_int ranDomNum)]
      in base64_encode_2 (bytes_of finalString))"

definition Decrypt_2 :: "string \<Rightarrow> string option" where
  "Decrypt_2 oriString =
     (let decodeString = base64_decode_2 oriString in
      if decodeString = [] then None
      else let ranDomNum = sint (byte_of (last decodeString))
           in Some (rev (map (xor_char ranDomNum) (butlast decodeString))))"

section \<open>The encoder of TcpSocket.cpp\<close>

text \<open>
  \<^verbatim>\<open>AVal(x)\<close> indexes the 65-byte table with a signed \<^verbatim>\<open>char\<close>; an index outside the
  table is an out-of-bounds read: \<open>None\<close>. The input characters are signed and shifted
  arithmetically, as the code does.
\<close>

definition AVal :: "int \<Rightarrow> char option" where
  "AVal x = (if 0 \<le> x \<and> x < 65 then Some ((base64_chars @ [NUL]) ! nat x) else None)"

fun vals :: "int list \<Rightarrow> string option" where
  "vals [] = Some []"
| "vals (x # xs) =
     (case AVal x of None \<Rightarrow> None
      | Some c \<Rightarrow> (case vals xs of None \<Rightarrow> None | Some cs \<Rightarrow> Some (c # cs)))"

fun EncodingBase64 :: "string \<Rightarrow> string option" where
  "EncodingBase64 (x # y # z # rest) =
     (let p0 = sint (byte_of x); p1 = sint (byte_of y); p2 = sint (byte_of z);
          a1 = drop_bit 2 p0;
          a2 = push_bit 4 (p0 AND 0x03) OR drop_bit 4 p1;
          a3 = push_bit 2 (p1 AND 0x0F) OR drop_bit 6 (p2 AND 0xC0);
          a4 = p2 AND 0x3F
      in case vals [a1, a2, a3, a4] of None \<Rightarrow> None
         | Some out \<Rightarrow> (case EncodingBase64 rest of None \<Rightarrow> None | Some t \<Rightarrow> Some (out @ t)))"
| "EncodingBase64 [x, y] =
     (let p0 = sint (byte_of x); p1 = sint (byte_of y);
          a1 = drop_bit 2 p0;
          a2 = push_bit 4 (p0 AND 0x03) OR drop_bit 4 p1;
          a3 = push_bit 2 (p1 AND 0x0F)
      in map_option (\<lambda>out. out @ ''='') (vals [a1, a2, a3]))"
| "EncodingBase64 [x] =
     (let p0 = sint (byte_of x);
          a1 = drop_bit 2 p0;
          a2 = push_bit 4 (p0 AND 0x03)
      in map_option (\<lambda>out. out @ ''=='') (vals [a1, a2]))"
| "EncodingBase64 [] = Some []"

section \<open>Sextets\<close>

lemma less_8_iff: "(n::nat) < 8 \<longleftrightarrow> n \<in> {0,1,2,3,4,5,6,7}"
  by auto

lemma byte_eqI_bits:
  assumes "\<And>n. n \<in> {0,1,2,3,4,5,6,7} \<Longrightarrow> bit v n = bit w n" shows "v = (w :: byte)"
proof (rule bit_word_eqI)
  fix n assume "n < LENGTH(8)" then have "n < 8" by simp
  then show "bit v n = bit w n" unfolding less_8_iff by (rule assms)
qed

lemma disjoint_plus_or: "x AND y = 0 \<Longrightarrow> x + y = x OR (y :: 'a::len word)"
  by (simp add: disjunctive_add_eq_or)

text \<open>Every addition in the two conversions joins disjoint bit fields.\<close>

lemma field_sums:
  fixes a b :: byte
  shows "push_bit 4 (a AND 3) + drop_bit 4 (b AND 0xf0) = push_bit 4 (a AND 3) OR drop_bit 4 (b AND 0xf0)"
    and "push_bit 2 (a AND 0xf) + drop_bit 6 (b AND 0xc0) = push_bit 2 (a AND 0xf) OR drop_bit 6 (b AND 0xc0)"
    and "push_bit 2 a + drop_bit 4 (b AND 0x30) = push_bit 2 a OR drop_bit 4 (b AND 0x30)"
    and "push_bit 4 (a AND 0xf) + drop_bit 2 (b AND 0x3c) = push_bit 4 (a AND 0xf) OR drop_bit 2 (b AND 0x3c)"
    and "push_bit 6 (a AND 3) + (b AND 0x3f) = push_bit 6 (a AND 3) OR (b AND 0x3f)"
  by (rule disjoint_plus_or, rule byte_eqI_bits, auto simp: bit_simps bit_numeral_rec)+

lemma to_char_array_4_or:
  "to_char_array_4 a b c =
     [drop_bit 2 (a AND 0xfc), push_bit 4 (a AND 3) OR drop_bit 4 (b AND 0xf0),
      push_bit 2 (b AND 0xf) OR drop_bit 6 (c AND 0xc0), c AND 0x3f]"
  unfolding to_char_array_4_def field_sums ..

lemma byte_0_from_sextets:
  "to_char_array_4 a b c = [w, x, y, z] \<Longrightarrow> push_bit 2 w + drop_bit 4 (x AND 0x30) = a"
  unfolding to_char_array_4_or field_sums
  by (rule byte_eqI_bits) (auto simp: bit_simps bit_numeral_rec)

lemma byte_1_from_sextets:
  "to_char_array_4 a b c = [w, x, y, z] \<Longrightarrow> push_bit 4 (x AND 0xf) + drop_bit 2 (y AND 0x3c) = b"
  unfolding to_char_array_4_or field_sums
  by (rule byte_eqI_bits) (auto simp: bit_simps bit_numeral_rec)

lemma byte_2_from_sextets:
  assumes "to_char_array_4 a b c = [w, x, y, z]" shows "push_bit 6 (y AND 0x3) + z = c"
proof -
  from assms have z: "z = c AND 0x3f" by (simp add: to_char_array_4_or)
  show ?thesis using assms unfolding to_char_array_4_or z field_sums
    by (intro byte_eqI_bits) (auto simp: bit_simps bit_numeral_rec)
qed

lemma to_char_array_3_of_4:
  assumes "to_char_array_4 a b c = [w, x, y, z]" shows "to_char_array_3 w x y z = [a, b, c]"
  using assms by (simp only: to_char_array_3_def byte_0_from_sextets byte_1_from_sextets byte_2_from_sextets)

lemma sextet_mask: "w \<in> set (to_char_array_4 a b c) \<Longrightarrow> w AND 0x3f = w"
  unfolding to_char_array_4_or
  by (rule byte_eqI_bits) (auto simp: bit_simps bit_numeral_rec)

lemma sextet_less: "w \<in> set (to_char_array_4 a b c) \<Longrightarrow> unat w < 64"
proof -
  assume "w \<in> set (to_char_array_4 a b c)"
  from sextet_mask [OF this] have "w \<le> 0x3f" by (metis word_and_le1)
  then have "unat w \<le> 63" by (simp only: word_le_nat_alt unat_numeral) simp
  then show ?thesis by simp
qed

lemma to_char_array_3_take:
  assumes q: "to_char_array_4 a b c = [w, x, y, z]"
  shows "take 2 (to_char_array_3 w x y u) = [a, b]" "take 1 (to_char_array_3 w x v u) = [a]"
  unfolding to_char_array_3_def byte_0_from_sextets [OF q] byte_1_from_sextets [OF q] by simp_all

section \<open>A reference encoder\<close>

text \<open>Base 64 as RFC 4648 describes it, group of three bytes by group.\<close>

fun rfc_encode :: "string \<Rightarrow> byte list \<Rightarrow> string" where
  "rfc_encode chars (a # b # c # rest) =
     map (\<lambda>w. chars ! unat w) (to_char_array_4 a b c) @ rfc_encode chars rest"
| "rfc_encode chars [a, b] = map (\<lambda>w. chars ! unat w) (take 3 (to_char_array_4 a b 0)) @ ''=''"
| "rfc_encode chars [a] = map (\<lambda>w. chars ! unat w) (take 2 (to_char_array_4 a 0 0)) @ ''==''"
| "rfc_encode chars [] = []"

lemma encode_with_rfc: "encode_with chars bs = rfc_encode chars bs"
proof -
  define fin where "fin = (\<lambda>chars (arr, ret). let i = length arr in
      if i \<noteq> 0 then
        let arr = arr @ replicate (3 - i) 0;
            arr4 = to_char_array_4 (arr ! 0) (arr ! 1) (arr ! 2)
        in ret @ map (\<lambda>w. chars ! unat w) (take (i + 1) arr4) @ replicate (3 - i) (CHR ''='')
      else ret)"
  have "fin chars (encode_loop chars bs [] ret) = ret @ rfc_encode chars bs" for ret
    by (induction chars bs arbitrary: ret rule: rfc_encode.induct)
       (simp_all add: fin_def Let_def numeral_eq_Suc)
  from this [of "[]"] show ?thesis by (simp add: encode_with_def fin_def case_prod_unfold Let_def)
qed

section \<open>Round trip over any good alphabet\<close>

locale base64_alphabet =
  fixes chars :: string and valid :: "char \<Rightarrow> bool"
  assumes size_64: "length chars = 64"
    and distinct_chars: "distinct chars"
    and chars_valid: "c \<in> set chars \<Longrightarrow> valid c \<and> c \<noteq> CHR ''=''"
begin

lemma sextet_of_char:
  assumes "unat w < 64" shows "sextet_of chars (byte_of (chars ! unat w)) = w"
proof -
  let ?n = "unat w"
  have lt: "?n < length chars" using assms size_64 by simp
  have split: "chars = take ?n chars @ chars ! ?n # drop (Suc ?n) chars"
    using lt by (rule id_take_nth_drop)
  have "chars ! ?n \<notin> set (take ?n chars)"
    using distinct_chars lt by (metis split distinct_append disjoint_iff list.set_intros(1))
  then have "str_find ([] @ take ?n chars @ chars ! ?n # drop (Suc ?n) chars) [chars ! ?n] (length ([]::string))
      = Some (length ([]::string) + length (take ?n chars))"
    by (rule str_find_char)
  then have "str_find chars [chars ! ?n] 0 = Some ?n" using lt by (simp flip: split)
  then show ?thesis by (simp add: sextet_of_def)
qed

lemma char_ok: "w \<in> set (to_char_array_4 a b c) \<Longrightarrow> valid (chars ! unat w) \<and> chars ! unat w \<noteq> CHR ''=''"
  using sextet_less size_64 by (intro chars_valid) (metis nth_mem)

lemma decode_loop_group:
  assumes q: "to_char_array_4 a b c = [w, x, y, z]"
  shows "decode_loop chars valid (map (\<lambda>w. chars ! unat w) [w, x, y, z] @ s) [] ret =
    decode_loop chars valid s [] (ret @ map char_of_byte [a, b, c])"
proof -
  have ok: "valid (chars ! unat v) \<and> chars ! unat v \<noteq> CHR ''=''" "sextet_of chars (byte_of (chars ! unat v)) = v"
    if "v \<in> {w, x, y, z}" for v
    using that char_ok [of v a b c] sextet_less [of v a b c] q by (auto intro: sextet_of_char)
  have "to_char_array_3 w x y z = [a, b, c]" using q by (rule to_char_array_3_of_4)
  then show ?thesis by (simp add: ok Let_def)
qed

lemma decode_loop_rfc:
  "decode_with chars valid (rfc_encode chars bs) = string_of_bytes bs"
proof -
  define fin where "fin = (\<lambda>(arr, ret). let i = length arr in
      if i \<noteq> 0 then
        let v = map (sextet_of chars) (arr @ replicate (4 - i) 0);
            arr3 = to_char_array_3 (v ! 0) (v ! 1) (v ! 2) (v ! 3)
        in ret @ map char_of_byte (take (i - 1) arr3)
      else ret)"
  have "fin (decode_loop chars valid (rfc_encode chars' bs) [] ret) = ret @ string_of_bytes bs" if "chars' = chars" for ret chars'
    using that
  proof (induction chars' bs arbitrary: ret rule: rfc_encode.induct)
    case (1 chars' a b c rest)
    obtain w x y z where q: "to_char_array_4 a b c = [w, x, y, z]" by (simp add: to_char_array_4_def)
    show ?case using 1 by (simp only: rfc_encode.simps q decode_loop_group [OF q]) (simp add: string_of_bytes_def)
  next
    case (2 chars' a b)
    obtain w x y z where q: "to_char_array_4 a b 0 = [w, x, y, z]" by (simp add: to_char_array_4_def)
    have ok: "valid (chars ! unat v) \<and> chars ! unat v \<noteq> CHR ''=''" "sextet_of chars (byte_of (chars ! unat v)) = v"
      if "v \<in> {w, x, y}" for v
      using that char_ok [of v a b 0] sextet_less [of v a b 0] q by (auto intro: sextet_of_char)
    show ?case using 2 
      using to_char_array_3_take(1) [OF q]
      by (simp add: q fin_def Let_def ok string_of_bytes_def numeral_2_eq_2)
  next
    case (3 chars' a)
    obtain w x y z where q: "to_char_array_4 a 0 0 = [w, x, y, z]" by (simp add: to_char_array_4_def)
    have ok: "valid (chars ! unat v) \<and> chars ! unat v \<noteq> CHR ''=''" "sextet_of chars (byte_of (chars ! unat v)) = v"
      if "v \<in> {w, x}" for v
      using that char_ok [of v a 0 0] sextet_less [of v a 0 0] q by (auto intro: sextet_of_char)
    show ?case using 3
      using to_char_array_3_take(2) [OF q]
      by (simp add: q fin_def Let_def ok string_of_bytes_def)
  qed (simp add: fin_def string_of_bytes_def)
  from this [of chars "[]"] show ?thesis by (simp add: decode_with_def fin_def case_prod_unfold Let_def)
qed

lemma round_trip: "decode_with chars valid (encode_with chars bs) = string_of_bytes bs"
  by (simp add: encode_with_rfc decode_loop_rfc)

end

lemma base64_chars_valid: "list_all (\<lambda>c. is_base64 c \<and> c \<noteq> CHR ''='') base64_chars"
  by (simp add: base64_chars_def is_base64_def is_alnum_def is_digit_def)

lemma base64_chars_2_valid: "list_all (\<lambda>c. is_base64_2 c \<and> c \<noteq> CHR ''='') base64_chars_2"
  by (simp add: base64_chars_2_def is_base64_2_def is_alnum_def is_digit_def)

interpretation b64: base64_alphabet base64_chars is_base64
proof
  show "length base64_chars = 64" "distinct base64_chars" by (simp_all add: base64_chars_def)
qed (use base64_chars_valid in \<open>auto simp: list_all_iff\<close>)

interpretation b64_2: base64_alphabet base64_chars_2 is_base64_2
proof
  show "length base64_chars_2 = 64" "distinct base64_chars_2" by (simp_all add: base64_chars_2_def)
qed (use base64_chars_2_valid in \<open>auto simp: list_all_iff\<close>)

lemma base64_decode_encode [simp]: "base64_decode (base64_encode bs) = string_of_bytes bs"
  "base64_decode_2 (base64_encode_2 bs) = string_of_bytes bs"
  by (simp_all add: base64_encode_def base64_decode_def base64_encode_2_def base64_decode_2_def
      b64.round_trip b64_2.round_trip)

section \<open>Properties\<close>

text \<open>
  C31. Both base 64 codecs are lossless: decoding what the encoder printed gives the encoded
  bytes back, for every input length (so for every padding case).
\<close>

theorem base64_round_trip:
  "base64_decode (base64_encode bs) = string_of_bytes bs
   \<and> base64_decode_2 (base64_encode_2 bs) = string_of_bytes bs"
  by simp

lemma key_20: "char_of_byte (word_of_int 20) = CHR 0x14" "sint (byte_of (CHR 0x14)) = 20"
  by (code_simp, code_simp)

lemma xor_char_involution: "xor_char key (xor_char key c) = c"
proof -
  have "(word_of_int (sint (word_of_int (sint (byte_of c) XOR k) :: byte) XOR k) :: byte) = byte_of c" for k
    by (rule byte_eqI_bits) (auto simp: bit_simps)
  then show ?thesis by (simp add: xor_char_def)
qed

text \<open>
  \<open>Decrypt\<close> undoes \<open>Encrypt\<close> on every string, in both copies: the last byte
  of the plaintext frame carries the key, and the frame is never empty, so the \<^verbatim>\<open>at\<close> in
  \<open>Decrypt\<close> does not raise.
\<close>

theorem decrypt_encrypt:
  "Decrypt (Encrypt s) = Some s \<and> Decrypt_2 (Encrypt_2 s) = Some s"
  by (simp add: Decrypt_def Encrypt_def Decrypt_2_def Encrypt_2_def Let_def key_20
      xor_char_involution rev_map comp_def)


section \<open>The encoder of the mail client\<close>

text \<open>The characters that \<open>EncodingBase64\<close> shifts right while they are still signed.\<close>

fun shifted_chars :: "string \<Rightarrow> string" where
  "shifted_chars (x # y # z # rest) = x # y # shifted_chars rest"
| "shifted_chars s = s"

lemma AVal_negative: "a < 0 \<Longrightarrow> AVal a = None"
  by (simp add: AVal_def)

lemma AVal_sextet:
  assumes "0 \<le> a" "a < 256" "word_of_int a = (w :: byte)" "unat w < 64"
  shows "AVal a = Some (base64_chars ! unat w)"
proof -
  have "uint w = a" using assms(1-3) by (auto simp: uint_word_of_int)
  then have "unat w = nat a" by (metis unat_eq_nat_uint)
  then show ?thesis using assms b64.size_64 by (simp add: AVal_def nth_append)
qed

lemma sint_byte_bounds: "- 128 \<le> sint (w :: byte)" "sint (w :: byte) < 128"
  using sint_greater_eq [of w] sint_less [of w] by simp_all

lemma sint_byte_sign: "0 \<le> sint (x :: byte) \<longleftrightarrow> \<not> bit x 7"
  using bit_last_iff [of x] by (simp add: not_less [symmetric])

lemma sextet_nth_less: "i < 4 \<Longrightarrow> unat (to_char_array_4 a b c ! i) < 64"
  by (rule sextet_less [of _ a b c], rule nth_mem) (simp add: to_char_array_4_def)

lemma AVal_0:
  assumes "0 \<le> sint x"
  shows "AVal (drop_bit 2 (sint x)) = Some (base64_chars ! unat (to_char_array_4 x y z ! 0))"
proof (rule AVal_sextet)
  show "0 \<le> drop_bit 2 (sint x)" "drop_bit 2 (sint x) < 256"
    using assms sint_byte_bounds [of x] by (simp_all add: drop_bit_eq_div)
  show "word_of_int (drop_bit 2 (sint x)) = to_char_array_4 x y z ! 0"
    unfolding to_char_array_4_or
    by (rule byte_eqI_bits) (use assms in \<open>auto simp: bit_simps bit_numeral_rec sint_byte_sign\<close>)
qed (simp add: sextet_nth_less)

lemma AVal_1:
  assumes "0 \<le> sint y"
  shows "AVal (push_bit 4 (sint x AND 0x03) OR drop_bit 4 (sint y))
    = Some (base64_chars ! unat (to_char_array_4 x y z ! 1))"
proof (rule AVal_sextet)
  have a: "0 \<le> sint x AND 3" "sint x AND 3 < 4"
    using AND_upper2 [of 3 "sint x"] by simp_all
  then have p: "push_bit 4 (sint x AND 3) < 2 ^ 8" by (simp add: push_bit_eq_mult)
  have d: "0 \<le> drop_bit 4 (sint y)" "drop_bit 4 (sint y) < 2 ^ 8"
    using assms sint_byte_bounds [of y] by (simp_all add: drop_bit_eq_div)
  show "0 \<le> push_bit 4 (sint x AND 0x03) OR drop_bit 4 (sint y)" using a d by simp
  show "push_bit 4 (sint x AND 0x03) OR drop_bit 4 (sint y) < 256"
    using OR_upper [of "push_bit 4 (sint x AND 0x03)" 8 "drop_bit 4 (sint y)"] a p d by simp
  show "word_of_int (push_bit 4 (sint x AND 0x03) OR drop_bit 4 (sint y)) = to_char_array_4 x y z ! 1"
    unfolding to_char_array_4_or
    by (rule byte_eqI_bits) (use assms in \<open>auto simp: bit_simps bit_numeral_rec sint_byte_sign\<close>)
qed (simp add: sextet_nth_less)

lemma AVal_2:
  "AVal (push_bit 2 (sint x AND 0x0F) OR drop_bit 6 (sint z AND 0xC0))
    = Some (base64_chars ! unat (to_char_array_4 a x z ! 2))"
proof (rule AVal_sextet)
  have a: "0 \<le> sint x AND 15" "sint x AND 15 < 16"
    using AND_upper2 [of 15 "sint x"] by simp_all
  then have p: "push_bit 2 (sint x AND 15) < 2 ^ 8" by (simp add: push_bit_eq_mult)
  have "0 \<le> sint z AND 192" "sint z AND 192 \<le> 192" using AND_upper2 [of 192 "sint z"] by simp_all
  moreover have "0 \<le> drop_bit 6 m \<and> drop_bit 6 m < 2 ^ 8" if "0 \<le> m" "m \<le> 192" for m :: int
    using that unfolding drop_bit_eq_div by (simp, arith)
  ultimately have d: "0 \<le> drop_bit 6 (sint z AND 192)" "drop_bit 6 (sint z AND 192) < 2 ^ 8" by blast+
  show "0 \<le> push_bit 2 (sint x AND 0x0F) OR drop_bit 6 (sint z AND 0xC0)" using a d by simp
  show "push_bit 2 (sint x AND 0x0F) OR drop_bit 6 (sint z AND 0xC0) < 256"
    using OR_upper [of "push_bit 2 (sint x AND 0x0F)" 8 "drop_bit 6 (sint z AND 0xC0)"] a p d by simp
  show "word_of_int (push_bit 2 (sint x AND 0x0F) OR drop_bit 6 (sint z AND 0xC0)) = to_char_array_4 a x z ! 2"
    unfolding to_char_array_4_or
    by (rule byte_eqI_bits) (auto simp: bit_simps bit_numeral_rec)
qed (simp add: sextet_nth_less)

lemma AVal_3: "AVal (sint z AND 0x3F) = Some (base64_chars ! unat (to_char_array_4 a b z ! 3))"
proof (rule AVal_sextet)
  show "0 \<le> sint z AND 0x3F" "sint z AND 0x3F < 256" using AND_upper2 [of 63 "sint z"] by simp_all
  show "word_of_int (sint z AND 0x3F) = to_char_array_4 a b z ! 3"
    unfolding to_char_array_4_or
    by (rule byte_eqI_bits) (auto simp: bit_simps bit_numeral_rec)
qed (simp add: sextet_nth_less)

lemma AVal_neg_shift: "sint x < 0 \<Longrightarrow> AVal (drop_bit n (sint (x :: byte))) = None"
  "sint y < 0 \<Longrightarrow> AVal (a OR drop_bit n (sint (y :: byte))) = None"
  by (simp_all add: AVal_negative)


lemma EncodingBase64_eq:
  "EncodingBase64 s =
     (if \<forall>c \<in> set (shifted_chars s). 0 \<le> sint (byte_of c)
      then Some (rfc_encode base64_chars (bytes_of s)) else None)"
proof (induction s rule: EncodingBase64.induct)
  case (1 x y z rest)
  obtain p q r t where g: "to_char_array_4 (byte_of x) (byte_of y) (byte_of z) = [p, q, r, t]"
    by (simp add: to_char_array_4_def)
  note A = AVal_0 [of "byte_of x" "byte_of y" "byte_of z"] AVal_1 [of "byte_of y" "byte_of x" "byte_of z"]
    AVal_2 [of "byte_of y" "byte_of z" "byte_of x"] AVal_3 [of "byte_of z" "byte_of x" "byte_of y"]
  show ?case
  proof (cases "0 \<le> sint (byte_of x) \<and> 0 \<le> sint (byte_of y)")
    case True
    then show ?thesis using 1 A by (simp add: Let_def g bytes_of_def)
  next
    case False
    then show ?thesis by (auto simp: Let_def not_le AVal_neg_shift split: option.split)
  qed
next
  case (2 x y)
  obtain p q r t where g: "to_char_array_4 (byte_of x) (byte_of y) 0 = [p, q, r, t]"
    by (simp add: to_char_array_4_def)
  note A = AVal_0 [of "byte_of x" "byte_of y" 0] AVal_1 [of "byte_of y" "byte_of x" 0]
    AVal_2 [of "byte_of y" 0 "byte_of x"]
  show ?case
  proof (cases "0 \<le> sint (byte_of x) \<and> 0 \<le> sint (byte_of y)")
    case True
    then show ?thesis using A by (simp add: Let_def g bytes_of_def numeral_3_eq_3)
  next
    case False
    then show ?thesis by (auto simp: Let_def not_le AVal_neg_shift split: option.split)
  qed
next
  case (3 x)
  obtain p q r t where g: "to_char_array_4 (byte_of x) 0 0 = [p, q, r, t]"
    by (simp add: to_char_array_4_def)
  note A = AVal_0 [of "byte_of x" 0 0] AVal_1 [of 0 "byte_of x" 0]
  show ?case
  proof (cases "0 \<le> sint (byte_of x)")
    case True
    then show ?thesis using A by (simp add: Let_def g bytes_of_def numeral_2_eq_2)
  qed (simp add: Let_def not_le AVal_neg_shift)
qed (simp add: bytes_of_def)

text \<open>
  The third encoder, \<open>CTcpSocket::EncodingBase64\<close>, agrees with \<open>base64_encode\<close>
  when no character at a position that is 0 or 1 modulo 3 has its top bit set, and reads
  outside its table otherwise: there the signed character is shifted before it is masked, and
  the table index is negative.
\<close>

theorem encoding_base64_ascii_only:
  "EncodingBase64 s =
     (if \<forall>c \<in> set (shifted_chars s). 0 \<le> sint (byte_of c)
      then Some (base64_encode (bytes_of s)) else None)"
  by (simp add: EncodingBase64_eq base64_encode_def encode_with_rfc)

theorem encoding_base64_ascii_only_witness:
  "EncodingBase64 ''user1'' = Some (base64_encode (bytes_of ''user1''))
   \<and> EncodingBase64 [CHR 0xE4] = None"
  unfolding encoding_base64_ascii_only by code_simp

end
