(* ===== verification/UrlEncode.thy ===== *)
theory UrlEncode
  imports Prelude Base64
begin

text \<open>
  Percent encoding of query parameters:
  \<^verbatim>\<open>src/src/CommonTools/UrlEncode/UrlEncode.cpp\<close>. The input is a C string, so it ends at its
  first NUL; the result is built in a buffer of \<^verbatim>\<open>3 * strlen + 1\<close> (\<open>url_encode\<close>) or
  \<^verbatim>\<open>strlen + 1\<close> (\<open>url_decode\<close>) bytes and copied out up to its first NUL.
\<close>

section \<open>The code\<close>

definition to_lower :: "char \<Rightarrow> char" where
  "to_lower c = (if 65 \<le> (of_char c :: nat) \<and> (of_char c :: nat) \<le> 90 then char_of (of_char c + 32 :: nat) else c)"

definition from_hex :: "char \<Rightarrow> byte" where
  "from_hex ch = (if is_digit ch then byte_of ch - byte_of (CHR ''0'')
                  else byte_of (to_lower ch) - byte_of (CHR ''a'') + 10)"

definition to_hex :: "int \<Rightarrow> char" where
  "to_hex code = ''0123456789ABCDEF'' ! nat (code AND 15)"

fun url_encode_loop :: "string \<Rightarrow> string" where
  "url_encode_loop [] = []"
| "url_encode_loop (c # cs) =
     (if is_alnum c \<or> c = CHR ''-'' \<or> c = CHR ''_'' \<or> c = CHR ''.'' \<or> c = CHR ''~'' then [c]
      else if c = CHR '' '' then ''+''
      else [CHR ''%'', to_hex (drop_bit 4 (sint (byte_of c))), to_hex (sint (byte_of c) AND 15)])
     @ url_encode_loop cs"

definition url_encode :: "string \<Rightarrow> string" where
  "url_encode str = cstr (url_encode_loop (cstr str))"

fun url_decode_loop :: "string \<Rightarrow> string" where
  "url_decode_loop [] = []"
| "url_decode_loop (c # cs) =
     (if c = CHR ''%'' then
        (case cs of
           h # l # rest \<Rightarrow> char_of_byte (push_bit 4 (from_hex h) OR from_hex l) # url_decode_loop rest
         | _ \<Rightarrow> url_decode_loop cs)
      else if c = CHR ''+'' then CHR '' '' # url_decode_loop cs
      else c # url_decode_loop cs)"

definition url_decode :: "string \<Rightarrow> string" where
  "url_decode str = cstr (url_decode_loop (cstr str))"

section \<open>Lemmas\<close>

lemma nibble_range: "nat (code AND 15) < 16"
proof -
  have "code AND 15 \<le> 15" by (rule AND_upper2) simp
  then show ?thesis by linarith
qed

lemma to_hex_in: "to_hex code \<in> set ''0123456789ABCDEF''"
proof -
  have "length ''0123456789ABCDEF'' = 16" by simp
  then show ?thesis unfolding to_hex_def using nibble_range [of code] by (metis nth_mem)
qed

lemma from_hex_digits:
  "list_all (\<lambda>i. from_hex (''0123456789ABCDEF'' ! i) = word_of_nat i) [0..<16]"
  by code_simp

lemma from_to_hex: "from_hex (to_hex code) = word_of_int (code AND 15)"
proof -
  have "nat (code AND 15) \<in> set [0..<16]" using nibble_range [of code] by simp
  then have "from_hex (to_hex code) = word_of_nat (nat (code AND 15))"
    using from_hex_digits unfolding list_all_iff to_hex_def by blast
  also have "\<dots> = word_of_int (code AND 15)" by simp
  finally show ?thesis .
qed

lemma nibbles_join:
  "push_bit 4 (word_of_int (drop_bit 4 (sint b) AND 15)) OR word_of_int ((sint b AND 15) AND 15) = (b :: byte)"
  by (rule byte_eqI_bits) (auto simp: bit_simps bit_numeral_rec)

lemma hex_round_trip:
  "push_bit 4 (from_hex (to_hex (drop_bit 4 (sint (byte_of c))))) OR from_hex (to_hex (sint (byte_of c) AND 15))
    = byte_of c"
  unfolding from_to_hex nibbles_join ..

lemma to_hex_not_NUL: "to_hex code \<noteq> NUL"
  using to_hex_in [of code] by auto

lemma url_encode_loop_no_NUL: "NUL \<notin> set (url_encode_loop s)"
  by (induction s) (auto simp: to_hex_not_NUL is_alnum_def is_digit_def dest: sym [of NUL])

lemma is_alnum_not_special: "\<not> is_alnum (CHR ''%'')" "\<not> is_alnum (CHR ''+'')"
  by (simp_all add: is_alnum_def is_digit_def)

lemma url_decode_encode_loop: "url_decode_loop (url_encode_loop s) = s"
  by (induction s) (auto simp: hex_round_trip is_alnum_not_special)

section \<open>Properties\<close>

text \<open>
  C35. Decoding an encoded parameter gives the parameter back, up to its first NUL, for every
  string: letters and digits, spaces (sent as \<open>+\<close>), and every other byte (sent as three
  characters), the bytes above 0x7f included.
\<close>

theorem url_round_trip: "url_decode (url_encode s) = cstr s"
proof -
  have "cstr (url_encode_loop (cstr s)) = url_encode_loop (cstr s)"
    by (simp add: url_encode_loop_no_NUL)
  then show ?thesis
    by (simp add: url_decode_def url_encode_def url_decode_encode_loop cstr_no_NUL url_encode_loop_no_NUL)
qed

lemma url_decode_loop_length: "length (url_decode_loop s) \<le> length s"
proof (induction s rule: length_induct)
  case (1 s)
  then have IH: "length (url_decode_loop t) \<le> length t" if "length t < length s" for t
    using that by blast
  show ?case
  proof (cases s)
    case (Cons c cs)
    have "length (url_decode_loop cs) \<le> length cs" using IH Cons by simp
    moreover have "length (url_decode_loop rest) \<le> length rest" if "cs = h # l # rest" for h l rest
      using IH Cons that by simp
    ultimately show ?thesis
      unfolding Cons url_decode_loop.simps(2)
      by (auto split: list.split intro: le_SucI simp del: url_decode_loop.simps)
  qed simp
qed

text \<open>
  Neither function writes past the buffer it allocates: with the terminating NUL the
  encoder writes at most \<^verbatim>\<open>3 * strlen(str) + 1\<close> bytes and the decoder at most
  \<^verbatim>\<open>strlen(str) + 1\<close>.
\<close>

theorem url_buffers_suffice:
  "length (url_encode_loop (cstr s)) + 1 \<le> 3 * length (cstr s) + 1
   \<and> length (url_decode_loop (cstr s)) + 1 \<le> length (cstr s) + 1"
proof -
  have "length (url_encode_loop t) \<le> 3 * length t" for t by (induction t) auto
  then show ?thesis by (simp add: url_decode_loop_length)
qed

end
