(* ===== verification/Conf.thy ===== *)
theory Conf
  imports UrlEncode "HOL-Library.Monad_Syntax"
begin

text \<open>
  The reader of ini-style configuration files: \<^verbatim>\<open>src/src/CommonTools/Conf/Conf.cpp\<close>.

  An open file is its contents and the part not read yet (\<open>rewind\<close> restores the whole); the
  file system is the argument \<open>fs\<close> of \<open>ConfOpen\<close>. Line buffers are the C strings in
  them. \<open>ConfTrimRight\<close> walks backwards from the end of the text and has no lower bound, so
  on a line without any text before \<open>#\<close> it leaves the buffer: the value \<open>None\<close>, which
  every caller propagates.
\<close>

section \<open>The code\<close>

record FILE =
  contents :: string
  rest :: string

record CConf =
  m_pstFile :: "FILE option"

abbreviation SUCCESS :: int where "SUCCESS \<equiv> 0"
abbreviation ERR_OEN :: int where "ERR_OEN \<equiv> 1"
abbreviation ERR_SEC :: int where "ERR_SEC \<equiv> 2"
abbreviation ERR_KEY :: int where "ERR_KEY \<equiv> 3"
abbreviation ERR_VAL :: int where "ERR_VAL \<equiv> 4"
abbreviation ERR_OTH :: int where "ERR_OTH \<equiv> 6"
abbreviation PACKET :: nat where "PACKET \<equiv> 1024"

definition new_CConf :: CConf where
  "new_CConf = \<lparr>m_pstFile = None\<rparr>"

definition ConfClose :: "CConf \<Rightarrow> CConf" where
  "ConfClose c = (case m_pstFile c of None \<Rightarrow> c | Some _ \<Rightarrow> c\<lparr>m_pstFile := None\<rparr>)"

definition ConfOpen :: "(string \<Rightarrow> string option) \<Rightarrow> CConf \<Rightarrow> string \<Rightarrow> int \<times> CConf" where
  "ConfOpen fs c pszFile =
     (case fs pszFile of
        None \<Rightarrow> (ERR_OEN, c\<lparr>m_pstFile := None\<rparr>)
      | Some txt \<Rightarrow> (SUCCESS, c\<lparr>m_pstFile := Some \<lparr>contents = txt, rest = txt\<rparr>\<rparr>))"

text \<open>
  \<^verbatim>\<open>fgets(buf, iSize, f)\<close>: at most \<open>iSize - 1\<close> characters, up to and including a line feed;
  nothing at the end of the file.
\<close>

definition fgets :: "nat \<Rightarrow> string \<Rightarrow> (string \<times> string) option" where
  "fgets iSize s =
     (if s = [] then None
      else let n = min (iSize - 1) (case str_find s [LF] 0 of None \<Rightarrow> length s | Some k \<Rightarrow> k + 1)
           in Some (take n s, drop n s))"

definition frewind :: "CConf \<Rightarrow> CConf" where
  "frewind c = c\<lparr>m_pstFile := map_option (\<lambda>f. f\<lparr>rest := contents f\<rparr>) (m_pstFile c)\<rparr>"

definition ConfGetLine :: "CConf \<Rightarrow> nat \<Rightarrow> int \<times> string \<times> CConf" where
  "ConfGetLine c iSize =
     (case m_pstFile c of
        None \<Rightarrow> (ERR_OEN, [], c)
      | Some f \<Rightarrow>
          (case fgets iSize (rest f) of
             None \<Rightarrow> (ERR_OTH, [], c)
           | Some (l, r) \<Rightarrow> (SUCCESS, cstr l, c\<lparr>m_pstFile := Some (f\<lparr>rest := r\<rparr>)\<rparr>)))"

definition is_ctrl :: "char \<Rightarrow> bool" where
  "is_ctrl c \<longleftrightarrow> c = TAB \<or> c = CR \<or> c = LF \<or> c = CHR '' ''"

definition ConfTrimLeft :: "string \<Rightarrow> string" where
  "ConfTrimLeft pszLine = dropWhile is_ctrl pszLine"

definition ConfTrimRight :: "string \<Rightarrow> string option" where
  "ConfTrimRight pszLine =
     (if pszLine = [] then Some []
      else let t = takeWhile (\<lambda>c. c \<noteq> CHR ''#'') pszLine;
               u = rev (dropWhile is_ctrl (rev t))
           in if u = [] then None else Some u)"

definition ConfTrim :: "string \<Rightarrow> string option" where
  "ConfTrim pszLine = ConfTrimRight (ConfTrimLeft pszLine)"

definition ConfIsSection :: "string \<Rightarrow> bool" where
  "ConfIsSection pszLine \<longleftrightarrow> pszLine \<noteq> [] \<and> hd pszLine = CHR ''[''"

text \<open>\<open>ConfIsValid\<close> trims the line in place, so it returns the line too.\<close>

definition ConfIsValid :: "string \<Rightarrow> bool \<times> string" where
  "ConfIsValid pszLine =
     (if \<not> (pszLine \<noteq> [] \<and> hd pszLine = CHR ''#'')
      then let l = ConfTrimLeft pszLine in if length l = 0 then (False, l) else (True, l)
      else (False, pszLine))"

text \<open>The two overloads of \<open>ConfKeyValue\<close>.\<close>

definition ConfKeyValue :: "string \<Rightarrow> int + string" where
  "ConfKeyValue pszLine =
     (let i = length (takeWhile (\<lambda>c. c \<noteq> CHR ''='') pszLine) in
      if i \<noteq> length pszLine then Inr (ConfTrimLeft (drop (i + 1) pszLine)) else Inl ERR_VAL)"

definition ConfKeyValue2 :: "string \<Rightarrow> (int + string \<times> string) option" where
  "ConfKeyValue2 pszLine =
     (let i = length (takeWhile (\<lambda>c. c \<noteq> CHR ''='') pszLine) in
      if i \<noteq> length pszLine
      then (case ConfTrimRight (take i pszLine) of
              None \<Rightarrow> None
            | Some k \<Rightarrow> Some (Inr (k, ConfTrimLeft (drop (i + 1) pszLine))))
      else Some (Inl ERR_VAL))"

text \<open>\<^verbatim>\<open>strncasecmp(s, p, strlen(p)) == 0\<close>\<close>

definition strncase_prefix :: "string \<Rightarrow> string \<Rightarrow> bool" where
  "strncase_prefix s p \<longleftrightarrow> prefix (map to_lower p) (map to_lower s)"

definition unread :: "CConf \<Rightarrow> string" where
  "unread c = (case m_pstFile c of None \<Rightarrow> [] | Some f \<Rightarrow> rest f)"

lemma fgets_progress: "1 < iSize \<Longrightarrow> fgets iSize s = Some (l, r) \<Longrightarrow> length r < length s"
  by (auto simp: fgets_def Let_def split: if_splits option.splits)

lemma ConfGetLine_progress:
  "1 < iSize \<Longrightarrow> ConfGetLine c iSize = (SUCCESS, l, c') \<Longrightarrow> length (unread c') < length (unread c)"
  by (auto simp: ConfGetLine_def unread_def fgets_progress split: option.splits)

lemma ConfGetLine_decreases:
  "(SUCCESS, l, c') = ConfGetLine c 1023 \<Longrightarrow> length (unread c') < length (unread c)"
  "(SUCCESS, l, c') = ConfGetLine c 1024 \<Longrightarrow> length (unread c') < length (unread c)"
  by (rule ConfGetLine_progress [OF _ sym]; simp)+

function ConfGetSec_loop :: "CConf \<Rightarrow> string \<Rightarrow> int \<times> CConf" where
  "ConfGetSec_loop c pszSec =
     (case ConfGetLine c (PACKET - 1) of (rc, szLine, c') \<Rightarrow>
        if rc = SUCCESS then
          (case ConfIsValid szLine of (ok, szLine) \<Rightarrow>
             if \<not> ok then ConfGetSec_loop c' pszSec
             else if ConfIsSection szLine \<and> strncase_prefix (tl szLine) pszSec then (SUCCESS, c')
             else ConfGetSec_loop c' pszSec)
        else (ERR_SEC, c'))"
  by pat_completeness auto
termination
  by (relation "measure (\<lambda>(c, s). length (unread c))") (auto intro: ConfGetLine_decreases)

definition ConfGetSec :: "CConf \<Rightarrow> string \<Rightarrow> int \<times> CConf" where
  "ConfGetSec c pszSec =
     (case m_pstFile c of None \<Rightarrow> (ERR_OEN, c) | Some _ \<Rightarrow> ConfGetSec_loop (frewind c) pszSec)"

function ConfGetKey_loop :: "CConf \<Rightarrow> bool \<Rightarrow> int \<Rightarrow> string \<Rightarrow> string \<Rightarrow> int \<times> CConf" where
  "ConfGetKey_loop c bSec iReturn pszSec pszKey =
     (case ConfGetLine c (PACKET - 1) of (rc, szLine, c') \<Rightarrow>
        if rc = SUCCESS then
          (case ConfIsValid szLine of (ok, szLine) \<Rightarrow>
             if \<not> ok then ConfGetKey_loop c' bSec iReturn pszSec pszKey
             else if ConfIsSection szLine then
               if \<not> bSec then
                 if strncase_prefix (tl szLine) pszSec
                 then ConfGetKey_loop c' True ERR_KEY pszSec pszKey
                 else ConfGetKey_loop c' False iReturn pszSec pszKey
               else ConfGetKey_loop c' False iReturn pszSec pszKey
             else if bSec \<and> strncase_prefix szLine pszKey then (SUCCESS, c')
             else ConfGetKey_loop c' bSec iReturn pszSec pszKey)
        else (iReturn, c'))"
  by pat_completeness auto
termination
  by (relation "measure (\<lambda>(c, _). length (unread c))") (auto intro: ConfGetLine_decreases)

definition ConfGetKey :: "CConf \<Rightarrow> string \<Rightarrow> string \<Rightarrow> int \<times> CConf" where
  "ConfGetKey c pszSec pszKey =
     (case m_pstFile c of None \<Rightarrow> (ERR_OEN, c)
      | Some _ \<Rightarrow> ConfGetKey_loop (frewind c) False ERR_SEC pszSec pszKey)"

text \<open>The result value is \<open>Some\<close> exactly when \<^verbatim>\<open>pszVal\<close> is written.\<close>

function ConfGetVal_loop ::
  "CConf \<Rightarrow> bool \<Rightarrow> int \<Rightarrow> string \<Rightarrow> string \<Rightarrow> (int \<times> string option \<times> CConf) option" where
  "ConfGetVal_loop c bSec iReturn pszSec pszKey =
     (case ConfGetLine c (PACKET - 1) of (rc, szLine, c') \<Rightarrow>
        if rc = SUCCESS then
          (case ConfIsValid szLine of (ok, szLine) \<Rightarrow>
             if \<not> ok then ConfGetVal_loop c' bSec iReturn pszSec pszKey
             else if ConfIsSection szLine then
               if \<not> bSec then
                 if strncase_prefix (tl szLine) pszSec
                 then ConfGetVal_loop c' True ERR_KEY pszSec pszKey
                 else ConfGetVal_loop c' False iReturn pszSec pszKey
               else ConfGetVal_loop c' False iReturn pszSec pszKey
             else if bSec \<and> strncase_prefix szLine pszKey then
               (case ConfTrimRight szLine of
                  None \<Rightarrow> None
                | Some szLine \<Rightarrow>
                    (case ConfKeyValue szLine of
                       Inl e \<Rightarrow> Some (ERR_VAL, None, c')
                     | Inr v \<Rightarrow> Some (SUCCESS, Some v, c')))
             else ConfGetVal_loop c' bSec iReturn pszSec pszKey)
        else Some (iReturn, None, c'))"
  by pat_completeness auto
termination
  by (relation "measure (\<lambda>(c, _). length (unread c))") (auto intro: ConfGetLine_decreases)

definition ConfGetVal :: "CConf \<Rightarrow> string \<Rightarrow> string \<Rightarrow> (int \<times> string option \<times> CConf) option" where
  "ConfGetVal c pszSec pszKey =
     (case m_pstFile c of None \<Rightarrow> Some (ERR_OEN, None, c)
      | Some _ \<Rightarrow> ConfGetVal_loop (frewind c) False ERR_SEC pszSec pszKey)"

declare ConfGetSec_loop.simps [simp del] ConfGetKey_loop.simps [simp del]
  ConfGetVal_loop.simps [simp del]

text \<open>
  \<open>replace_all\<close> restarts at position 0 after every replacement and may run for ever;
  \<open>replace_all_distinct\<close> goes on behind the inserted text.
\<close>

partial_function (option) replace_all :: "string \<Rightarrow> string \<Rightarrow> string \<Rightarrow> string option" where
  "replace_all str old_value new_value =
     (case str_find str old_value 0 of
        Some pos \<Rightarrow> replace_all (str_replace str pos (length old_value) new_value) old_value new_value
      | None \<Rightarrow> Some str)"

partial_function (option) replace_all_distinct_from ::
  "nat \<Rightarrow> string \<Rightarrow> string \<Rightarrow> string \<Rightarrow> string option" where
  "replace_all_distinct_from pos str old_value new_value =
     (case str_find str old_value pos of
        Some pos \<Rightarrow> replace_all_distinct_from (pos + length new_value)
                      (str_replace str pos (length old_value) new_value) old_value new_value
      | None \<Rightarrow> Some str)"

declare replace_all.simps [code] replace_all_distinct_from.simps [code]

definition replace_all_distinct :: "string \<Rightarrow> string \<Rightarrow> string \<Rightarrow> string option" where
  "replace_all_distinct str old_value new_value = replace_all_distinct_from 0 str old_value new_value"

section \<open>The lines of a file\<close>

lemma fgets_progress': "\<not> n \<le> Suc 0 \<Longrightarrow> fgets n s = Some (l, r) \<Longrightarrow> length r < length s"
  by (rule fgets_progress) simp_all

lemma unread_update [simp]: "unread (c\<lparr>m_pstFile := Some f\<rparr>) = rest f"
  by (simp add: unread_def)

lemma packet_sizes: "1 < (1023::nat)" "1 < (1024::nat)"
  by simp_all

text \<open>
  What the loops see: the file cut into reads of at most \<open>iSize - 1\<close> characters, comments
  and blank lines dropped, the others trimmed on the left.
\<close>

function conf_lines :: "nat \<Rightarrow> string \<Rightarrow> string list" where
  "conf_lines iSize s =
     (if iSize \<le> 1 then [] else
      case fgets iSize s of
        None \<Rightarrow> []
      | Some (l, r) \<Rightarrow>
          (case ConfIsValid (cstr l) of (ok, l') \<Rightarrow>
             if ok then l' # conf_lines iSize r else conf_lines iSize r))"
  by pat_completeness auto
termination
  by (relation "measure (\<lambda>(n, s). length s)") (auto intro: fgets_progress')

declare conf_lines.simps [simp del]

lemma conf_lines_Nil [simp]: "conf_lines n [] = []"
  by (simp add: conf_lines.simps fgets_def)

lemma fgets_line:
  assumes "LF \<notin> set l" "length l + 1 < n"
  shows "fgets n (l @ LF # s) = Some (l @ [LF], s)"
proof -
  have "str_find (l @ LF # s) [LF] 0 = Some (length l)"
    using str_find_char [of LF l "[]" s] assms by simp
  moreover have "min (n - 1) (length l + 1) = length l + 1" using assms(2) by simp
  ultimately show ?thesis by (simp add: fgets_def Let_def)
qed

text \<open>A plain line of text comes back as it is, with its line feed.\<close>

lemma conf_lines_line:
  assumes "LF \<notin> set l" "NUL \<notin> set l" "length l + 1 < n" "l \<noteq> []" "hd l \<noteq> CHR ''#''" "\<not> is_ctrl (hd l)"
  shows "conf_lines n (l @ LF # s) = (l @ [LF]) # conf_lines n s"
proof -
  have "cstr (l @ [LF]) = l @ [LF]" using assms(2) by (intro cstr_id) auto
  moreover have "ConfIsValid (l @ [LF]) = (True, l @ [LF])"
    using assms(4-6) by (cases l) (auto simp: ConfIsValid_def ConfTrimLeft_def Let_def)
  ultimately show ?thesis using assms
    by (subst conf_lines.simps) (simp add: fgets_line)
qed

lemma conf_lines_skip:
  assumes "LF \<notin> set l" "NUL \<notin> set l" "length l + 1 < n" "l = [] \<or> hd l = CHR ''#''"
  shows "conf_lines n (l @ LF # s) = conf_lines n s"
proof -
  have "cstr (l @ [LF]) = l @ [LF]" using assms(2) by (intro cstr_id) auto
  moreover have "\<not> fst (ConfIsValid (l @ [LF]))"
    using assms(4) by (cases l) (auto simp: ConfIsValid_def ConfTrimLeft_def is_ctrl_def Let_def)
  ultimately show ?thesis using assms
    by (subst conf_lines.simps) (simp add: fgets_line case_prod_unfold)
qed

section \<open>The loops as functions of the lines\<close>

definition find_section :: "string \<Rightarrow> string list \<Rightarrow> int" where
  "find_section sec ls =
     (if list_ex (\<lambda>l. ConfIsSection l \<and> strncase_prefix (tl l) sec) ls then SUCCESS else ERR_SEC)"

fun find_key :: "bool \<Rightarrow> int \<Rightarrow> string \<Rightarrow> string \<Rightarrow> string list \<Rightarrow> int" where
  "find_key bSec rc sec key [] = rc"
| "find_key bSec rc sec key (l # ls) =
     (if ConfIsSection l then
        if \<not> bSec \<and> strncase_prefix (tl l) sec then find_key True ERR_KEY sec key ls
        else find_key False rc sec key ls
      else if bSec \<and> strncase_prefix l key then SUCCESS
      else find_key bSec rc sec key ls)"

fun find_val :: "bool \<Rightarrow> int \<Rightarrow> string \<Rightarrow> string \<Rightarrow> string list \<Rightarrow> (int \<times> string option) option" where
  "find_val bSec rc sec key [] = Some (rc, None)"
| "find_val bSec rc sec key (l # ls) =
     (if ConfIsSection l then
        if \<not> bSec \<and> strncase_prefix (tl l) sec then find_val True ERR_KEY sec key ls
        else find_val False rc sec key ls
      else if bSec \<and> strncase_prefix l key then
        (case ConfTrimRight l of None \<Rightarrow> None
         | Some l \<Rightarrow> (case ConfKeyValue l of Inl e \<Rightarrow> Some (ERR_VAL, None) | Inr v \<Rightarrow> Some (SUCCESS, Some v)))
      else find_val bSec rc sec key ls)"

text \<open>One read, seen from the buffer and from the lines.\<close>

lemma read_step:
  assumes "1 < n"
  obtains (eof) rc l c' where "ConfGetLine c n = (rc, l, c')" "rc \<noteq> SUCCESS" "conf_lines n (unread c) = []"
  | (line) l c' ok l' where "ConfGetLine c n = (SUCCESS, l, c')" "ConfIsValid l = (ok, l')"
      "conf_lines n (unread c) = (if ok then l' # conf_lines n (unread c') else conf_lines n (unread c'))"
proof (cases "m_pstFile c")
  case None
  then show ?thesis by (intro eof) (auto simp: ConfGetLine_def unread_def)
next
  case F: (Some f)
  show ?thesis
  proof (cases "fgets n (rest f)")
    case None
    with F have "ConfGetLine c n = (ERR_OTH, [], c)" "conf_lines n (unread c) = []"
      by (auto simp: ConfGetLine_def unread_def conf_lines.simps)
    then show ?thesis using eof by simp
  next
    case (Some p)
    obtain l r where p: "p = (l, r)" by force
    obtain ok l' where v: "ConfIsValid (cstr l) = (ok, l')" by force
    let ?c' = "c\<lparr>m_pstFile := Some (f\<lparr>rest := r\<rparr>)\<rparr>"
    have g: "ConfGetLine c n = (SUCCESS, cstr l, ?c')" using Some F p by (simp add: ConfGetLine_def)
    have u: "conf_lines n (unread c) = (if ok then l' # conf_lines n r else conf_lines n r)"
      using assms Some F p v by (subst conf_lines.simps) (simp add: unread_def)
    have "unread ?c' = r" by simp
    then show ?thesis using u by (intro line [OF g v]) (simp only:)
  qed
qed

lemmas read_line = read_step [OF packet_sizes(1), case_names eof line]

lemma ConfGetSec_loop_lines:
  "fst (ConfGetSec_loop c sec) = find_section sec (conf_lines (PACKET - 1) (unread c))"
proof (induction c sec rule: ConfGetSec_loop.induct)
  case (1 c sec)
  show ?case
  proof (cases rule: read_line [of c])
    case (eof rc l c')
    then show ?thesis by (subst ConfGetSec_loop.simps) (simp add: find_section_def)
  next
    case (line l c' ok l')
    then show ?thesis using 1 by (subst ConfGetSec_loop.simps) (auto simp: find_section_def)
  qed
qed

lemma ConfGetKey_loop_lines:
  "fst (ConfGetKey_loop c bSec rc sec key) = find_key bSec rc sec key (conf_lines (PACKET - 1) (unread c))"
proof (induction c bSec rc sec key rule: ConfGetKey_loop.induct)
  case (1 c bSec rc sec key)
  show ?case
  proof (cases rule: read_line [of c])
    case (eof rc l c')
    then show ?thesis by (subst ConfGetKey_loop.simps) simp
  next
    case (line l c' ok l')
    then show ?thesis using 1 by (subst ConfGetKey_loop.simps) auto
  qed
qed

lemma ConfGetVal_loop_lines:
  "map_option (\<lambda>(rc, v, c). (rc, v)) (ConfGetVal_loop c bSec rc sec key)
    = find_val bSec rc sec key (conf_lines (PACKET - 1) (unread c))"
proof (induction c bSec rc sec key rule: ConfGetVal_loop.induct)
  case (1 c bSec rc sec key)
  show ?case
  proof (cases rule: read_line [of c])
    case (eof rc l c')
    then show ?thesis by (subst ConfGetVal_loop.simps) simp
  next
    case (line l c' ok l')
    then show ?thesis using 1 by (subst ConfGetVal_loop.simps) (auto split: option.split sum.split)
  qed
qed

section \<open>Documents\<close>

text \<open>A configuration as a value, and the text an editor would write for it.\<close>

type_synonym ini = "(string \<times> (string \<times> string) list) list"

definition sec_line :: "string \<Rightarrow> string" where "sec_line n = ''['' @ n @ '']''"

definition kv_line :: "string \<times> string \<Rightarrow> string" where "kv_line kv = fst kv @ ''='' @ snd kv"

definition ini_lines :: "ini \<Rightarrow> string list" where
  "ini_lines d = concat (map (\<lambda>(n, kvs). sec_line n # map kv_line kvs) d)"

definition render_ini :: "ini \<Rightarrow> string" where
  "render_ini d = concat (map (\<lambda>l. l @ [LF]) (ini_lines d))"

definition plain :: "string \<Rightarrow> bool" where
  "plain s \<longleftrightarrow> LF \<notin> set s \<and> NUL \<notin> set s \<and> CHR ''#'' \<notin> set s"

definition kv_ok :: "string \<times> string \<Rightarrow> bool" where
  "kv_ok kv \<longleftrightarrow> (case kv of (k, v) \<Rightarrow>
     plain k \<and> plain v \<and> k \<noteq> [] \<and> CHR ''='' \<notin> set k \<and> hd k \<noteq> CHR ''['' \<and> \<not> is_ctrl (hd k)
     \<and> (v \<noteq> [] \<longrightarrow> \<not> is_ctrl (hd v) \<and> \<not> is_ctrl (last v)) \<and> length k + length v + 2 < PACKET - 1)"

definition sec_ok :: "string \<times> (string \<times> string) list \<Rightarrow> bool" where
  "sec_ok s \<longleftrightarrow> plain (fst s) \<and> length (fst s) + 3 < PACKET - 1 \<and> list_all kv_ok (snd s)"

definition ini_ok :: "ini \<Rightarrow> bool" where "ini_ok d \<longleftrightarrow> list_all sec_ok d"

definition line_ok :: "string \<Rightarrow> bool" where
  "line_ok l \<longleftrightarrow> plain l \<and> length l + 1 < PACKET - 1 \<and> l \<noteq> [] \<and> \<not> is_ctrl (hd l)"

lemma sec_line_ok: "sec_ok (n, kvs) \<Longrightarrow> line_ok (sec_line n)"
  by (simp add: sec_ok_def sec_line_def line_ok_def plain_def is_ctrl_def)

lemma kv_line_ok: "kv_ok kv \<Longrightarrow> line_ok (kv_line kv)"
  by (auto simp: kv_ok_def kv_line_def line_ok_def plain_def)

lemma ini_lines_ok: "ini_ok d \<Longrightarrow> list_all line_ok (ini_lines d)"
  unfolding ini_ok_def ini_lines_def
  by (induction d) (auto simp: sec_line_ok list_all_iff sec_ok_def intro: kv_line_ok)

lemma conf_lines_concat:
  "list_all line_ok ls \<Longrightarrow> conf_lines (PACKET - 1) (concat (map (\<lambda>l. l @ [LF]) ls)) = map (\<lambda>l. l @ [LF]) ls"
proof (induction ls)
  case (Cons l ls)
  then have "line_ok l" and IH: "conf_lines 1023 (concat (map (\<lambda>l. l @ [LF]) ls)) = map (\<lambda>l. l @ [LF]) ls"
    by simp_all
  then have "hd l \<noteq> CHR ''#''" by (cases l) (auto simp: line_ok_def plain_def)
  then show ?case using \<open>line_ok l\<close> conf_lines_line [of l 1023 "concat (map (\<lambda>l. l @ [LF]) ls)"]
    by (simp add: line_ok_def plain_def IH)
qed simp

lemma prefix_before: "c \<notin> set p \<Longrightarrow> prefix p (a @ c # b) \<longleftrightarrow> prefix p a"
proof (induction p arbitrary: a)
  case (Cons x p)
  then show ?case by (cases a) auto
qed simp

lemma to_lower_eq_iff:
  "CHR '']'' = to_lower x \<longleftrightarrow> x = CHR '']''" "CHR ''='' = to_lower x \<longleftrightarrow> x = CHR ''=''"
  by (auto simp: to_lower_def dest: arg_cong [of _ _ "of_char :: char \<Rightarrow> nat"])

lemma strncase_prefix_before:
  assumes "\<And>x. c = to_lower x \<longleftrightarrow> x = c" "c \<notin> set p"
  shows "strncase_prefix (a @ c # b) p \<longleftrightarrow> strncase_prefix a p"
proof -
  have "to_lower c = c" using assms(1) by metis
  moreover have "c \<notin> set (map to_lower p)" using assms by (metis (no_types) imageE list.set_map)
  ultimately show ?thesis
    using prefix_before [of c "map to_lower p" "map to_lower a" "map to_lower b"]
    by (simp add: strncase_prefix_def)
qed

lemmas before_bracket = strncase_prefix_before [OF to_lower_eq_iff(1)]
lemmas before_equals = strncase_prefix_before [OF to_lower_eq_iff(2)]

lemma kv_value:
  assumes "kv_ok (k, v)"
  shows "ConfTrimRight (kv_line (k, v) @ [LF]) = Some (kv_line (k, v))"
    and "ConfKeyValue (kv_line (k, v)) = Inr v"
proof -
  have "takeWhile (\<lambda>c. c \<noteq> CHR ''#'') (kv_line (k, v) @ [LF]) = kv_line (k, v) @ [LF]"
    using assms by (subst takeWhile_eq_all_conv) (auto simp: kv_ok_def kv_line_def plain_def)
  moreover have "dropWhile is_ctrl (rev (kv_line (k, v))) = rev (kv_line (k, v))"
    using assms by (cases v rule: rev_cases) (auto simp: kv_ok_def kv_line_def is_ctrl_def)
  ultimately show "ConfTrimRight (kv_line (k, v) @ [LF]) = Some (kv_line (k, v))"
    by (simp add: ConfTrimRight_def Let_def is_ctrl_def kv_line_def)
  have "takeWhile (\<lambda>c. c \<noteq> CHR ''='') (kv_line (k, v)) = k"
    using assms by (simp add: kv_ok_def kv_line_def takeWhile_append)
  moreover have "dropWhile is_ctrl v = v" using assms by (cases v) (auto simp: kv_ok_def)
  ultimately show "ConfKeyValue (kv_line (k, v)) = Inr v"
    by (simp add: ConfKeyValue_def kv_line_def ConfTrimLeft_def)
qed

lemma sec_kv_lines:
  "ConfIsSection (sec_line n @ t)" "tl (sec_line n @ t) = n @ CHR '']'' # t"
  "kv_ok kv \<Longrightarrow> \<not> ConfIsSection (kv_line kv @ t)"
  by (auto simp: ConfIsSection_def sec_line_def kv_line_def kv_ok_def)

lemma find_val_kvs:
  assumes "list_all kv_ok kvs" "CHR ''='' \<notin> set key"
    "find (\<lambda>(k, _). strncase_prefix k key) kvs = Some (k, v)"
  shows "find_val True rc sec key (map (\<lambda>l. l @ [LF]) (map kv_line kvs) @ ls) = Some (SUCCESS, Some v)"
  using assms
proof (induction kvs)
  case (Cons kv kvs)
  obtain k' v' where kv: "kv = (k', v')" by force
  have m: "strncase_prefix (kv_line kv @ [LF]) key = strncase_prefix k' key"
    using Cons.prems(2) before_equals [of key k' "v' @ [LF]"] by (simp add: kv kv_line_def)
  show ?case using Cons m kv_value [of k' v'] by (auto simp: kv sec_kv_lines split: if_splits)
qed simp

lemma find_val_skip_kvs:
  "list_all kv_ok kvs \<Longrightarrow>
   find_val False rc sec key (map (\<lambda>l. l @ [LF]) (map kv_line kvs) @ ls) = find_val False rc sec key ls"
  by (induction kvs) (auto simp: sec_kv_lines)

lemma find_val_ini:
  assumes "ini_ok d" "CHR '']'' \<notin> set sec" "CHR ''='' \<notin> set key"
    "find (\<lambda>(n, _). strncase_prefix n sec) d = Some (n, kvs)"
    "find (\<lambda>(k, _). strncase_prefix k key) kvs = Some (k, v)"
  shows "find_val False rc sec key (map (\<lambda>l. l @ [LF]) (ini_lines d)) = Some (SUCCESS, Some v)"
  using assms
proof (induction d)
  case (Cons s d)
  obtain n' kvs' where s: "s = (n', kvs')" by force
  have ok: "list_all kv_ok kvs'" using Cons.prems by (simp add: s ini_ok_def sec_ok_def)
  have m: "strncase_prefix (n' @ CHR '']'' # t) sec = strncase_prefix n' sec" for t
    by (rule before_bracket) (rule Cons.prems(2))
  have "find_val False rc sec key (map (\<lambda>l. l @ [LF]) (ini_lines (s # d)))
      = find_val False rc sec key ((sec_line n' @ [LF]) #
          map (\<lambda>l. l @ [LF]) (map kv_line kvs') @ map (\<lambda>l. l @ [LF]) (ini_lines d))"
    by (simp add: s ini_lines_def)
  also have "\<dots> = Some (SUCCESS, Some v)"
    using Cons ok m by (auto simp: s sec_kv_lines find_val_kvs find_val_skip_kvs ini_ok_def split: if_splits
      simp del: map_map)
  finally show ?case .
qed simp

lemma ConfGetVal_lines:
  assumes "fs path = Some txt"
  shows "map_option (\<lambda>(rc, v, c). (rc, v)) (ConfGetVal (snd (ConfOpen fs new_CConf path)) sec key)
    = find_val False ERR_SEC sec key (conf_lines (PACKET - 1) txt)"
  using assms ConfGetVal_loop_lines [of "\<lparr>m_pstFile = Some \<lparr>contents = txt, rest = txt\<rparr>\<rparr>" False ERR_SEC sec key]
  by (simp add: ConfGetVal_def ConfOpen_def new_CConf_def frewind_def unread_def)

section \<open>Properties of the reader\<close>

text \<open>
  C30. What is written in a configuration file is what \<open>ConfGetVal\<close> returns: on the text of a
  well-formed document the loop over 1022-byte reads, trims, comment and section tests finds the
  value of the first matching key of the first matching section. Matching is by case-insensitive
  prefix, as the code does it.
\<close>

theorem conf_get_val_round_trip:
  assumes "ini_ok d" "fs path = Some (render_ini d)"
    and "CHR '']'' \<notin> set sec" "CHR ''='' \<notin> set key"
    and "find (\<lambda>(n, _). strncase_prefix n sec) d = Some (n, kvs)"
    and "find (\<lambda>(k, _). strncase_prefix k key) kvs = Some (k, v)"
  shows "map_option (\<lambda>(rc, v, c). (rc, v)) (ConfGetVal (snd (ConfOpen fs new_CConf path)) sec key)
    = Some (SUCCESS, Some v)"
proof -
  have "conf_lines (PACKET - 1) (render_ini d) = map (\<lambda>l. l @ [LF]) (ini_lines d)"
    unfolding render_ini_def by (intro conf_lines_concat ini_lines_ok assms)
  then show ?thesis using ConfGetVal_lines [of fs path _ sec key] assms by (simp add: find_val_ini)
qed

theorem conf_get_val_round_trip_witness:
  "map_option (\<lambda>(rc, v, c). (rc, v))
     (ConfGetVal (snd (ConfOpen (\<lambda>p. Some (render_ini [(''LOG'', [(''FILE'', ''a.log'')]),
        (''LOCALSERVER'', [(''IP'', ''0.0.0.0''), (''PORT'', ''8080'')])])) new_CConf ''x''))
      ''localserver'' ''Port'') = Some (SUCCESS, Some ''8080'')"
  by (rule conf_get_val_round_trip [where d = "[(''LOG'', [(''FILE'', ''a.log'')]),
          (''LOCALSERVER'', [(''IP'', ''0.0.0.0''), (''PORT'', ''8080'')])]" and n = "''LOCALSERVER''" and k = "''PORT''"
        and kvs = "[(''IP'', ''0.0.0.0''), (''PORT'', ''8080'')]"])
     (code_simp, simp, code_simp+)

lemma ConfGet_lines:
  assumes "m_pstFile c = Some f"
  shows "fst (ConfGetSec c sec) = find_section sec (conf_lines (PACKET - 1) (contents f))"
    and "fst (ConfGetKey c sec key) = find_key False ERR_SEC sec key (conf_lines (PACKET - 1) (contents f))"
    and "map_option (\<lambda>(rc, v, c). (rc, v)) (ConfGetVal c sec key)
      = find_val False ERR_SEC sec key (conf_lines (PACKET - 1) (contents f))"
  using assms by (simp_all add: ConfGetSec_def ConfGetKey_def ConfGetVal_def ConfGetSec_loop_lines
      ConfGetKey_loop_lines ConfGetVal_loop_lines unread_def frewind_def)

lemma find_key_section_seen: "rc \<noteq> ERR_SEC \<Longrightarrow> find_key b rc sec key ls \<noteq> ERR_SEC"
  by (induction ls arbitrary: b rc) auto

lemma find_val_section_seen: "rc \<noteq> ERR_SEC \<Longrightarrow> find_val b rc sec key ls \<noteq> Some (ERR_SEC, None)"
  by (induction ls arbitrary: b rc) (auto split: option.split sum.split)

lemma find_ERR_SEC:
  "find_key False ERR_SEC sec key ls = ERR_SEC \<longleftrightarrow> find_section sec ls = ERR_SEC"
  "find_val False ERR_SEC sec key ls = Some (ERR_SEC, None) \<longleftrightarrow> find_section sec ls = ERR_SEC"
  by (induction ls) (auto simp: find_section_def find_key_section_seen find_val_section_seen)

text \<open>
  The three queries agree on a missing section: \<open>ConfGetSec\<close>, \<open>ConfGetKey\<close> and
  \<open>ConfGetVal\<close> report \<open>ERR_SEC\<close> together, on every file and for every key.
\<close>

theorem conf_missing_section_agree:
  "(fst (ConfGetKey c sec key) = ERR_SEC \<longleftrightarrow> fst (ConfGetSec c sec) = ERR_SEC)
   \<and> (map_option (\<lambda>(rc, v, c). (rc, v)) (ConfGetVal c sec key) = Some (ERR_SEC, None)
        \<longleftrightarrow> fst (ConfGetSec c sec) = ERR_SEC)"
proof (cases "m_pstFile c")
  case None
  then show ?thesis by (simp add: ConfGetSec_def ConfGetKey_def ConfGetVal_def)
next
  case (Some f)
  then show ?thesis by (simp only: ConfGet_lines find_ERR_SEC)
qed

section \<open>Replacing substrings\<close>

lemma str_replace_Some:
  assumes "str_find s p i = Some n"
  shows "s = take n s @ p @ drop (n + length p) s"
proof -
  from str_find_Some [OF assms] have "take (length p) (drop n s) = p" by simp
  then have "drop n s = p @ drop (n + length p) s"
    by (metis append_take_drop_id drop_drop add.commute)
  then show ?thesis by (metis append_take_drop_id)
qed

lemma sublist_str_replace: "sublist p r \<Longrightarrow> sublist p (str_replace s n k r)"
  unfolding str_replace_def by (metis sublist_appendI sublist_order.order_trans)

lemma replace_all_returns_no_old:
  "replace_all str old new = Some y \<Longrightarrow> sublist old new \<longrightarrow> \<not> sublist old str"
proof (induction str old new y rule: replace_all.raw_induct [rotated, consumes 1, case_names 1])
  case (1 f str old new y)
  show ?case
  proof (cases "str_find str old 0")
    case None
    then show ?thesis by (simp add: str_find_None_iff)
  next
    case (Some n)
    with 1(2) have "f (str_replace str n (length old) new) old new = Some y" by simp
    from 1(1) [OF this] show ?thesis using sublist_str_replace by blast
  qed
qed

lemma length_str_replace:
  assumes "str_find s p 0 = Some n" shows "length (str_replace s n (length p) r) + length p = length s + length r"
  using str_find_Some(2) [OF assms] by (simp add: str_replace_def)

lemma replace_all_shrinks:
  "length new < length old \<Longrightarrow> \<exists>y. replace_all str old new = Some y \<and> \<not> sublist old y"
proof (induction "length str" arbitrary: str rule: less_induct)
  case less
  show ?case
  proof (cases "str_find str old 0")
    case None
    then show ?thesis using str_find_None_iff [of str old] by (subst replace_all.simps) simp
  next
    case (Some n)
    have "length (str_replace str n (length old) new) < length str"
      using length_str_replace [OF Some, of new] less.prems by simp
    from less.hyps [OF this less.prems] show ?thesis using Some by (subst replace_all.simps) simp
  qed
qed

text \<open>
  When \<open>replace_all\<close> ends. A replacement that contains the pattern never removes it, so
  the call returns only if there is nothing to replace; a shorter replacement always ends and
  leaves no occurrence of the pattern.
\<close>

theorem replace_all_termination:
  "(sublist old new \<longrightarrow> ((\<exists>y. replace_all str old new = Some y) \<longleftrightarrow> \<not> sublist old str))
   \<and> (length new < length old \<longrightarrow> (\<exists>y. replace_all str old new = Some y \<and> \<not> sublist old y))"
proof -
  have "replace_all str old new = Some str" if "\<not> sublist old str"
    using that by (subst replace_all.simps) (simp add: str_find_None_iff [THEN iffD2])
  then show ?thesis using replace_all_returns_no_old replace_all_shrinks by blast
qed

theorem replace_all_termination_witness:
  "(\<nexists>y. replace_all ''a b'' '' '' ''  '' = Some y) \<and> (\<exists>y. replace_all ''a  b'' ''  '' '' '' = Some y)"
proof -
  have "sublist '' '' ''  ''" "sublist '' '' ''a b''" by (simp_all add: sublist_Cons_right)
  then show ?thesis
    using replace_all_termination [where old = "'' ''" and new = "''  ''" and str = "''a b''"]
      replace_all_termination [where old = "''  ''" and new = "'' ''" and str = "''a  b''"] by auto
qed

text \<open>Replacement of the non-overlapping occurrences from left to right.\<close>

function subst_all :: "string \<Rightarrow> string \<Rightarrow> string \<Rightarrow> string" where
  "subst_all old new s =
     (if old = [] \<or> s = [] then s
      else if prefix old s then new @ subst_all old new (drop (length old) s)
      else hd s # subst_all old new (tl s))"
  by pat_completeness auto
termination
  by (relation "measure (\<lambda>(_, _, s). length s)") auto

declare subst_all.simps [simp del]

lemma subst_all_skip:
  "find_from i old s = None \<Longrightarrow> subst_all old new s = s"
  "old \<noteq> [] \<Longrightarrow> find_from i old s = Some n \<Longrightarrow>
     subst_all old new s = take (n - i) s @ new @ subst_all old new (drop (n - i + length old) s)"
proof (induction s arbitrary: i)
  case (Cons c s)
  {
    case 1
    then show ?case using Cons.IH(1) [of "Suc i"] by (subst subst_all.simps) (auto split: if_splits)
  next
    case 2
    show ?case
    proof (cases "prefix old (c # s)")
      case True
      then show ?thesis using 2 by (subst subst_all.simps) auto
    next
      case False
      then have f: "find_from (Suc i) old s = Some n" using 2 by simp
      then have "Suc i \<le> n" using find_from_Some by blast
      then have "n - i = Suc (n - Suc i)" by simp
      then show ?thesis using False 2 Cons.IH(2) [OF _ f] by (subst subst_all.simps) auto
    qed
  }
qed (auto simp: subst_all.simps)

lemma replace_from_correct:
  "old \<noteq> [] \<Longrightarrow> replace_all_distinct_from (length u) (u @ s) old new = Some (u @ subst_all old new s)"
proof (induction "length s" arbitrary: u s rule: less_induct)
  case less
  have f: "str_find (u @ s) old (length u) = map_option (\<lambda>n. n + length u) (find_from 0 old s)"
    using find_from_shift [of 0 "length u" old s] by (simp add: str_find_def)
  show ?case
  proof (cases "find_from 0 old s")
    case None
    then show ?thesis by (subst replace_all_distinct_from.simps) (simp add: f subst_all_skip(1))
  next
    case (Some n)
    let ?s' = "drop (n + length old) s"
    have "length old + n \<le> length s" using find_from_Some [OF Some] by (auto dest: prefix_length_le)
    then have len: "length ?s' < length s" using less.prems by (cases old) auto
    have "str_replace (u @ s) (n + length u) (length old) new = (u @ take n s @ new) @ ?s'"
      by (simp add: str_replace_def)
    moreover have "n + length u + length new = length (u @ take n s @ new)"
      using \<open>length old + n \<le> length s\<close> by simp
    ultimately show ?thesis
      using less.hyps [OF len less.prems, of "u @ take n s @ new"] subst_all_skip(2) [OF less.prems Some, of new]
      by (subst replace_all_distinct_from.simps) (simp add: f Some ac_simps)
  qed
qed

text \<open>
  \<open>replace_all_distinct\<close> ends for every non-empty pattern and replaces exactly the
  non-overlapping occurrences from left to right, even when the replacement contains the
  pattern.
\<close>

theorem replace_all_distinct_correct:
  "old \<noteq> [] \<Longrightarrow> replace_all_distinct str old new = Some (subst_all old new str)"
  using replace_from_correct [of old "[]" str new] by (simp add: replace_all_distinct_def)

theorem replace_all_distinct_correct_witness:
  "replace_all_distinct ''a b c'' '' '' ''  '' = Some ''a  b  c''"
  by (subst replace_all_distinct_correct) (simp, code_simp)

end
