(* ===== verification/StdMap.thy ===== *)
theory StdMap
  imports Prelude "HOL-Library.List_Lexorder" "HOL-Library.Char_ord"
begin

text \<open>
  \<^verbatim>\<open>std::map\<close> as the program uses it: an association list in ascending key order, so that
  an iterator visits the entries as the C++ container does. \<open>map_set\<close> is \<^verbatim>\<open>m[k] = v\<close>,
  \<open>map_at\<close> is \<^verbatim>\<open>m[k]\<close> with the value-initialised element \<open>d\<close> inserted for a new
  key, \<open>map_of\<close> is \<^verbatim>\<open>find\<close>.

  The locale \<open>keyed_store\<close> is what the clients of a map rely on; it is interpreted on these
  functions below.
\<close>

type_synonym ('k, 'v) smap = "('k \<times> 'v) list"

fun map_set :: "'k::linorder \<Rightarrow> 'v \<Rightarrow> ('k, 'v) smap \<Rightarrow> ('k, 'v) smap" where
  "map_set k v [] = [(k, v)]"
| "map_set k v ((k', v') # m) =
     (if k < k' then (k, v) # (k', v') # m
      else if k = k' then (k, v) # m
      else (k', v') # map_set k v m)"

definition map_at :: "'v \<Rightarrow> 'k \<Rightarrow> ('k, 'v) smap \<Rightarrow> 'v" where
  "map_at d k m = (case map_of m k of None \<Rightarrow> d | Some v \<Rightarrow> v)"

definition map_wf :: "('k::linorder, 'v) smap \<Rightarrow> bool" where
  "map_wf m \<longleftrightarrow> sorted_wrt (<) (map fst m)"

lemma map_of_map_set [simp]: "map_of (map_set k v m) = (map_of m)(k \<mapsto> v)"
  by (induction m) (auto simp: fun_upd_twist)

lemma fst_set_map_set [simp]: "fst ` set (map_set k v m) = insert k (fst ` set m)"
  by (induction k v m rule: map_set.induct) (simp_all add: insert_commute)

lemma map_wf_Nil [simp]: "map_wf []"
  by (simp add: map_wf_def)

lemma map_wf_set: "map_wf m \<Longrightarrow> map_wf (map_set k v m)"
  unfolding map_wf_def
proof (induction m)
  case (Cons e m)
  obtain k' v' where e: "e = (k', v')" by force
  have "\<forall>x \<in> fst ` set m. k' < x" using Cons.prems by (auto simp: e)
  then show ?case using Cons by (auto simp: e dest: less_trans)
qed simp

lemma map_wf_distinct: "map_wf m \<Longrightarrow> distinct (map fst m)"
  unfolding map_wf_def by (simp add: strict_sorted_iff)

lemma map_wf_of: "map_wf m \<Longrightarrow> (k, v) \<in> set m \<longleftrightarrow> map_of m k = Some v"
  by (auto simp: map_wf_distinct dest: map_of_SomeD)

locale keyed_store =
  fixes get :: "'m \<Rightarrow> 'k \<Rightarrow> 'v option" and put :: "'k \<Rightarrow> 'v \<Rightarrow> 'm \<Rightarrow> 'm"
    and ok :: "'m \<Rightarrow> bool"
  assumes get_put: "ok m \<Longrightarrow> get (put k v m) j = (if j = k then Some v else get m j)"
    and ok_put: "ok m \<Longrightarrow> ok (put k v m)"
begin

text \<open>Adding up the entries of a list of (key, amount) pairs, key by key.\<close>

definition total :: "('v \<Rightarrow> 'v \<Rightarrow> 'v) \<Rightarrow> 'v \<Rightarrow> ('k \<times> 'v) list \<Rightarrow> 'k \<Rightarrow> 'v \<Rightarrow> 'v" where
  "total add zero es k v = fold (\<lambda>(_, x) a. add a x) (filter (\<lambda>(j, _). j = k) es) v"

definition add_all :: "('v \<Rightarrow> 'v \<Rightarrow> 'v) \<Rightarrow> 'v \<Rightarrow> ('k \<times> 'v) list \<Rightarrow> 'm \<Rightarrow> 'm" where
  "add_all add zero es m =
     fold (\<lambda>(k, x) m. put k (add (case get m k of None \<Rightarrow> zero | Some v \<Rightarrow> v) x) m) es m"

lemma ok_add_all: "ok m \<Longrightarrow> ok (add_all add zero es m)"
  unfolding add_all_def by (induction es arbitrary: m) (auto simp: ok_put)

lemma get_add_all:
  "ok m \<Longrightarrow> get (add_all add zero es m) k =
     (if k \<in> fst ` set es then Some (total add zero es k (case get m k of None \<Rightarrow> zero | Some v \<Rightarrow> v))
      else get m k)"
proof (induction es arbitrary: m)
  case Nil
  then show ?case by (simp add: add_all_def)
next
  case (Cons e es)
  obtain j x where e: "e = (j, x)" by force
  let ?m = "put j (add (case get m j of None \<Rightarrow> zero | Some v \<Rightarrow> v) x) m"
  have ok: "ok ?m" using Cons.prems by (rule ok_put)
  have "add_all add zero (e # es) m = add_all add zero es ?m" by (simp add: add_all_def e)
  then have *: "get (add_all add zero (e # es) m) k =
      (if k \<in> fst ` set es then Some (total add zero es k (case get ?m k of None \<Rightarrow> zero | Some v \<Rightarrow> v))
       else get ?m k)"
    using Cons.IH [OF ok] by simp
  have t: "total add zero es k v = v" if "k \<notin> fst ` set es" for v
  proof -
    have "filter (\<lambda>(i, _). i = k) es = []" using that by (force simp: filter_empty_conv)
    then show ?thesis by (simp add: total_def)
  qed
  show ?case unfolding * using get_put [OF Cons.prems] t by (auto simp: e total_def)
qed

end

interpretation smap: keyed_store map_of map_set "map_wf :: ('k::linorder, 'v) smap \<Rightarrow> bool"
  by unfold_locales (auto simp: map_wf_set)

end
