(* ===== verification/UserQueryStruct.thy ===== *)
theory UserQueryStruct
  imports StdMap
begin

text \<open>
  The structures that the threads share: \<^verbatim>\<open>src/src/UserQueryStruct/UserQueryStruct.h\<close>.
  A \<^verbatim>\<open>char[128]\<close> member is the C string in it; \<^verbatim>\<open>u_int\<close> is a 32-bit word,
  \<^verbatim>\<open>in_port_t\<close> a 16-bit word, \<^verbatim>\<open>ULONGLONG\<close> a 64-bit word.
\<close>

section \<open>The structures\<close>

datatype LOG_RANK = DEBUG | INFO | WARNING | ERROR | REQUIRED

record LOGPRMS_S =
  m_Rank :: LOG_RANK
  m_strPath :: string
  m_strFileName :: string
  m_uiMaxLine :: u32

record HIVELOCALLOG_S =
  strAccessKeyId :: string
  iSource :: int
  strTelNo :: string
  strTimeStamp :: string
  strLiveTime :: string
  strSinature :: string
  strAuthId :: string
  strCustName :: string
  strAction :: string
  strMd5Key :: string
  strReqParams :: string
  strValue :: string
  strQuerytime :: string
  strDayId :: string
  strHourId :: string

text \<open>The assignment that \<^verbatim>\<open>M_HIVELOG\<close> writes out; it forgets no member.\<close>

definition hive_assign :: "HIVELOCALLOG_S \<Rightarrow> HIVELOCALLOG_S \<Rightarrow> HIVELOCALLOG_S" where
  "hive_assign h hive =
     h\<lparr>strAccessKeyId := strAccessKeyId hive, iSource := iSource hive, strTelNo := strTelNo hive,
       strTimeStamp := strTimeStamp hive, strLiveTime := strLiveTime hive, strSinature := strSinature hive,
       strAuthId := strAuthId hive, strCustName := strCustName hive, strAction := strAction hive,
       strMd5Key := strMd5Key hive, strReqParams := strReqParams hive, strValue := strValue hive,
       strQuerytime := strQuerytime hive, strDayId := strDayId hive, strHourId := strHourId hive\<rparr>"

lemma hive_assign_copies: "hive_assign h hive = hive"
  by (cases h; cases hive) (simp add: hive_assign_def)

record STATISTICSPRM_S =
  m_strStatisticsPath :: string
  m_strStatisticsFileName :: string
  m_uiStatisticsTime :: u32

record USERINFO_S =
  m_ullReqNum :: u64
  m_ullTotalReqNum :: u64
  m_ullResNum :: u64
  m_ullResTagNum :: u64
  m_ullTotalResNum :: u64
  m_ullEmptyResNum :: u64
  m_ullResErrorNum :: u64
  m_ullTotalEmptyResNum :: u64

record IPPORT_S =
  m_pchIp :: string
  m_uiPort :: "16 word"
  m_idx :: int
  m_count :: int

record SERVERINFO_S =
  m_stRedisServer :: IPPORT_S
  m_stLocalServer :: IPPORT_S
  m_stTokenServer :: IPPORT_S
  m_stGoodsServer :: IPPORT_S

record MYSQL_SERVERINFO_S =
  m_stMysqlLinkInfo :: IPPORT_S
  pchUserName :: string
  pchPassWord :: string
  pchDbName :: string

record QUERYAPIINFO_S =
  mParam :: string
  mCarrierOperator :: string
  mProvince :: int
  mQueryLimits :: int

record TASKSTATUS_S =
  m_iSockFd :: int
  m_bStatus :: bool

section \<open>The report of one interval\<close>

type_synonym UserQueryReport = "(string, USERINFO_S) smap"

definition zero_USERINFO :: USERINFO_S where
  "zero_USERINFO = \<lparr>m_ullReqNum = 0, m_ullTotalReqNum = 0, m_ullResNum = 0, m_ullResTagNum = 0,
     m_ullTotalResNum = 0, m_ullEmptyResNum = 0, m_ullResErrorNum = 0, m_ullTotalEmptyResNum = 0\<rparr>"

text \<open>The five counters that \<^verbatim>\<open>operator +=\<close> adds; it leaves the three totals alone.\<close>

definition add_USERINFO :: "USERINFO_S \<Rightarrow> USERINFO_S \<Rightarrow> USERINFO_S" where
  "add_USERINFO a b =
     a\<lparr>m_ullReqNum := m_ullReqNum a + m_ullReqNum b,
       m_ullResNum := m_ullResNum a + m_ullResNum b,
       m_ullEmptyResNum := m_ullEmptyResNum a + m_ullEmptyResNum b,
       m_ullResTagNum := m_ullResTagNum a + m_ullResTagNum b,
       m_ullResErrorNum := m_ullResErrorNum a + m_ullResErrorNum b\<rparr>"

fun report_add_entries :: "(string \<times> USERINFO_S) list \<Rightarrow> UserQueryReport \<Rightarrow> UserQueryReport" where
  "report_add_entries [] m = m"
| "report_add_entries ((k, i) # es) m =
     report_add_entries es (map_set k (add_USERINFO (map_at zero_USERINFO k m) i) m)"

definition report_add :: "UserQueryReport \<Rightarrow> UserQueryReport \<Rightarrow> UserQueryReport" where
  "report_add self stReport = report_add_entries stReport self"

definition report_assign :: "UserQueryReport \<Rightarrow> int \<Rightarrow> UserQueryReport" where
  "report_assign self iValue = []"

section \<open>Domain suffixes\<close>

definition BdxSuffix :: "string list" where
  "BdxSuffix = [''asia'', ''biz'', ''cc'', ''cn'', ''co'', ''com'', ''edu'', ''gov'', ''hk'', ''info'',
     ''me'', ''mobi'', ''name'', ''net'', ''org'', ''so'', ''tel'', ''tv'', ''www'']"

definition suffix_neq :: "string \<Rightarrow> bool" where
  "suffix_neq strDomain = list_all (\<lambda>s. strDomain \<noteq> s) BdxSuffix"

section \<open>Adding reports\<close>

lemma report_add_entries_smap:
  "report_add_entries es m = smap.add_all add_USERINFO zero_USERINFO es m"
  by (induction es arbitrary: m) (auto simp: smap.add_all_def map_at_def)

lemma report_add_wf: "map_wf m \<Longrightarrow> map_wf (report_add m r)"
  by (simp add: report_add_def report_add_entries_smap smap.ok_add_all)

lemma filter_key:
  "distinct (map fst m) \<Longrightarrow>
   filter (\<lambda>(j, _). j = k) m = (case map_of m k of None \<Rightarrow> [] | Some v \<Rightarrow> [(k, v)])"
proof (induction m)
  case (Cons e m)
  obtain a b where e: "e = (a, b)" by force
  have "map_of m a = None" using Cons.prems by (simp add: e map_of_eq_None_iff)
  then show ?case using Cons by (auto simp: e)
qed simp

lemma report_add_get:
  assumes "map_wf m" "map_wf r"
  shows "map_of (report_add m r) k =
    (case map_of r k of None \<Rightarrow> map_of m k
     | Some i \<Rightarrow> Some (add_USERINFO (map_at zero_USERINFO k m) i))"
proof -
  have "k \<in> fst ` set r \<longleftrightarrow> map_of r k \<noteq> None" by (metis map_of_eq_None_iff)
  then show ?thesis
    using assms by (auto simp: report_add_def report_add_entries_smap smap.get_add_all smap.total_def
        filter_key map_wf_distinct map_at_def split: option.split)
qed

end
