(* ===== verification/UserQueryMain.thy ===== *)
theory UserQueryMain
  imports Conf UserQueryStruct
begin

text \<open>
  Start-up configuration: \<^verbatim>\<open>src/src/UserQueryMain/UserQueryMain.cpp\<close>. The members and
  globals that the configuration sets are the record \<open>MainState\<close>. Every section reader is the
  same loop over lines with its own key table, so the loop is \<open>section_loop\<close> with the key table as an
  argument, and a reader returns the next section line (\<open>[]\<close> at the end of the file).

  Results are \<open>None\<close> when a trim leaves the line buffer (see \<open>Conf\<close>) or a
  token pointer of an earlier line is used. The dispatch loop of \<open>BdxInitConfig\<close> may run for
  ever; it is a partial function whose value is then \<open>None\<close>, with the two meanings kept
  apart: \<open>None\<close> never returns, \<open>Some None\<close> leaves a buffer.
\<close>

section \<open>State\<close>

record MainState =
  m_stLogPrms :: LOGPRMS_S
  m_stServerInfo :: SERVERINFO_S
  m_stMysqlInfo :: MYSQL_SERVERINFO_S
  m_uiThreadsNum :: u32
  m_stStatisticsPrm :: STATISTICSPRM_S
  m_stHiveLogPrm :: STATISTICSPRM_S
  strSslKeyPath :: string
  strSslKeyPassWord :: string
  iAPIQpsLimit :: int
  m_stMonitorApi :: IPPORT_S
  m_stEmailServer :: IPPORT_S
  m_strUserName :: string
  m_strPassWord :: string
  m_strMailFrom :: string
  m_strRcptTo :: string
  m_strSubject :: string
  m_strErrorMsg :: string
  g_vecUrlAPIS :: "(string, QUERYAPIINFO_S) smap"

abbreviation BYTES_128 :: nat where "BYTES_128 \<equiv> 128"

section \<open>The section readers\<close>

function section_loop ::
  "(string \<Rightarrow> string \<Rightarrow> 'a \<Rightarrow> 'a option) \<Rightarrow> CConf \<Rightarrow> 'a \<Rightarrow> (string \<times> CConf \<times> 'a) option" where
  "section_loop keys c m =
     (case ConfGetLine c PACKET of (rc, szLine, c') \<Rightarrow>
        if rc = SUCCESS then
          (case ConfIsValid szLine of (ok, szLine) \<Rightarrow>
             if \<not> ok then section_loop keys c' m
             else
               (case ConfTrim szLine of
                  None \<Rightarrow> None
                | Some szLine \<Rightarrow>
                    if ConfIsSection szLine then Some (szLine, c', m)
                    else
                      (case ConfKeyValue2 szLine of
                         None \<Rightarrow> None
                       | Some (Inl e) \<Rightarrow> section_loop keys c' m
                       | Some (Inr (pszKey, pszVal)) \<Rightarrow>
                           (case keys pszKey pszVal m of
                              None \<Rightarrow> None
                            | Some m' \<Rightarrow> section_loop keys c' m'))))
        else Some ([], c', m))"
  by pat_completeness auto
termination
  by (relation "measure (\<lambda>(_, c, _). length (unread c))") (auto intro: ConfGetLine_decreases)

declare section_loop.simps [simp del]

definition LogKeys :: "string \<Rightarrow> string \<Rightarrow> MainState \<Rightarrow> MainState option" where
  "LogKeys k v m = Some (m\<lparr>m_stLogPrms :=
     (let p = m_stLogPrms m in
      if k = ''RANK'' then
        p\<lparr>m_Rank := if v = ''DEBUG'' then DEBUG else if v = ''INFO'' then INFO
           else if v = ''WARNING'' then WARNING else if v = ''ERROR'' then ERROR
           else if v = ''REQUIRED'' then REQUIRED else DEBUG\<rparr>
      else if k = ''FILE'' then p\<lparr>m_strFileName := v\<rparr>
      else if k = ''PATH'' then p\<lparr>m_strPath := v\<rparr>
      else if k = ''MAXLINE'' then p\<lparr>m_uiMaxLine := word_of_int (atoi v)\<rparr>
      else p)\<rparr>)"

definition BdxGetLogPrms :: "CConf \<Rightarrow> MainState \<Rightarrow> (string \<times> CConf \<times> MainState) option" where
  "BdxGetLogPrms c m = section_loop LogKeys c m"

definition HiveLogKeys :: "string \<Rightarrow> string \<Rightarrow> MainState \<Rightarrow> MainState option" where
  "HiveLogKeys k v m = Some (m\<lparr>m_stHiveLogPrm :=
     (let p = m_stHiveLogPrm m in
      if k = ''PATH'' then p\<lparr>m_strStatisticsPath := v\<rparr>
      else if k = ''FILE'' then p\<lparr>m_strStatisticsFileName := v\<rparr>
      else if k = ''TIME'' then p\<lparr>m_uiStatisticsTime := word_of_int (atoi v)\<rparr>
      else p)\<rparr>)"

definition BdxGetHiveLogPrms :: "CConf \<Rightarrow> MainState \<Rightarrow> (string \<times> CConf \<times> MainState) option" where
  "BdxGetHiveLogPrms c m = section_loop HiveLogKeys c m"

definition StatisticKeys :: "string \<Rightarrow> string \<Rightarrow> MainState \<Rightarrow> MainState option" where
  "StatisticKeys k v m = Some
     (let p = m_stStatisticsPrm m in
      if k = ''PATH'' then m\<lparr>m_stStatisticsPrm := p\<lparr>m_strStatisticsPath := v\<rparr>\<rparr>
      else if k = ''FILE'' then m\<lparr>m_stStatisticsPrm := p\<lparr>m_strStatisticsFileName := v\<rparr>\<rparr>
      else if k = ''TIME'' then m\<lparr>m_stStatisticsPrm := p\<lparr>m_uiStatisticsTime := word_of_int (atoi v)\<rparr>\<rparr>
      else if k = ''SSLPATH'' then m\<lparr>strSslKeyPath := v\<rparr>
      else if k = ''SSLPASSWORD'' then m\<lparr>strSslKeyPassWord := v\<rparr>
      else if k = ''APIQPSLIMIT'' then m\<lparr>iAPIQpsLimit := atoi v\<rparr>
      else m)"

definition BdxGetStatisticPrms :: "CConf \<Rightarrow> MainState \<Rightarrow> (string \<times> CConf \<times> MainState) option" where
  "BdxGetStatisticPrms c m = section_loop StatisticKeys c m"

text \<open>\<open>stIpPort\<close> is passed by reference: the loop runs on it and the caller stores it.\<close>

definition ServerKeys :: "string \<Rightarrow> string \<Rightarrow> IPPORT_S \<Rightarrow> IPPORT_S option" where
  "ServerKeys k v p = Some
     (if k = ''IP'' then p\<lparr>m_pchIp := take BYTES_128 v\<rparr>
      else if k = ''PORT'' then p\<lparr>m_uiPort := word_of_int (atoi v)\<rparr>
      else if k = ''IDX'' then p\<lparr>m_idx := atoi v\<rparr>
      else if k = ''NUMS'' then p\<lparr>m_count := atoi v\<rparr>
      else p)"

definition BdxGetServerPrms :: "CConf \<Rightarrow> IPPORT_S \<Rightarrow> (string \<times> CConf \<times> IPPORT_S) option" where
  "BdxGetServerPrms c stIpPort = section_loop ServerKeys c stIpPort"

definition MonitorApiKeys :: "string \<Rightarrow> string \<Rightarrow> MainState \<Rightarrow> MainState option" where
  "MonitorApiKeys k v m = Some
     (if k = ''APIIP'' then m\<lparr>m_stMonitorApi := (m_stMonitorApi m)\<lparr>m_pchIp := take BYTES_128 v\<rparr>\<rparr>
      else if k = ''APIPORT'' then m\<lparr>m_stMonitorApi := (m_stMonitorApi m)\<lparr>m_uiPort := word_of_int (atoi v)\<rparr>\<rparr>
      else if k = ''EMAILIP'' then m\<lparr>m_stEmailServer := (m_stEmailServer m)\<lparr>m_pchIp := take BYTES_128 v\<rparr>\<rparr>
      else if k = ''EMAILPORT'' then m\<lparr>m_stEmailServer := (m_stEmailServer m)\<lparr>m_uiPort := word_of_int (atoi v)\<rparr>\<rparr>
      else if k = ''USERNAME'' then m\<lparr>m_strUserName := v\<rparr>
      else if k = ''PASSWORD'' then m\<lparr>m_strPassWord := v\<rparr>
      else if k = ''FROM'' then m\<lparr>m_strMailFrom := v\<rparr>
      else if k = ''TO'' then m\<lparr>m_strRcptTo := v\<rparr>
      else if k = ''SUBJECT'' then m\<lparr>m_strSubject := v\<rparr>
      else if k = ''ERRORMSG'' then m\<lparr>m_strErrorMsg := v\<rparr>
      else m)"

definition BdxGetMonitorApiPrms :: "CConf \<Rightarrow> MainState \<Rightarrow> (string \<times> CConf \<times> MainState) option" where
  "BdxGetMonitorApiPrms c m = section_loop MonitorApiKeys c m"

definition MysqlServerKeys :: "string \<Rightarrow> string \<Rightarrow> MYSQL_SERVERINFO_S \<Rightarrow> MYSQL_SERVERINFO_S option" where
  "MysqlServerKeys k v s = Some
     (if k = ''IP'' then s\<lparr>m_stMysqlLinkInfo := (m_stMysqlLinkInfo s)\<lparr>m_pchIp := take BYTES_128 v\<rparr>\<rparr>
      else if k = ''PORT'' then s\<lparr>m_stMysqlLinkInfo := (m_stMysqlLinkInfo s)\<lparr>m_uiPort := word_of_int (atoi v)\<rparr>\<rparr>
      else if k = ''USERNAME'' then s\<lparr>pchUserName := take BYTES_128 v\<rparr>
      else if k = ''PASSWORD'' then s\<lparr>pchPassWord := take BYTES_128 v\<rparr>
      else if k = ''DBNAME'' then s\<lparr>pchDbName := take BYTES_128 v\<rparr>
      else s)"

definition BdxGetMysqlServerPrms ::
  "CConf \<Rightarrow> MYSQL_SERVERINFO_S \<Rightarrow> (string \<times> CConf \<times> MYSQL_SERVERINFO_S) option" where
  "BdxGetMysqlServerPrms c stMysqlServer = section_loop MysqlServerKeys c stMysqlServer"

text \<open>
  The inner loop over the tokens of one line: \<open>prev\<close> are the tokens of this line already in
  \<^verbatim>\<open>temp\<close>, latest first. Every fifth token (by the running index) completes an entry.
\<close>

fun store_apis ::
  "nat \<Rightarrow> string list \<Rightarrow> string list \<Rightarrow> (string, QUERYAPIINFO_S) smap \<Rightarrow> (string, QUERYAPIINFO_S) smap option" where
  "store_apis index prev [] apis = Some apis"
| "store_apis index prev (t # ts) apis =
     (if index mod 5 = 4 then
        (case prev of
           oper # prov # param # name # _ \<Rightarrow>
             store_apis (index + 1) (t # prev) ts
               (map_set name \<lparr>mParam = take BYTES_128 param, mCarrierOperator = take 8 oper,
                  mProvince = atol prov, mQueryLimits = atol t\<rparr> apis)
         | _ \<Rightarrow> None)
      else store_apis (index + 1) (t # prev) ts apis)"

definition UrlKeys ::
  "string \<Rightarrow> string \<Rightarrow> nat \<times> (string, QUERYAPIINFO_S) smap \<Rightarrow> (nat \<times> (string, QUERYAPIINFO_S) smap) option" where
  "UrlKeys k v s =
     (if k = ''URLS'' then
        let (index, apis) = s;
            tokens = concat (map (strtok (CHR '','')) (strtok (CHR '';'') v))
        in if index + length tokens < PACKET
           then map_option (\<lambda>apis. (index + length tokens, apis)) (store_apis index [] tokens apis)
           else None
      else Some s)"

definition BdxGetServerUrlAPI :: "CConf \<Rightarrow> MainState \<Rightarrow> (string \<times> CConf \<times> MainState) option" where
  "BdxGetServerUrlAPI c m =
     map_option (\<lambda>(s, c, (_, apis)). (s, c, m\<lparr>g_vecUrlAPIS := apis\<rparr>))
       (section_loop UrlKeys c (0, g_vecUrlAPIS m))"

definition ThreadsKeys :: "string \<Rightarrow> string \<Rightarrow> MainState \<Rightarrow> MainState option" where
  "ThreadsKeys k v m = Some (if k = ''NUM'' then m\<lparr>m_uiThreadsNum := word_of_int (atoi v)\<rparr> else m)"

definition BdxGetThreadsPrm :: "CConf \<Rightarrow> MainState \<Rightarrow> (string \<times> CConf \<times> MainState) option" where
  "BdxGetThreadsPrm c m = section_loop ThreadsKeys c m"

section \<open>BdxInitConfig\<close>

text \<open>The \<^verbatim>\<open>do\<close> loop up to the first section line.\<close>

function first_section :: "CConf \<Rightarrow> (string option \<times> CConf) option" where
  "first_section c =
     (case ConfGetLine c PACKET of (rc, szLine, c') \<Rightarrow>
        if rc = SUCCESS then
          (case ConfTrim szLine of
             None \<Rightarrow> None
           | Some szLine \<Rightarrow>
               (case ConfIsValid szLine of (ok, szLine) \<Rightarrow>
                  if \<not> ok \<or> \<not> ConfIsSection szLine then first_section c' else Some (Some szLine, c')))
        else Some (None, c'))"
  by pat_completeness auto
termination
  by (relation "measure (\<lambda>c. length (unread c))") (auto intro: ConfGetLine_decreases)

declare first_section.simps [simp del]

text \<open>One turn of the dispatch loop; a section that no test matches leaves everything as it is.\<close>

definition read_section ::
  "string \<Rightarrow> CConf \<Rightarrow> MainState \<Rightarrow> (string \<times> CConf \<times> MainState) option" where
  "read_section szSection c m =
     (if szSection = ''[LOG]'' then BdxGetLogPrms c m
      else if szSection = ''[TRAFFICHIVELOG]'' then BdxGetHiveLogPrms c m
      else if szSection = ''[TRAFFICSTATISTICS]'' then BdxGetStatisticPrms c m
      else if szSection = ''[REDISSERVER]'' then
        map_option (\<lambda>(s, c, p). (s, c, m\<lparr>m_stServerInfo := (m_stServerInfo m)\<lparr>m_stRedisServer := p\<rparr>\<rparr>))
          (BdxGetServerPrms c (m_stRedisServer (m_stServerInfo m)))
      else if szSection = ''[LOCALSERVER]'' then
        map_option (\<lambda>(s, c, p). (s, c, m\<lparr>m_stServerInfo := (m_stServerInfo m)\<lparr>m_stLocalServer := p\<rparr>\<rparr>))
          (BdxGetServerPrms c (m_stLocalServer (m_stServerInfo m)))
      else if szSection = ''[WORKTHREADS]'' then BdxGetThreadsPrm c m
      else if szSection = ''[QUERYAPIS]'' then BdxGetServerUrlAPI c m
      else Some (szSection, c, m))"

partial_function (option) sections_loop ::
  "string \<Rightarrow> CConf \<Rightarrow> MainState \<Rightarrow> (CConf \<times> MainState) option option" where
  "sections_loop szSection c m =
     (if szSection \<noteq> [] then
        (case read_section szSection c m of
           None \<Rightarrow> Some None
         | Some (szSection, c, m) \<Rightarrow> sections_loop szSection c m)
      else Some (Some (c, m)))"

declare sections_loop.simps [code]

definition BdxInitConfig ::
  "(string \<Rightarrow> string option) \<Rightarrow> MainState \<Rightarrow> string \<Rightarrow> (bool \<times> MainState) option option" where
  "BdxInitConfig fs m pszCfgFile =
     (case ConfOpen fs new_CConf pszCfgFile of (rc, c) \<Rightarrow>
        if rc \<noteq> SUCCESS then Some (Some (False, m))
        else
          (case first_section c of
             None \<Rightarrow> Some None
           | Some (None, c) \<Rightarrow> Some (Some (False, m))
           | Some (Some szSection, c) \<Rightarrow>
               map_option (map_option (\<lambda>(c, m). (True, m))) (sections_loop szSection c m)))"

section \<open>The shipped configuration\<close>

text \<open>\<^verbatim>\<open>src/config/userQuery.conf\<close>, line by line.\<close>

definition userQuery_conf :: string where
  "userQuery_conf = concat (map (\<lambda>l. l @ [LF])
    [''[LOG]'', ''RANK =ERROR'', ''FILE = userQuery.log'', ''PATH =./logs '', ''MAXLINE = 100000'', '''',
     ''[TRAFFICSTATISTICS]'', ''PATH = ./logs '', ''FILE = status'', ''TIME = 60'', ''APIQPSLIMIT=24000'', '''',
     ''[TRAFFICHIVELOG]'', ''PATH = ./logs '', ''FILE = hive'', ''TIME = 60'', '''',
     ''[REDISSERVER]'', ''IP =  0.0.0.0'', ''PORT = 59001'', ''IDX = 0'', ''NUMS =1'', '''', '''', '''',
     ''#[MYSQLSERVER]'', ''#IP = 0.0.0.0 '', ''#PORT = 3306 '', ''#USERNAME = root'', ''#PASSWORD = 123456'',
     ''#DBNAME =ldplocation'', '''',
     ''[LOCALSERVER]'', ''IP = 0.0.0.0'', ''PORT = 8080'', '''', '''',
     ''[WORKTHREADS]'', ''NUM =5'', '''',
     ''[QUERYAPIS]'', ''URLS=bapi.caiyun001.net:80,9999,330000,cmc,3000000000;''])"

definition blank_IPPORT :: IPPORT_S where
  "blank_IPPORT = \<lparr>m_pchIp = [], m_uiPort = 0, m_idx = 0, m_count = 0\<rparr>"

definition blank_STAT :: STATISTICSPRM_S where
  "blank_STAT = \<lparr>m_strStatisticsPath = [], m_strStatisticsFileName = [], m_uiStatisticsTime = 0\<rparr>"

definition blank_main :: MainState where
  "blank_main = \<lparr>m_stLogPrms = \<lparr>m_Rank = DEBUG, m_strPath = [], m_strFileName = [], m_uiMaxLine = 0\<rparr>,
     m_stServerInfo = \<lparr>m_stRedisServer = blank_IPPORT, m_stLocalServer = blank_IPPORT,
       m_stTokenServer = blank_IPPORT, m_stGoodsServer = blank_IPPORT\<rparr>,
     m_stMysqlInfo = \<lparr>m_stMysqlLinkInfo = blank_IPPORT, pchUserName = [], pchPassWord = [], pchDbName = []\<rparr>,
     m_uiThreadsNum = 0, m_stStatisticsPrm = blank_STAT, m_stHiveLogPrm = blank_STAT,
     strSslKeyPath = [], strSslKeyPassWord = [], iAPIQpsLimit = 0,
     m_stMonitorApi = blank_IPPORT, m_stEmailServer = blank_IPPORT, m_strUserName = [], m_strPassWord = [],
     m_strMailFrom = [], m_strRcptTo = [], m_strSubject = [], m_strErrorMsg = [], g_vecUrlAPIS = []\<rparr>"


section \<open>When the dispatch loop ends\<close>

definition known_sections :: "string list" where
  "known_sections = [''[LOG]'', ''[TRAFFICHIVELOG]'', ''[TRAFFICSTATISTICS]'', ''[REDISSERVER]'',
     ''[LOCALSERVER]'', ''[WORKTHREADS]'', ''[QUERYAPIS]'']"

text \<open>The section lines the readers can come to.\<close>

definition file_sections :: "string \<Rightarrow> string list" where
  "file_sections txt =
     filter ConfIsSection (concat (map (\<lambda>l. case ConfTrim l of None \<Rightarrow> [] | Some l \<Rightarrow> [l]) (conf_lines PACKET txt)))"

lemma read_section_unknown:
  "s \<notin> set known_sections \<Longrightarrow> read_section s c m = Some (s, c, m)"
  by (simp add: read_section_def known_sections_def)

lemma sections_loop_returns_known:
  "sections_loop s c m = Some r \<Longrightarrow> s = [] \<or> s \<in> set known_sections"
proof (induction s c m r rule: sections_loop.raw_induct [rotated, consumes 1, case_names 1])
  case (1 f s c m r)
  show ?case
  proof (rule ccontr)
    assume a: "\<not> (s = [] \<or> s \<in> set known_sections)"
    then have "f s c m = Some r" using 1(2) read_section_unknown by simp
    from 1(1) [OF this] a show False by simp
  qed
qed

lemmas read_line_1024 = read_step [OF packet_sizes(2), case_names eof line]

lemma section_loop_next:
  assumes "section_loop keys c m = Some (s, c', m')"
  shows "file_sections (unread c) = (if s = [] then [] else s # file_sections (unread c'))
    \<and> (s \<noteq> [] \<longrightarrow> length (unread c') < length (unread c))"
  using assms
proof (induction "length (unread c)" arbitrary: c m rule: less_induct)
  case less
  show ?case
  proof (cases rule: read_line_1024 [of c])
    case (eof rc l d)
    then have "d = c" by (auto simp: ConfGetLine_def split: option.splits prod.splits)
    with eof have "section_loop keys c m = Some ([], c, m)" by (subst section_loop.simps) simp
    then show ?thesis using less.prems eof(3) by (simp add: file_sections_def)
  next
    case (line l d ok l')
    have lt: "length (unread d) < length (unread c)"
      using packet_sizes(2) line(1) by (rule ConfGetLine_progress)
    have fs: "file_sections (unread c) = (case ConfTrim l' of
        Some t \<Rightarrow> if ok \<and> ConfIsSection t then t # file_sections (unread d) else file_sections (unread d)
      | None \<Rightarrow> file_sections (unread d))"
      unfolding file_sections_def line(3) by (simp split: option.split)
    consider x where "section_loop keys d x = Some (s, c', m')"
        "\<not> ok \<or> (\<forall>t. ConfTrim l' = Some t \<longrightarrow> \<not> ConfIsSection t)"
      | t where "ok" "ConfTrim l' = Some t" "ConfIsSection t" "(s, c', m') = (t, d, m)"
      using less.prems line(1,2) unfolding section_loop.simps [of keys c m]
      by (auto split: if_splits option.splits sum.splits)
    then show ?thesis
    proof cases
      case 1
      then have "file_sections (unread c) = file_sections (unread d)" unfolding fs by (auto split: option.split)
      with less.hyps [OF lt 1(1)] show ?thesis using lt by auto
    next
      case 2
      then show ?thesis using lt fs by (auto simp: ConfIsSection_def)
    qed
  qed
qed

lemma read_section_next:
  assumes "read_section s c m = Some (s', c', m')" "s \<in> set known_sections"
  shows "file_sections (unread c) = (if s' = [] then [] else s' # file_sections (unread c'))
    \<and> (s' \<noteq> [] \<longrightarrow> length (unread c') < length (unread c))"
proof -
  consider keys :: "string \<Rightarrow> string \<Rightarrow> MainState \<Rightarrow> MainState option" and x y where "section_loop keys c x = Some (s', c', y)"
    | keys :: "string \<Rightarrow> string \<Rightarrow> IPPORT_S \<Rightarrow> IPPORT_S option" and x y where "section_loop keys c x = Some (s', c', y)"
    | x y where "section_loop UrlKeys c x = Some (s', c', y)"
    using assms
    by (auto simp: read_section_def known_sections_def BdxGetLogPrms_def BdxGetHiveLogPrms_def
        BdxGetStatisticPrms_def BdxGetServerPrms_def BdxGetThreadsPrm_def BdxGetServerUrlAPI_def)
  then show ?thesis by cases (rule section_loop_next, assumption)+
qed

lemma sections_loop_ends:
  assumes "set (file_sections (unread c)) \<subseteq> set known_sections" "s = [] \<or> s \<in> set known_sections"
  shows "\<exists>r. sections_loop s c m = Some r"
  using assms
proof (induction "length (unread c)" arbitrary: c s m rule: less_induct)
  case less
  show ?case
  proof (cases "s = []")
    case False
    then have k: "s \<in> set known_sections" using less.prems by simp
    show ?thesis
    proof (cases "read_section s c m")
      case None
      then show ?thesis using False by (subst sections_loop.simps) simp
    next
      case (Some p)
      obtain s' c' m' where p: "p = (s', c', m')" by (cases p)
      from read_section_next [OF Some [unfolded p] k]
      have nxt: "s' = [] \<or> s' \<in> set known_sections \<and> length (unread c') < length (unread c)
          \<and> set (file_sections (unread c')) \<subseteq> set known_sections"
        using less.prems(1) by (auto split: if_splits)
      have "\<exists>r. sections_loop s' c' m' = Some r"
      proof (cases "s' = []")
        case True
        then show ?thesis by (subst sections_loop.simps) simp
      qed (use nxt less.hyps [of c' s' m'] in blast)
      then show ?thesis using False Some p by (subst sections_loop.simps) simp
    qed
  qed (subst sections_loop.simps, simp)
qed

lemma ConfTrimRight_prefix: "ConfTrimRight p = Some t \<Longrightarrow> prefix t p"
proof -
  assume a: "ConfTrimRight p = Some t"
  have "prefix (rev (dropWhile is_ctrl (rev x))) x" for x
    using suffix_dropWhile [of is_ctrl "rev x"] by (simp add: suffix_to_prefix)
  then show ?thesis using a takeWhile_is_prefix
    unfolding ConfTrimRight_def Let_def by (auto split: if_splits intro: prefix_order.trans)
qed

lemma ConfIsValid_True: "ConfIsValid t = (True, s) \<Longrightarrow> t \<noteq> [] \<and> s = ConfTrimLeft t"
  by (auto simp: ConfIsValid_def ConfTrimLeft_def Let_def split: if_splits)

lemma ConfTrim_section_valid:
  assumes "ConfTrim l = Some t" "ConfIsValid t = (True, s)"
  shows "\<exists>l'. ConfIsValid l = (True, l') \<and> ConfTrim l' = Some s"
proof -
  have t: "t \<noteq> []" "s = ConfTrimLeft t" using ConfIsValid_True [OF assms(2)] by auto
  then have ne: "ConfTrimLeft l \<noteq> []" using assms(1) by (auto simp: ConfTrim_def ConfTrimRight_def)
  then have "\<not> is_ctrl (hd (ConfTrimLeft l))" unfolding ConfTrimLeft_def by (rule hd_dropWhile)
  with ne obtain c cs where cs: "ConfTrimLeft l = c # cs" "\<not> is_ctrl c"
    by (cases "ConfTrimLeft l") auto
  have "prefix t (c # cs)" using assms(1) cs by (auto simp: ConfTrim_def dest: ConfTrimRight_prefix)
  with t cs have "s = t" by (auto simp: prefix_Cons ConfTrimLeft_def)
  moreover have "\<not> (l \<noteq> [] \<and> hd l = CHR ''#'')"
    using assms(1) by (cases l) (auto simp: ConfTrim_def ConfTrimLeft_def ConfTrimRight_def is_ctrl_def)
  moreover have "ConfTrimLeft (ConfTrimLeft l) = ConfTrimLeft l" using cs by (simp add: ConfTrimLeft_def)
  ultimately show ?thesis using ne assms(1) by (simp add: ConfIsValid_def ConfTrim_def Let_def)
qed

lemma ConfTrim_valid: "ConfIsValid l = (True, l') \<Longrightarrow> ConfTrim l' = ConfTrim l"
  by (auto simp: ConfTrim_def ConfTrimLeft_def dest!: ConfIsValid_True)

lemma ConfIsSection_valid: "ConfIsSection u \<Longrightarrow> ConfIsValid u = (True, u)"
  by (cases u) (auto simp: ConfIsSection_def ConfIsValid_def ConfTrimLeft_def is_ctrl_def)

lemma first_section_in_file:
  assumes "first_section c = Some (so, c')"
  shows "file_sections (unread c) = (case so of None \<Rightarrow> [] | Some s \<Rightarrow> s # file_sections (unread c'))"
  using assms
proof (induction "length (unread c)" arbitrary: c rule: less_induct)
  case less
  show ?case
  proof (cases rule: read_line_1024 [of c])
    case (eof rc l d)
    then show ?thesis using less.prems by (auto simp: first_section.simps [of c] file_sections_def)
  next
    case (line l d ok l')
    have lt: "length (unread d) < length (unread c)"
      using packet_sizes(2) line(1) by (rule ConfGetLine_progress)
    have fs: "file_sections (unread c) = (case ConfTrim l' of
        Some t \<Rightarrow> if ok \<and> ConfIsSection t then t # file_sections (unread d) else file_sections (unread d)
      | None \<Rightarrow> file_sections (unread d))"
      unfolding file_sections_def line(3) by (simp split: option.split)
    obtain t where t: "ConfTrim l = Some t"
      using less.prems line(1) unfolding first_section.simps [of c] by (auto split: option.splits)
    consider "first_section d = Some (so, c')" "\<not> (\<exists>u. ConfIsValid t = (True, u) \<and> ConfIsSection u)"
      | s where "ConfIsValid t = (True, s)" "ConfIsSection s" "c' = d" "so = Some s"
      using less.prems line(1) t unfolding first_section.simps [of c]
      by (auto split: if_splits prod.splits)
    then show ?thesis
    proof cases
      case 1
      have "\<not> (ok \<and> ConfTrim l' = Some u \<and> ConfIsSection u)" for u
        using 1(2) ConfTrim_valid [of l l'] line(2) t by (auto simp: ConfIsSection_valid)
      then have "file_sections (unread c) = file_sections (unread d)"
        unfolding fs by (auto split: option.split)
      with less.hyps [OF lt 1(1)] show ?thesis by simp
    next
      case 2
      from ConfTrim_section_valid [OF t 2(1)] have "ok" "ConfTrim l' = Some s" using line(2) by auto
      then show ?thesis using fs 2 by simp
    qed
  qed
qed

lemma file_sections_nonempty: "s \<in> set (file_sections txt) \<Longrightarrow> s \<noteq> []"
  by (auto simp: file_sections_def ConfIsSection_def)



lemma sections_loop_all_known:
  "sections_loop s c m = Some (Some r) \<Longrightarrow> s \<noteq> [] \<Longrightarrow> set (file_sections (unread c)) \<subseteq> set known_sections"
proof (induction "length (unread c)" arbitrary: s c m rule: less_induct)
  case less
  have k: "s \<in> set known_sections" using sections_loop_returns_known less.prems by blast
  obtain s' c' m' where rd: "read_section s c m = Some (s', c', m')" "sections_loop s' c' m' = Some (Some r)"
    using less.prems by (subst (asm) sections_loop.simps) (auto split: option.splits)
  have k': "s' = [] \<or> s' \<in> set known_sections" using sections_loop_returns_known rd(2) by blast
  show ?case
    using read_section_next [OF rd(1) k] less.hyps [of c' s' m'] rd(2) k' by (auto split: if_splits)
qed



end
