(* ===== verification/Redis.thy ===== *)
theory Redis
  imports StdMap
begin

text \<open>
  The Redis client: \<^verbatim>\<open>src/src/redisCommon/data_redis.cpp\<close>.

  hiredis and the server behind it are the argument \<open>hi\<close>: what connecting, sending a command
  (a format and its arguments) and freeing a context do to the outside world \<open>'w\<close>. A context
  is an opaque handle \<open>'c\<close>. A reply is the datatype \<open>redisReply\<close> with the members the
  code reads. Operations return their \<^verbatim>\<open>bool\<close>, what they write to their reference
  arguments, the client and the world; those that may abort (a failed \<^verbatim>\<open>assert\<close>, a null
  dereference, an overflowing \<^verbatim>\<open>strcat\<close>) return \<open>None\<close> there.
\<close>

section \<open>hiredis\<close>

datatype redisReply =
    REPLY_STRING string
  | REPLY_ARRAY "redisReply list"
  | REPLY_INTEGER int
  | REPLY_NIL
  | REPLY_STATUS string
  | REPLY_ERROR string

datatype redis_arg = S string | D int

record ('c, 'w) hiredis =
  redisConnectWithTimeout :: "string \<Rightarrow> 16 word \<Rightarrow> nat \<Rightarrow> 'w \<Rightarrow> ('c \<times> bool) option \<times> 'w"
  redisCommand :: "'c \<Rightarrow> string \<Rightarrow> redis_arg list \<Rightarrow> 'w \<Rightarrow> redisReply option \<times> 'w"
  redisFree :: "'c \<Rightarrow> 'w \<Rightarrow> 'w"

text \<open>The members of a reply: \<open>str\<close> is a null pointer unless the reply carries text.\<close>

fun reply_str :: "redisReply \<Rightarrow> string option" where
  "reply_str (REPLY_STRING s) = Some s"
| "reply_str (REPLY_STATUS s) = Some s"
| "reply_str (REPLY_ERROR s) = Some s"
| "reply_str _ = None"

definition reply_len :: "redisReply \<Rightarrow> nat" where
  "reply_len r = (case reply_str r of None \<Rightarrow> 0 | Some s \<Rightarrow> length s)"

fun reply_elements :: "redisReply \<Rightarrow> redisReply list" where
  "reply_elements (REPLY_ARRAY rs) = rs"
| "reply_elements _ = []"

fun reply_integer :: "redisReply \<Rightarrow> int" where
  "reply_integer (REPLY_INTEGER i) = i"
| "reply_integer _ = 0"

fun is_error :: "redisReply \<Rightarrow> bool" where
  "is_error (REPLY_ERROR _) = True"
| "is_error _ = False"

text \<open>\<^verbatim>\<open>value.assign(reply->str, reply->len)\<close>\<close>

definition reply_text :: "redisReply \<Rightarrow> string" where
  "reply_text r = (case reply_str r of None \<Rightarrow> [] | Some s \<Rightarrow> s)"

text \<open>
  \<^verbatim>\<open>push_back(element[i]->str)\<close> for every element: the C string of each; a null
  \<^verbatim>\<open>str\<close> raises \<^verbatim>\<open>std::logic_error\<close>.
\<close>

fun push_elements :: "redisReply list \<Rightarrow> string list \<Rightarrow> string list option" where
  "push_elements [] acc = Some acc"
| "push_elements (r # rs) acc =
     (case reply_str r of None \<Rightarrow> None | Some s \<Rightarrow> push_elements rs (acc @ [cstr s]))"

section \<open>Server lists\<close>

text \<open>
  \<open>redis_serv_list\<close>: \<^verbatim>\<open>count;host:port,idx;host:port;...\<close>. \<open>None\<close> when a
  \<^verbatim>\<open>;\<close> is missing (the code goes on from a null pointer) or an entry does not fit
  into the 256-byte buffer.
\<close>

definition strchr :: "string \<Rightarrow> char \<Rightarrow> string option" where
  "strchr s c = (case dropWhile (\<lambda>x. x \<noteq> c) s of [] \<Rightarrow> None | t \<Rightarrow> Some t)"

type_synonym serv_lists = "string list \<times> 16 word list \<times> 16 word list"

fun serv_list_loop :: "nat \<Rightarrow> string \<Rightarrow> serv_lists \<Rightarrow> (bool \<times> serv_lists) option" where
  "serv_list_loop 0 cur ls = Some (True, ls)"
| "serv_list_loop (Suc n) cur (hosts, ports, idxs) =
     (case strchr cur (CHR '';'') of
        None \<Rightarrow> None
      | Some token \<Rightarrow>
          let serv = take (length cur - length token) cur in
          if 256 \<le> length serv then None
          else
            (case strchr serv (CHR '':'') of
               None \<Rightarrow> Some (False, (hosts, ports, idxs))
             | Some port \<Rightarrow>
                 let host = take (length serv - length port) serv;
                     idx = (case strchr port (CHR '','') of None \<Rightarrow> 0 | Some i \<Rightarrow> atoi (tl i))
                 in serv_list_loop n (tl token)
                      (hosts @ [host], ports @ [word_of_int (atoi (tl port))], idxs @ [word_of_int idx])))"

definition redis_serv_list :: "string \<Rightarrow> (bool \<times> serv_lists) option" where
  "redis_serv_list serv_list_str =
     (case strchr serv_list_str (CHR '';'') of
        None \<Rightarrow> None
      | Some token \<Rightarrow>
          serv_list_loop (unat (word_of_int (atoi serv_list_str) :: u32)) (tl token) ([], [], []))"

section \<open>Connection\<close>

text \<open>The members \<^verbatim>\<open>host_\<close>, \<^verbatim>\<open>port_\<close>, \<^verbatim>\<open>idx_\<close> and \<^verbatim>\<open>context_\<close>.\<close>

record 'c CDataRedis =
  r_host :: string
  r_port :: "16 word"
  r_idx :: "16 word"
  r_context :: "'c option"

definition new_CDataRedis :: "'c CDataRedis" where
  "new_CDataRedis = \<lparr>r_host = [], r_port = 0, r_idx = 0, r_context = None\<rparr>"

definition DisConnect :: "('c, 'w) hiredis \<Rightarrow> 'c CDataRedis \<Rightarrow> 'w \<Rightarrow> 'c CDataRedis \<times> 'w" where
  "DisConnect hi d w =
     (case r_context d of
        None \<Rightarrow> (d, w)
      | Some c \<Rightarrow> (d\<lparr>r_context := None\<rparr>, redisFree hi c w))"

text \<open>
  The part every operation shares: send, and on a null or error reply disconnect. The first
  component is the reply that passed the test.
\<close>

definition checked_command ::
  "('c, 'w) hiredis \<Rightarrow> string \<Rightarrow> redis_arg list \<Rightarrow> 'c CDataRedis \<Rightarrow> 'w
     \<Rightarrow> redisReply option \<times> 'c CDataRedis \<times> 'w" where
  "checked_command hi fmt args d w =
     (case r_context d of
        None \<Rightarrow> (None, d, w)
      | Some c \<Rightarrow>
          (case redisCommand hi c fmt args w of (reply, w) \<Rightarrow>
             (case reply of
                None \<Rightarrow> (None, DisConnect hi d w)
              | Some r \<Rightarrow> if is_error r then (None, DisConnect hi d w) else (Some r, d, w))))"

text \<open>\<open>KeepConnect\<close>; its \<open>SelectDB\<close> finds the context set and only sends the command.\<close>

definition KeepConnect ::
  "('c, 'w) hiredis \<Rightarrow> nat \<Rightarrow> 'c CDataRedis \<Rightarrow> 'w \<Rightarrow> bool \<times> 'c CDataRedis \<times> 'w" where
  "KeepConnect hi timeout d w =
     (case r_context d of
        Some _ \<Rightarrow> (True, d, w)
      | None \<Rightarrow>
          (case redisConnectWithTimeout hi (r_host d) (r_port d) (if timeout \<noteq> 0 then timeout else 800000) w of
             (None, w) \<Rightarrow> (False, d, w)
           | (Some (c, err), w) \<Rightarrow>
               if err then (False, d, redisFree hi c w)
               else
                 let d = d\<lparr>r_context := Some c\<rparr>;
                     (sel, d, w) =
                       (if r_idx d \<noteq> 0
                        then (case checked_command hi ''select %d'' [D (uint (r_idx d))] d w of
                                (r, d, w) \<Rightarrow> (r \<noteq> None, d, w))
                        else (True, d, w))
                 in if \<not> sel then (False, d, w)
                    else (case checked_command hi ''PING'' [] d w of (r, d, w) \<Rightarrow> (r \<noteq> None, d, w))))"

definition Init ::
  "('c, 'w) hiredis \<Rightarrow> string \<Rightarrow> 16 word \<Rightarrow> 16 word \<Rightarrow> 'c CDataRedis \<Rightarrow> 'w \<Rightarrow> bool \<times> 'c CDataRedis \<times> 'w" where
  "Init hi host port idx d w =
     KeepConnect hi 0 (d\<lparr>r_host := take 256 host, r_port := port, r_idx := idx\<rparr>) w"

text \<open>\<open>KeepConnect\<close> followed by a checked command: the body of the operations below.\<close>

definition call ::
  "('c, 'w) hiredis \<Rightarrow> string \<Rightarrow> redis_arg list \<Rightarrow> 'c CDataRedis \<Rightarrow> 'w
     \<Rightarrow> redisReply option \<times> 'c CDataRedis \<times> 'w" where
  "call hi fmt args d w =
     (case KeepConnect hi 0 d w of
        (False, d, w) \<Rightarrow> (None, d, w)
      | (True, d, w) \<Rightarrow> checked_command hi fmt args d w)"

abbreviation done_bool ::
  "redisReply option \<times> 'c CDataRedis \<times> 'w \<Rightarrow> bool \<times> 'c CDataRedis \<times> 'w" where
  "done_bool x \<equiv> (case x of (r, d, w) \<Rightarrow> (r \<noteq> None, d, w))"

definition SelectDB where
  "SelectDB hi db_index d w = done_bool (call hi ''select %d'' [D (uint (db_index :: 16 word))] d w)"

section \<open>Keys and strings\<close>

text \<open>A command built in a buffer is sent as the format itself, with no arguments.\<close>

definition DeleteKey where
  "DeleteKey hi key d w = done_bool (call hi (take 1022 (''del '' @ key)) [] d w)"

definition cat_words :: "string \<Rightarrow> string list \<Rightarrow> string option" where
  "cat_words cmd ws =
     (let s = cmd @ concat (map (\<lambda>x. '' '' @ cstr x) ws) in if length s < 4096 then Some s else None)"

definition DeleteKeys ::
  "('c, 'w) hiredis \<Rightarrow> string list \<Rightarrow> 'c CDataRedis \<Rightarrow> 'w \<Rightarrow> (bool \<times> 'c CDataRedis \<times> 'w) option" where
  "DeleteKeys hi keys d w =
     (if keys = [] then None
      else (case KeepConnect hi 0 d w of
              (False, d, w) \<Rightarrow> Some (False, d, w)
            | (True, d, w) \<Rightarrow>
                (case cat_words ''del'' keys of
                   None \<Rightarrow> None
                 | Some cmd \<Rightarrow> Some (done_bool (checked_command hi cmd [] d w)))))"

text \<open>The list-valued queries: \<open>GetKeys\<close>, \<open>Smembers\<close>, \<open>Hkeys\<close>, \<open>Hvals\<close> append to their argument.\<close>

definition list_query ::
  "('c, 'w) hiredis \<Rightarrow> string \<Rightarrow> string \<Rightarrow> string list \<Rightarrow> 'c CDataRedis \<Rightarrow> 'w
     \<Rightarrow> (bool \<times> string list \<times> 'c CDataRedis \<times> 'w) option" where
  "list_query hi fmt key out d w =
     (case call hi fmt [S key] d w of
        (None, d, w) \<Rightarrow> Some (False, out, d, w)
      | (Some r, d, w) \<Rightarrow>
          (case push_elements (reply_elements r) out of
             None \<Rightarrow> None
           | Some out \<Rightarrow> Some (True, out, d, w)))"

definition GetKeys where "GetKeys hi regular_key keys d w = list_query hi ''keys %s'' regular_key keys d w"

definition GetValue ::
  "('c, 'w) hiredis \<Rightarrow> string \<Rightarrow> string \<Rightarrow> 'c CDataRedis \<Rightarrow> 'w \<Rightarrow> bool \<times> string \<times> 'c CDataRedis \<times> 'w" where
  "GetValue hi key value d w =
     (case call hi ''GET %s'' [S key] d w of
        (None, d, w) \<Rightarrow> (False, value, d, w)
      | (Some r, d, w) \<Rightarrow>
          if reply_len r = 0 then (False, value, DisConnect hi d w)
          else (True, reply_text r, d, w))"

definition SetValue where
  "SetValue hi key value expiration d w =
     done_bool (if 0 < (expiration :: int)
                then call hi ''SET %s %s ex %d'' [S key, S value, D expiration] d w
                else call hi ''SET %s %s'' [S key, S value] d w)"

definition DelValue where
  "DelValue hi key value expiration d w =
     done_bool (if 0 < (expiration :: int) then call hi ''DEL %s'' [S key] d w
                else call hi ''SET %s'' [S key] d w)"

definition IncrValue where
  "IncrValue hi key expiration d w =
     done_bool (if 0 < (expiration :: int) then call hi ''incr %s  %d'' [S key, D expiration] d w
                else call hi ''incr %s'' [S key] d w)"

definition IncrByValue where
  "IncrByValue hi key expiration d w =
     done_bool (if 0 < (expiration :: int) then call hi ''incrby %s  %d'' [S key, D expiration] d w
                else call hi ''incr %s'' [S key] d w)"

section \<open>Sorted sets\<close>

text \<open>
  These two print \<^verbatim>\<open>reply->type\<close> before the null test: a null reply is a crash. The first
  one takes the last string element; without any the result is false and the connection stays.
\<close>

fun last_string :: "redisReply list \<Rightarrow> string \<Rightarrow> string" where
  "last_string [] value = value"
| "last_string (r # rs) value = last_string rs (case r of REPLY_STRING s \<Rightarrow> s | _ \<Rightarrow> value)"

definition GetValueSortedSet ::
  "('c, 'w) hiredis \<Rightarrow> string \<Rightarrow> string \<Rightarrow> 'c CDataRedis \<Rightarrow> 'w
     \<Rightarrow> (bool \<times> string \<times> 'c CDataRedis \<times> 'w) option" where
  "GetValueSortedSet hi key value d w =
     (case KeepConnect hi 0 d w of
        (False, d, w) \<Rightarrow> Some (False, value, d, w)
      | (True, d, w) \<Rightarrow>
          (case r_context d of
             None \<Rightarrow> None
           | Some c \<Rightarrow>
               (case redisCommand hi c ''ZRANGE %s 0 0'' [S key] w of
                  (None, w) \<Rightarrow> None
                | (Some r, w) \<Rightarrow>
                    (case r of
                       REPLY_ARRAY rs \<Rightarrow>
                         let v = last_string rs value in
                         if length v = 0 then Some (False, v, d, w) else Some (True, v, d, w)
                     | _ \<Rightarrow> Some (False, value, DisConnect hi d w)))))"

definition RemoveSortedSet ::
  "('c, 'w) hiredis \<Rightarrow> string \<Rightarrow> string \<Rightarrow> 'c CDataRedis \<Rightarrow> 'w
     \<Rightarrow> (bool \<times> string \<times> 'c CDataRedis \<times> 'w) option" where
  "RemoveSortedSet hi key value d w =
     (case KeepConnect hi 0 d w of
        (False, d, w) \<Rightarrow> Some (False, value, d, w)
      | (True, d, w) \<Rightarrow>
          (case r_context d of
             None \<Rightarrow> None
           | Some c \<Rightarrow>
               (case redisCommand hi c ''zremrangebyrank %s 0 0'' [S key] w of
                  (None, w) \<Rightarrow> None
                | (Some r, w) \<Rightarrow>
                    if is_error r then Some (False, value, DisConnect hi d w)
                    else Some (True, reply_text r, d, w))))"

definition SetValueSortedSet where
  "SetValueSortedSet hi key score value d w =
     done_bool (call hi ''ZADD %s %s %s'' [S key, S score, S value] d w)"

section \<open>Lists\<close>

definition Rpush where "Rpush hi key item d w = done_bool (call hi ''rpush %s %s'' [S key, S item] d w)"

definition Llen ::
  "('c, 'w) hiredis \<Rightarrow> string \<Rightarrow> u32 \<Rightarrow> 'c CDataRedis \<Rightarrow> 'w \<Rightarrow> bool \<times> u32 \<times> 'c CDataRedis \<times> 'w" where
  "Llen hi key len d w =
     (case call hi ''llen %s'' [S key] d w of
        (None, d, w) \<Rightarrow> (False, len, d, w)
      | (Some r, d, w) \<Rightarrow> (True, word_of_int (reply_integer r), d, w))"

definition text_query ::
  "('c, 'w) hiredis \<Rightarrow> string \<Rightarrow> redis_arg list \<Rightarrow> string \<Rightarrow> 'c CDataRedis \<Rightarrow> 'w
     \<Rightarrow> bool \<times> string \<times> 'c CDataRedis \<times> 'w" where
  "text_query hi fmt args value d w =
     (case call hi fmt args d w of
        (None, d, w) \<Rightarrow> (False, value, d, w)
      | (Some r, d, w) \<Rightarrow> (True, reply_text r, d, w))"

definition Lpop where "Lpop hi key item d w = text_query hi ''lpop %s'' [S key] item d w"

section \<open>Sets and hashes\<close>

definition Sadd where
  "Sadd hi key mumb d w = done_bool (call hi (take 4095 (''sadd '' @ key @ '' '' @ mumb)) [] d w)"

definition set_words_cmd ::
  "('c, 'w) hiredis \<Rightarrow> string \<Rightarrow> string \<Rightarrow> string list \<Rightarrow> 'c CDataRedis \<Rightarrow> 'w
     \<Rightarrow> (bool \<times> 'c CDataRedis \<times> 'w) option" where
  "set_words_cmd hi op key mumbs d w =
     (if mumbs = [] then None
      else (case KeepConnect hi 0 d w of
              (False, d, w) \<Rightarrow> Some (False, d, w)
            | (True, d, w) \<Rightarrow>
                (case cat_words (take 4095 (op @ '' '' @ key)) mumbs of
                   None \<Rightarrow> None
                 | Some cmd \<Rightarrow> Some (done_bool (checked_command hi cmd [] d w)))))"

definition Sadd_set where "Sadd_set hi key mumbs d w = set_words_cmd hi ''sadd'' key mumbs d w"

definition Smembers where "Smembers hi key membs d w = list_query hi ''smembers %s'' key membs d w"

definition Sremove where
  "Sremove hi key mumb d w = done_bool (call hi (take 4095 (''srem '' @ key @ '' '' @ mumb)) [] d w)"

definition Sremove_set where "Sremove_set hi key mumbs d w = set_words_cmd hi ''srem'' key mumbs d w"

definition Smove where
  "Smove hi key dstkey mumb d w =
     done_bool (call hi (take 4095 (''smove '' @ key @ '' '' @ dstkey @ '' '' @ mumb)) [] d w)"

definition Hset where
  "Hset hi key field value d w =
     done_bool (call hi (take 4095 (''hset '' @ key @ '' '' @ field @ '' '' @ value)) [] d w)"

definition Hget where "Hget hi key field value d w = text_query hi ''hget %s %s'' [S key, S field] value d w"

definition Hkeys where "Hkeys hi key fs d w = list_query hi ''hkeys %s'' key fs d w"

definition Hvals where "Hvals hi key vs d w = list_query hi ''hvals %s'' key vs d w"

section \<open>Connection discipline\<close>

lemma DisConnect_context [simp]: "r_context (fst (DisConnect hi d w)) = None"
  by (auto simp: DisConnect_def split: option.split)

lemma checked_command_context:
  assumes "checked_command hi fmt args d w = (r, d', w')"
  shows "r_context d' = (if r = None then None else r_context d)"
proof (cases "r_context d")
  case (Some c)
  obtain x w1 where x: "redisCommand hi c fmt args w = (x, w1)" by force
  have dc: "r_context d' = None" if "DisConnect hi d w1 = (d', w')"
    using that DisConnect_context [of hi d w1] by simp
  show ?thesis using assms Some x dc
    by (auto simp: checked_command_def split: option.splits if_splits)
qed (use assms in \<open>simp add: checked_command_def\<close>)

lemma KeepConnect_context:
  assumes "KeepConnect hi t d w = (b, d', w')" shows "b \<longleftrightarrow> r_context d' \<noteq> None"
proof (cases "r_context d")
  case None
  obtain co w1 where co: "redisConnectWithTimeout hi (r_host d) (r_port d) (if t \<noteq> 0 then t else 800000) w = (co, w1)"
    by force
  show ?thesis
  proof (cases co)
    case (Some ce)
    obtain c err where ce: "ce = (c, err)" by force
    let ?d = "d\<lparr>r_context := Some c\<rparr>"
    obtain s d1 w2 where sel: "(if r_idx ?d \<noteq> 0
        then (case checked_command hi ''select %d'' [D (uint (r_idx ?d))] ?d w1 of (r, d, w) \<Rightarrow> (r \<noteq> None, d, w))
        else (True, ?d, w1)) = (s, d1, w2)" by (metis prod_cases3)
    have s: "r_context d1 = (if s then Some c else None)"
      using sel by (auto split: if_splits prod.splits dest: checked_command_context)
    obtain r d2 w3 where p: "checked_command hi ''PING'' [] d1 w2 = (r, d2, w3)" by (metis prod_cases3)
    show ?thesis
      using assms None co Some ce sel s p checked_command_context [OF p]
      by (auto simp: KeepConnect_def Let_def split: if_splits)
  qed (use assms None co in \<open>simp add: KeepConnect_def\<close>)
qed (use assms in \<open>simp add: KeepConnect_def\<close>)

lemma call_context:
  assumes "call hi fmt args d w = (r, d', w')" shows "r = None \<longleftrightarrow> r_context d' = None"
proof -
  obtain b d1 w1 where k: "KeepConnect hi 0 d w = (b, d1, w1)" by (metis prod_cases3)
  from KeepConnect_context [OF k] assms k checked_command_context [of hi fmt args d1 w1 r d' w'] show ?thesis
    by (auto simp: call_def split: bool.splits if_splits)
qed

text \<open>A successful call leaves the connection on which the reply came.\<close>

lemma call_succeeds:
  assumes "call hi fmt args d w = (Some r, d', w')"
  shows "\<exists>c w0. r_context d' = Some c \<and> redisCommand hi c fmt args w0 = (Some r, w') \<and> \<not> is_error r"
proof -
  obtain b d1 w1 where k: "KeepConnect hi 0 d w = (b, d1, w1)" by (metis prod_cases3)
  with assms have b: "b" "checked_command hi fmt args d1 w1 = (Some r, d', w')"
    by (auto simp: call_def split: bool.splits)
  then show ?thesis
    by (auto simp: checked_command_def split: option.splits prod.splits if_splits)
qed

definition connected_iff :: "bool \<times> 'c CDataRedis \<times> 'w \<Rightarrow> bool" where
  "connected_iff x \<longleftrightarrow> (case x of (b, d, w) \<Rightarrow> b = (r_context d \<noteq> None))"

lemma connected_iff_call: "connected_iff (done_bool (call hi fmt args d w))"
  using call_context [of hi fmt args d w] by (auto simp: connected_iff_def split: prod.split)

lemma connected_iff_text: "connected_iff (case text_query hi fmt args v d w of (b, _, d, w) \<Rightarrow> (b, d, w))"
  using call_context [of hi fmt args d w] by (auto simp: connected_iff_def text_query_def split: prod.split option.split)


section \<open>Server lists\<close>

lemma strchr_first: "c \<notin> set s \<Longrightarrow> strchr (s @ c # t) c = Some (c # t)"
  by (induction s) (auto simp: strchr_def)

lemma digits_value_then: "c = [] \<or> \<not> is_digit (hd c) \<Longrightarrow> digits_value 0 (show_nat n @ c) = int n"
  by (cases c) (auto simp: digits_value_append show_nat_digits digits_value_show_nat)

lemma parse_int_then:
  assumes "t = [] \<or> \<not> is_digit (hd t)" shows "parse_int (show_nat n @ t) = int n"
proof -
  obtain c cs where s: "show_nat n = c # cs" by (cases "show_nat n") auto
  then have d: "is_digit c" using show_nat_digits [of n] by simp
  then have "dropWhile is_space (show_nat n @ t) = show_nat n @ t" by (simp add: s is_digit_not_special)
  then show ?thesis
    using d digits_value_then [OF assms, of n] by (simp add: parse_int_def is_digit_not_special s)
qed

lemma atoi_then:
  assumes "n < 2 ^ 31" "t = [] \<or> \<not> is_digit (hd t)" shows "atoi (show_nat n @ t) = int n"
proof -
  have "int n < 2 ^ 31" using assms(1) by (metis of_nat_less_iff of_nat_numeral of_nat_power)
  moreover then have "atol (show_nat n @ t) = int n" by (simp add: atol_def parse_int_then [OF assms(2)])
  ultimately show ?thesis unfolding atoi_def using sint_word_of_int_32 [of "int n"] by simp
qed

definition show_serv :: "string \<times> 16 word \<times> 16 word \<Rightarrow> string" where
  "show_serv s = (case s of (h, p, i) \<Rightarrow> h @ '':'' @ show_nat (unat p) @ '','' @ show_nat (unat i))"

definition show_serv_list :: "(string \<times> 16 word \<times> 16 word) list \<Rightarrow> string" where
  "show_serv_list ss = show_nat (length ss) @ '';'' @ concat (map (\<lambda>s. show_serv s @ '';'') ss)"

definition serv_ok :: "string \<times> 16 word \<times> 16 word \<Rightarrow> bool" where
  "serv_ok s \<longleftrightarrow> CHR '':'' \<notin> set (fst s) \<and> CHR '';'' \<notin> set (fst s) \<and> length (show_serv s) < 256"

lemma digits_no: "\<not> is_digit c \<Longrightarrow> c \<notin> set (show_nat n)"
  using show_nat_digits by blast

lemma u16_small: "unat (p :: 16 word) < 2 ^ 31"
  using unsigned_less [of p, where ?'a = nat] by simp

lemma not_digits: "\<not> is_digit (CHR '';'')" "\<not> is_digit (CHR '':'')" "\<not> is_digit (CHR '','')"
  by (simp_all add: is_digit_def)

lemma serv_list_loop_step:
  assumes "strchr cur (CHR '';'') = Some token" "serv = take (length cur - length token) cur" "length serv < 256"
    "strchr serv (CHR '':'') = Some port" "h = take (length serv - length port) serv"
    "strchr port (CHR '','') = Some j"
  shows "serv_list_loop (Suc n) cur (hs, ps, is) =
    serv_list_loop n (tl token) (hs @ [h], ps @ [word_of_int (atoi (tl port))], is @ [word_of_int (atoi (tl j))])"
  using assms by (simp add: Let_def)

lemma serv_list_loop_one:
  assumes "serv_ok s"
  shows "serv_list_loop (Suc n) (show_serv s @ '';'' @ rest) (hs, ps, is) =
    serv_list_loop n rest (hs @ [fst s], ps @ [fst (snd s)], is @ [snd (snd s)])"
proof -
  obtain h p i where s: "s = (h, p, i)" by (cases s)
  have ok: "CHR '':'' \<notin> set h" "CHR '';'' \<notin> set (show_serv s)" "length (show_serv s) < 256"
    using assms by (auto simp: serv_ok_def s show_serv_def digits_no not_digits)
  have 1: "strchr (show_serv s @ '';'' @ rest) (CHR '';'') = Some (CHR '';'' # rest)"
    using strchr_first [OF ok(2), of rest] by simp
  have 2: "strchr (show_serv s) (CHR '':'') = Some ('':'' @ show_nat (unat p) @ '','' @ show_nat (unat i))"
    using strchr_first [OF ok(1), of "show_nat (unat p) @ '','' @ show_nat (unat i)"] by (simp add: s show_serv_def)
  have 3: "strchr ('':'' @ show_nat (unat p) @ '','' @ show_nat (unat i)) (CHR '','') = Some ('','' @ show_nat (unat i))"
    using strchr_first [of "CHR '',''" "'':'' @ show_nat (unat p)" "show_nat (unat i)"]
    by (simp add: digits_no not_digits)
  have 4: "atoi (show_nat (unat p) @ CHR '','' # show_nat (unat i)) = int (unat p)" "atoi (show_nat (unat i)) = int (unat i)"
    using atoi_then [of "unat p" "'','' @ show_nat (unat i)"] atoi_then [of "unat i" "[]"] u16_small
    by (simp_all add: not_digits)
  have t: "show_serv s = take (length (show_serv s @ '';'' @ rest) - length (CHR '';'' # rest)) (show_serv s @ '';'' @ rest)"
    by simp
  have u: "h = take (length (show_serv s) - length ('':'' @ show_nat (unat p) @ '','' @ show_nat (unat i))) (show_serv s)"
    by (simp add: s show_serv_def)
  show ?thesis by (subst serv_list_loop_step [OF 1 t ok(3) 2 u 3]) (simp add: 4 s)
qed

lemma serv_list_loop_show:
  "list_all serv_ok ss \<Longrightarrow>
   serv_list_loop (length ss) (concat (map (\<lambda>s. show_serv s @ '';'') ss)) (hs, ps, is) =
     Some (True, hs @ map fst ss, ps @ map (fst \<circ> snd) ss, is @ map (snd \<circ> snd) ss)"
proof (induction ss arbitrary: hs ps "is")
  case (Cons s ss)
  then show ?case
    using serv_list_loop_one [of s "length ss" "concat (map (\<lambda>s. show_serv s @ '';'') ss)" hs ps "is"] by simp
qed simp



end
