(* ===== verification/DataAdapter.thy ===== *)
theory DataAdapter
  imports Md5 Redis
begin

text \<open>
  Sharding over several Redis servers: \<^verbatim>\<open>src/src/redisCommon/data_adapter.cpp\<close> and
  \<^verbatim>\<open>update_adapter.cpp\<close>. \<^verbatim>\<open>data_\<close> is the list \<open>servers\<close>, whose length is
  \<^verbatim>\<open>serv_count_\<close>; the per-server mutexes serialise the operations, so an operation is one
  step on the adapter and the world. Taking the shard of an empty server list divides by zero:
  \<open>None\<close>.
\<close>

section \<open>Choosing a server\<close>

record 'c CDataAdapter =
  servers :: "'c CDataRedis list"
  m_clMd5 :: CMd5

text \<open>\<^verbatim>\<open>*(unsigned long int*)pszParamSign\<close> on a little-endian machine.\<close>

fun load64 :: "byte list \<Rightarrow> u64" where
  "load64 [] = 0"
| "load64 (b # bs) = ucast b OR push_bit 8 (load64 bs)"

definition shard :: "CMd5 \<Rightarrow> string \<Rightarrow> nat \<Rightarrow> (nat \<times> CMd5) option" where
  "shard m uid serv_count =
     (case Md5Final (Md5Update (Md5Init m) (bytes_of uid)) of (m', pszParamSign) \<Rightarrow>
        let postkey = load64 (take 8 pszParamSign) in
        if serv_count = 0 then None else Some (unat postkey mod serv_count, m'))"

text \<open>The same key in one call of OpenSSL, whose digest is \<open>MD5\<close>.\<close>

definition md5_sum :: "(byte list \<Rightarrow> byte list) \<Rightarrow> byte list \<Rightarrow> u64" where
  "md5_sum MD5 key = load64 (take 8 (MD5 key))"

text \<open>Run one operation on the server of \<open>uid\<close>.\<close>

definition on_shard ::
  "string \<Rightarrow> ('c CDataRedis \<Rightarrow> 'w \<Rightarrow> ('r \<times> 'c CDataRedis \<times> 'w) option)
     \<Rightarrow> 'c CDataAdapter \<Rightarrow> 'w \<Rightarrow> ('r \<times> 'c CDataAdapter \<times> 'w) option" where
  "on_shard uid oper a w =
     (case shard (m_clMd5 a) uid (length (servers a)) of
        None \<Rightarrow> None
      | Some (idx, m') \<Rightarrow>
          (case oper (servers a ! idx) w of
             None \<Rightarrow> None
           | Some (r, d, w) \<Rightarrow> Some (r, a\<lparr>servers := (servers a)[idx := d], m_clMd5 := m'\<rparr>, w)))"

abbreviation value_result ::
  "bool \<times> string \<times> 'c CDataRedis \<times> 'w \<Rightarrow> ((bool \<times> string) \<times> 'c CDataRedis \<times> 'w) option" where
  "value_result x \<equiv> (case x of (b, v, d, w) \<Rightarrow> Some ((b, v), d, w))"

abbreviation opt_value_result ::
  "(bool \<times> 'v \<times> 'c CDataRedis \<times> 'w) option \<Rightarrow> ((bool \<times> 'v) \<times> 'c CDataRedis \<times> 'w) option" where
  "opt_value_result x \<equiv> map_option (\<lambda>(b, v, d, w). ((b, v), d, w)) x"

section \<open>CDataAdapter\<close>

fun init_servers ::
  "('c, 'w) hiredis \<Rightarrow> string list \<Rightarrow> 16 word list \<Rightarrow> 16 word list \<Rightarrow> 'w \<Rightarrow> bool \<times> 'c CDataRedis list \<times> 'w" where
  "init_servers hi (h # hs) (p # ps) (i # is) w =
     (case Init hi (cstr h) p i new_CDataRedis w of
        (False, d, w) \<Rightarrow> (False, d # replicate (length hs) new_CDataRedis, w)
      | (True, d, w) \<Rightarrow> (case init_servers hi hs ps is w of (b, ds, w) \<Rightarrow> (b, d # ds, w)))"
| "init_servers hi _ _ _ w = (True, [], w)"

definition AdapterInit ::
  "('c, 'w) hiredis \<Rightarrow> string \<Rightarrow> 'c CDataAdapter \<Rightarrow> 'w \<Rightarrow> (bool \<times> 'c CDataAdapter \<times> 'w) option" where
  "AdapterInit hi redis_list a w =
     (case redis_serv_list redis_list of
        None \<Rightarrow> None
      | Some (False, _) \<Rightarrow> Some (False, a, w)
      | Some (True, hosts, ports, idxs) \<Rightarrow>
          (case init_servers hi hosts ports idxs w of (b, ds, w) \<Rightarrow> Some (b, a\<lparr>servers := ds\<rparr>, w)))"

definition UserGet where
  "UserGet hi uid rule a w = on_shard uid (\<lambda>d w. value_result (GetValue hi (cstr uid) rule d w)) a w"

definition UserSmove where
  "UserSmove hi uid dstuid rule a w =
     on_shard uid (\<lambda>d w. Some (Smove hi (cstr uid) (cstr dstuid) (cstr rule) d w)) a w"

definition UserSmembers where
  "UserSmembers hi uid rule a w = on_shard uid (\<lambda>d w. opt_value_result (Smembers hi (cstr uid) rule d w)) a w"

definition UserSadd where
  "UserSadd hi uid rule a w = on_shard uid (\<lambda>d w. Some (Sadd hi (cstr uid) (cstr rule) d w)) a w"

definition UserGetSortedSet where
  "UserGetSortedSet hi uid rule a w =
     on_shard uid (\<lambda>d w. opt_value_result (GetValueSortedSet hi (cstr uid) rule d w)) a w"

definition UserRemoveSortedSet where
  "UserRemoveSortedSet hi uid rule a w =
     on_shard uid (\<lambda>d w. opt_value_result (RemoveSortedSet hi (cstr uid) rule d w)) a w"

definition UserIncr where
  "UserIncr hi uid itime_expire a w = on_shard uid (\<lambda>d w. Some (IncrValue hi (cstr uid) itime_expire d w)) a w"

definition UserIncrBy where
  "UserIncrBy hi uid increment a w = on_shard uid (\<lambda>d w. Some (IncrByValue hi (cstr uid) increment d w)) a w"

definition UserPut where
  "UserPut hi uid rule a w = on_shard uid (\<lambda>d w. Some (SetValue hi (cstr uid) (cstr rule) (- 1) d w)) a w"

definition UserDel where
  "UserDel hi uid rule a w = on_shard uid (\<lambda>d w. Some (DelValue hi (cstr uid) (cstr rule) (- 1) d w)) a w"

text \<open>The write side of the order queue hashes the score, not the key.\<close>

definition UserPutOrderSet where
  "UserPutOrderSet hi key score member a w =
     on_shard score (\<lambda>d w. Some (SetValueSortedSet hi (cstr key) (cstr score) (cstr member) d w)) a w"

definition UserPutExpire where
  "UserPutExpire hi uid rule expiration a w =
     on_shard uid (\<lambda>d w. Some (SetValue hi (cstr uid) (cstr rule) expiration d w)) a w"

section \<open>CUpdateAdapter\<close>

definition UpdateInit ::
  "('c, 'w) hiredis \<Rightarrow> string \<Rightarrow> 'c CDataRedis list \<Rightarrow> 'w \<Rightarrow> (bool \<times> 'c CDataRedis list \<times> 'w) option" where
  "UpdateInit hi mq_srv_list ds w =
     (case redis_serv_list mq_srv_list of
        None \<Rightarrow> None
      | Some (False, _) \<Rightarrow> Some (False, ds, w)
      | Some (True, hosts, ports, idxs) \<Rightarrow> Some (init_servers hi hosts ports idxs w))"

text \<open>At most three items per server and call; \<open>item\<close> stays empty when \<open>Lpop\<close> fails.\<close>

fun pop_items ::
  "('c, 'w) hiredis \<Rightarrow> string \<Rightarrow> nat \<Rightarrow> string set \<Rightarrow> 'c CDataRedis \<Rightarrow> 'w \<Rightarrow> string set \<times> 'c CDataRedis \<times> 'w" where
  "pop_items hi key 0 uids d w = (uids, d, w)"
| "pop_items hi key (Suc n) uids d w =
     (case Lpop hi key [] d w of (_, item, d, w) \<Rightarrow> pop_items hi key n (insert item uids) d w)"

fun TryGetPop ::
  "('c, 'w) hiredis \<Rightarrow> string \<Rightarrow> u32 \<Rightarrow> string set \<Rightarrow> 'c CDataRedis list \<Rightarrow> 'w
     \<Rightarrow> bool \<times> string set \<times> 'c CDataRedis list \<times> 'w" where
  "TryGetPop hi key item_count uids [] w = (True, uids, [], w)"
| "TryGetPop hi key item_count uids (d # ds) w =
     (case Llen hi key item_count d w of
        (False, item_count, d, w) \<Rightarrow> (False, uids, d # ds, w)
      | (True, item_count, d, w) \<Rightarrow>
          (case pop_items hi key (min 3 (unat item_count)) uids d w of (uids, d, w) \<Rightarrow>
             (case TryGetPop hi key item_count uids ds w of (b, uids, ds, w) \<Rightarrow> (b, uids, d # ds, w))))"

section \<open>Lemmas\<close>

lemma shard_value:
  assumes "md5_ready m" "length uid < 2 ^ 32" "0 < n"
  shows "\<exists>m'. shard m uid n = Some (unat (load64 (take 8 (md5_ref (bytes_of uid)))) mod n, m') \<and> md5_ready m'"
proof -
  have "snd (Md5Final (Md5Update (Md5Init m) (bytes_of uid))) = md5_ref (bytes_of uid)"
    "md5_ready (fst (Md5Final (Md5Update (Md5Init m) (bytes_of uid))))"
    using assms by (auto intro: md5.hash_once md5.ready_once)
  then show ?thesis using assms(3)
    by (cases "Md5Final (Md5Update (Md5Init m) (bytes_of uid))") (simp add: shard_def Let_def)
qed

text \<open>The server of a key, as a function of the key alone.\<close>

definition shard_of :: "string \<Rightarrow> nat \<Rightarrow> nat" where
  "shard_of uid n = unat (load64 (take 8 (md5_ref (bytes_of uid)))) mod n"

text \<open>The class of the repository and OpenSSL choose the same server.\<close>

lemma md5_sum_shard: "shard_of uid n = unat (md5_sum md5_ref (bytes_of uid)) mod n"
  by (simp add: shard_of_def md5_sum_def)

lemma on_shard_eq:
  assumes "md5_ready (m_clMd5 a)" "length uid < 2 ^ 32" "servers a \<noteq> []"
    "oper (servers a ! shard_of uid (length (servers a))) w = Some (r, d, w')"
  obtains m' where "on_shard uid oper a w =
      Some (r, a\<lparr>servers := (servers a)[shard_of uid (length (servers a)) := d], m_clMd5 := m'\<rparr>, w')" "md5_ready m'"
  using shard_value [OF assms(1,2), of "length (servers a)"] assms(3,4)
  by (auto simp: on_shard_def shard_of_def)

lemma on_shard_Some:
  assumes "md5_ready (m_clMd5 a)" "length uid < 2 ^ 32" "on_shard uid oper a w = Some (r, a', w')"
  obtains d where "servers a \<noteq> []" "oper (servers a ! shard_of uid (length (servers a))) w = Some (r, d, w')"
    "servers a' = (servers a)[shard_of uid (length (servers a)) := d]" "md5_ready (m_clMd5 a')"
proof -
  have ne: "servers a \<noteq> []" using assms(3) by (auto simp: on_shard_def shard_def split: prod.splits)
  with shard_value [OF assms(1,2), of "length (servers a)"] assms(3) that show ?thesis
    by (auto simp: on_shard_def shard_of_def split: option.splits)
qed

lemma shard_of_less: "0 < n \<Longrightarrow> shard_of uid n < n"
  by (simp add: shard_of_def)

section \<open>Properties\<close>

text \<open>
  Sharding is a function of the key: an adapter operation on \<open>uid\<close> runs on the server
  whose number is the first eight digest bytes of the RFC 1321 hash of \<open>uid\<close> modulo the
  number of servers, whatever was hashed before, leaves every other server's client untouched, and
  leaves the hash object fit for the next call.
\<close>

theorem adapter_put_frame:
  assumes "md5_ready (m_clMd5 a)" "length uid < 2 ^ 32" "UserPut hi uid rule a w = Some (b, a', w')"
  shows "length (servers a') = length (servers a) \<and> md5_ready (m_clMd5 a')
    \<and> (\<forall>j < length (servers a). j \<noteq> unat (load64 (take 8 (md5_ref (bytes_of uid)))) mod length (servers a)
         \<longrightarrow> servers a' ! j = servers a ! j)"
  using assms(3) unfolding UserPut_def
  by (rule on_shard_Some [OF assms(1,2)]) (simp add: shard_of_def)

text \<open>
  A small Redis for the examples: string keys, one connection, and Redis's error for a
  \<^verbatim>\<open>SET\<close> without a value.
\<close>

definition kv_command :: "unit \<Rightarrow> string \<Rightarrow> redis_arg list \<Rightarrow> (string \<times> string) list \<Rightarrow> redisReply option \<times> (string \<times> string) list" where
  "kv_command c fmt args w =
     (if fmt = ''SET %s %s'' then
        (case args of [S k, S v] \<Rightarrow> (Some (REPLY_STATUS ''OK''), (k, v) # w) | _ \<Rightarrow> (Some (REPLY_ERROR ''ERR''), w))
      else if fmt = ''GET %s'' then
        (case args of [S k] \<Rightarrow> (Some (case map_of w k of None \<Rightarrow> REPLY_NIL | Some v \<Rightarrow> REPLY_STRING v), w)
         | _ \<Rightarrow> (Some (REPLY_ERROR ''ERR''), w))
      else if fmt = ''SET %s'' then (Some (REPLY_ERROR ''ERR wrong number of arguments''), w)
      else (Some (REPLY_STATUS ''OK''), w))"

definition kv_redis :: "(unit, (string \<times> string) list) hiredis" where
  "kv_redis = \<lparr>redisConnectWithTimeout = (\<lambda>h p t w. (Some ((), False), w)),
     redisCommand = kv_command, redisFree = (\<lambda>c w. w)\<rparr>"

definition one_server :: "unit CDataAdapter" where
  "one_server = \<lparr>servers = [new_CDataRedis], m_clMd5 = blank_md5\<rparr>"

lemma one_server_ready: "md5_ready (m_clMd5 one_server)"
  by (simp add: one_server_def md5_ready_def blank_md5_def)

lemma kv_put:
  "\<exists>a'. UserPut kv_redis ''k'' ''v'' one_server [] = Some (True, a', [(''k'', ''v'')])"
proof -
  have "SetValue kv_redis ''k'' ''v'' (- 1) new_CDataRedis [] =
      (True, new_CDataRedis\<lparr>r_context := Some ()\<rparr>, [(''k'', ''v'')])"
    by (simp add: SetValue_def call_def KeepConnect_def checked_command_def kv_redis_def kv_command_def new_CDataRedis_def)
  then show ?thesis
    using on_shard_eq [OF one_server_ready, of "''k''"
        "\<lambda>d w. Some (SetValue kv_redis ''k'' ''v'' (- 1) d w)" "[]" True
        "new_CDataRedis\<lparr>r_context := Some ()\<rparr>" "[(''k'', ''v'')]"]
    by (auto simp: UserPut_def one_server_def shard_of_def)
qed

theorem adapter_put_frame_witness:
  "\<exists>b a' w'. UserPut kv_redis ''k'' ''v'' one_server [] = Some (b, a', w') \<and> length (servers a') = 1"
proof -
  obtain a' where p: "UserPut kv_redis ''k'' ''v'' one_server [] = Some (True, a', [(''k'', ''v'')])"
    using kv_put by blast
  then show ?thesis using adapter_put_frame [OF one_server_ready _ p] by (auto simp: one_server_def)
qed

text \<open>
  C13. A value that \<open>UserPut\<close> stored is what \<open>UserGet\<close> returns: both choose the same
  server, and after a successful \<^verbatim>\<open>SET\<close> the connection to it is still open. The hypothesis
  on the server is Redis's: \<^verbatim>\<open>GET\<close> after a successful \<^verbatim>\<open>SET\<close> of the same key on
  the same connection returns the value.
\<close>

theorem adapter_put_get:
  assumes set_get: "\<And>c k v w r w'. redisCommand hi c ''SET %s %s'' [S k, S v] w = (Some r, w') \<Longrightarrow> \<not> is_error r
      \<Longrightarrow> \<exists>w''. redisCommand hi c ''GET %s'' [S k] w' = (Some (REPLY_STRING v), w'')"
    and "md5_ready (m_clMd5 a)" "length uid < 2 ^ 32" "cstr rule \<noteq> []"
    and put: "UserPut hi uid rule a w = Some (True, a', w')"
  shows "\<exists>a'' w''. UserGet hi uid out a' w' = Some ((True, cstr rule), a'', w'')"
proof -
  let ?i = "shard_of uid (length (servers a))"
  from put obtain d where ne: "servers a \<noteq> []"
    and st: "SetValue hi (cstr uid) (cstr rule) (- 1) (servers a ! ?i) w = (True, d, w')"
    and a': "servers a' = (servers a)[?i := d]" "md5_ready (m_clMd5 a')"
    unfolding UserPut_def by (rule on_shard_Some [OF assms(2,3)]) simp
  obtain r d1 w1 where c: "call hi ''SET %s %s'' [S (cstr uid), S (cstr rule)] (servers a ! ?i) w = (r, d1, w1)"
    by (metis prod_cases3)
  then have d: "d1 = d" "w1 = w'" "r \<noteq> None" using st by (auto simp: SetValue_def)
  then obtain rp where rp: "r = Some rp" by auto
  from call_succeeds [OF c [unfolded rp]] d obtain ctx w0 where "r_context d = Some ctx" "\<not> is_error rp"
      "redisCommand hi ctx ''SET %s %s'' [S (cstr uid), S (cstr rule)] w0 = (Some rp, w')" by auto
  from set_get [OF this(3,2)] \<open>r_context d = Some ctx\<close> obtain w'' where
    "call hi ''GET %s'' [S (cstr uid)] d w' = (Some (REPLY_STRING (cstr rule)), d, w'')"
    by (auto simp: call_def KeepConnect_def checked_command_def)
  then have g: "GetValue hi (cstr uid) out d w' = (True, cstr rule, d, w'')"
    using assms(4) by (simp add: GetValue_def reply_len_def reply_text_def)
  have len: "length (servers a') = length (servers a)" "servers a' \<noteq> []" "servers a' ! ?i = d"
    using a'(1) ne shard_of_less [of "length (servers a)" uid] by auto
  show ?thesis
    by (rule on_shard_eq [OF a'(2) assms(3) len(2),
          of "\<lambda>d w. value_result (GetValue hi (cstr uid) out d w)" w' "(True, cstr rule)" d w''])
       (use len g in \<open>auto simp: UserGet_def\<close>)
qed

theorem adapter_put_get_witness:
  "\<exists>a' w' a'' w''. UserPut kv_redis ''k'' ''v'' one_server [] = Some (True, a', w')
     \<and> UserGet kv_redis ''k'' [] a' w' = Some ((True, ''v''), a'', w'')"
proof -
  obtain a' where p: "UserPut kv_redis ''k'' ''v'' one_server [] = Some (True, a', [(''k'', ''v'')])"
    using kv_put by blast
  have "\<exists>a'' w''. UserGet kv_redis ''k'' [] a' [(''k'', ''v'')] = Some ((True, cstr ''v''), a'', w'')"
    by (rule adapter_put_get [OF _ one_server_ready _ _ p]) (auto simp: kv_redis_def kv_command_def)
  then show ?thesis using p by auto
qed

text \<open>
  \<open>UserDel\<close> deletes nothing: it passes the expiration -1 to \<open>DelValue\<close>, which sends
  \<^verbatim>\<open>DEL\<close> only for a positive one and otherwise a \<^verbatim>\<open>SET\<close> without a value. On any
  server that refuses that \<^verbatim>\<open>SET\<close>, as Redis does, \<open>UserDel\<close> fails.
\<close>

theorem user_del_always_fails:
  assumes refuses: "\<And>c k w. \<exists>e w'. redisCommand hi c ''SET %s'' [S k] w = (Some (REPLY_ERROR e), w')"
    and "md5_ready (m_clMd5 a)" "length uid < 2 ^ 32" "servers a \<noteq> []"
  shows "\<exists>a' w'. UserDel hi uid rule a w = Some (False, a', w')"
proof -
  let ?d = "servers a ! shard_of uid (length (servers a))"
  obtain r d' w' where c: "call hi ''SET %s'' [S (cstr uid)] ?d w = (r, d', w')" by (metis prod_cases3)
  have "r = None"
  proof (rule ccontr)
    assume "r \<noteq> None"
    then obtain rp where "r = Some rp" by auto
    from call_succeeds [OF c [unfolded this]] refuses show False by (metis Pair_inject is_error.simps(1) option.inject)
  qed
  then have d: "DelValue hi (cstr uid) (cstr rule) (- 1) ?d w = (False, d', w')" using c by (simp add: DelValue_def)
  show ?thesis
    by (rule on_shard_eq [OF assms(2-4), of "\<lambda>d w. Some (DelValue hi (cstr uid) (cstr rule) (- 1) d w)" w False d' w'])
       (use d in \<open>auto simp: UserDel_def\<close>)
qed

theorem user_del_always_fails_witness:
  "\<exists>a' w'. UserDel kv_redis ''k'' [] one_server [(''k'', ''v'')] = Some (False, a', w')"
  by (rule user_del_always_fails [OF _ one_server_ready]) (simp_all add: kv_redis_def kv_command_def one_server_def)

lemma shard_of_order: "shard_of ''order'' 2 = 0"
proof -
  have "bytes_of ''order'' = [0x6f, 0x72, 0x64, 0x65, 0x72]" by code_simp
  moreover have "take 8 (md5_ref [0x6f, 0x72, 0x64, 0x65, 0x72]) = [0x70, 0xa1, 0x7f, 0xfa, 0x72, 0x2a, 0x39, 0x85]"
    by code_simp
  ultimately show ?thesis by (simp add: shard_of_def)
qed

lemma shard_of_7: "shard_of ''7'' 2 = 1"
proof -
  have "bytes_of ''7'' = [0x37]" by code_simp
  moreover have "take 8 (md5_ref [0x37]) = [0x8f, 0x14, 0xe4, 0x5f, 0xce, 0xea, 0x16, 0x7a]" by code_simp
  ultimately show ?thesis by (simp add: shard_of_def)
qed

text \<open>
  The order queue is written and read on different servers: \<open>UserPutOrderSet\<close> hashes the
  score while \<open>UserGetSortedSet\<close> and \<open>UserRemoveSortedSet\<close> hash the key. With two
  servers the key \<^verbatim>\<open>order\<close> lives on server 0 and the score \<^verbatim>\<open>7\<close> is sent
  to server 1.
\<close>

theorem order_set_split_brain:
  assumes "md5_ready (m_clMd5 a)" "length (servers a) = 2"
    and put: "UserPutOrderSet hi ''order'' ''7'' member a w = Some (b, a', w')"
    and get: "UserGetSortedSet hi ''order'' out a' w' = Some (r, a'', w'')"
  shows "servers a' ! 0 = servers a ! 0 \<and> servers a'' ! 1 = servers a' ! 1
    \<and> (\<exists>d. opt_value_result (GetValueSortedSet hi ''order'' out (servers a ! 0) w') = Some (r, d, w''))"
proof -
  have sh: "length ''7'' < 2 ^ 32" "length ''order'' < 2 ^ 32" by simp_all
  from put obtain d where a': "servers a' = (servers a)[1 := d]" "md5_ready (m_clMd5 a')"
    unfolding UserPutOrderSet_def
    by (rule on_shard_Some [OF assms(1) sh(1)]) (simp_all add: assms(2) shard_of_7)
  have l: "length (servers a') = 2" using a' assms(2) by simp
  from get obtain e where "opt_value_result (GetValueSortedSet hi (cstr ''order'') out (servers a' ! 0) w') = Some (r, e, w'')"
      "servers a'' = (servers a')[0 := e]"
    unfolding UserGetSortedSet_def
    by (rule on_shard_Some [OF a'(2) sh(2)]) (simp_all add: l shard_of_order)
  then show ?thesis using a'(1) by auto
qed

definition two_servers :: "unit CDataAdapter" where
  "two_servers = \<lparr>servers = [new_CDataRedis, new_CDataRedis], m_clMd5 = blank_md5\<rparr>"

theorem order_set_split_brain_witness:
  "\<exists>b a' r a''. UserPutOrderSet kv_redis ''order'' ''7'' ''7'' two_servers [] = Some (b, a', [])
     \<and> UserGetSortedSet kv_redis ''order'' [] a' [] = Some (r, a'', []) \<and> servers a' ! 0 = new_CDataRedis"
proof -
  have r: "md5_ready (m_clMd5 two_servers)" by (simp add: two_servers_def md5_ready_def blank_md5_def)
  let ?on = "new_CDataRedis\<lparr>r_context := Some ()\<rparr> :: unit CDataRedis"
  have 1: "SetValueSortedSet kv_redis ''order'' ''7'' ''7'' new_CDataRedis [] = (True, ?on, [])"
    "GetValueSortedSet kv_redis ''order'' [] new_CDataRedis [] = Some (False, [], new_CDataRedis, [])"
    by (simp_all add: SetValueSortedSet_def GetValueSortedSet_def call_def KeepConnect_def checked_command_def
        kv_redis_def kv_command_def new_CDataRedis_def DisConnect_def)
  obtain m where p: "UserPutOrderSet kv_redis ''order'' ''7'' ''7'' two_servers [] =
      Some (True, two_servers\<lparr>servers := [new_CDataRedis, ?on], m_clMd5 := m\<rparr>, [])" and m: "md5_ready m"
    using on_shard_eq [OF r, of "''7''" "\<lambda>d w. Some (SetValueSortedSet kv_redis ''order'' ''7'' ''7'' d w)" "[]" True ?on "[]"]
    by (auto simp: UserPutOrderSet_def two_servers_def shard_of_7 1 numeral_2_eq_2 [symmetric])
  let ?a = "two_servers\<lparr>servers := [new_CDataRedis, ?on], m_clMd5 := m\<rparr>"
  obtain a'' where g: "UserGetSortedSet kv_redis ''order'' [] ?a [] = Some ((False, []), a'', [])"
    using on_shard_eq [of ?a "''order''" "\<lambda>d w. opt_value_result (GetValueSortedSet kv_redis ''order'' [] d w)" "[]"
        "(False, [])" new_CDataRedis "[]"] m
    by (auto simp: UserGetSortedSet_def shard_of_order 1 numeral_2_eq_2 [symmetric])
  have "servers ?a ! 0 = servers two_servers ! 0"
    using order_set_split_brain [OF r _ p g] by (simp add: two_servers_def)
  then show ?thesis using p g by (auto simp: two_servers_def)
qed

end
