(* ===== verification/Server.thy ===== *)
theory Server
  imports UserQueryStruct "HOL-Library.Multiset"
begin

text \<open>
  The event loop and the worker threads: \<^verbatim>\<open>src/src/UserQueryServer/UserQueryServer.cpp\<close>,
  \<^verbatim>\<open>UserQueryServerEpoll.cpp\<close> and \<open>Core\<close> of
  \<^verbatim>\<open>src/src/UserQueryWorkThreads/UserQueryWorkThreads.cpp\<close>.

  The state has the socket-task map of the server thread, the descriptors registered with epoll,
  the descriptors open in the process, the task objects that are allocated, and for every worker
  its task queue, the task it is running and its status queue. A worker holds its queue lock
  exactly while it runs a task, so \<open>MutexTryLock\<close> can succeed only on an idle worker. What
  the operating system decides is an argument: the result of each \<open>MutexTryLock\<close>
  (\<open>lk\<close>), of each registration (\<open>ok\<close>), the descriptor that \<^verbatim>\<open>accept\<close> returns and
  the result of the task.

  Granularity: one handler of the server thread, and the start and the end of one task of a
  worker, are single steps; the relation \<open>step\<close> interleaves them in any order. The status
  queues may also be drained one entry at a time (\<open>free_status\<close>). That the threads, with
  their locks, do nothing that these steps do not is shown in \<^verbatim>\<open>ThreadRefine\<close>.
\<close>

section \<open>State\<close>

text \<open>A task object: its address and the descriptor of the socket it was made with.\<close>

record Task =
  task_id :: nat
  task_fd :: int

record Worker =
  m_queUserQueryTask :: "Task list"
  running :: "Task option"
  m_vecTaskStauts :: "TASKSTATUS_S list"

record ServerState =
  m_mpSocketTask :: "(int, Task) smap"
  registered :: "int list"
  open_fds :: "int list"
  allocated :: "Task list"
  next_id :: nat
  workers :: "Worker list"

abbreviation NOFREE_THREAD :: int where "NOFREE_THREAD \<equiv> - 5"
abbreviation OTHERERROR :: int where "OTHERERROR \<equiv> - 1"

definition idle_worker :: Worker where
  "idle_worker = \<lparr>m_queUserQueryTask = [], running = None, m_vecTaskStauts = []\<rparr>"

definition map_erase :: "'k \<Rightarrow> ('k \<times> 'v) list \<Rightarrow> ('k \<times> 'v) list" where
  "map_erase k m = filter (\<lambda>(j, _). j \<noteq> k) m"

section \<open>Epoll\<close>

datatype epoll_op = EPOLL_CTL_ADD | EPOLL_CTL_DEL

definition BdxEpollCtr :: "bool \<Rightarrow> epoll_op \<Rightarrow> int \<Rightarrow> ServerState \<Rightarrow> bool \<times> ServerState" where
  "BdxEpollCtr ok iVerb iSockfd s =
     (if \<not> ok then (False, s)
      else case iVerb of
             EPOLL_CTL_ADD \<Rightarrow> (True, s\<lparr>registered := iSockfd # registered s\<rparr>)
           | EPOLL_CTL_DEL \<Rightarrow> (True, s\<lparr>registered := removeAll iSockfd (registered s)\<rparr>))"

definition close_fd :: "int \<Rightarrow> ServerState \<Rightarrow> ServerState" where
  "close_fd fd s = s\<lparr>open_fds := removeAll fd (open_fds s), registered := removeAll fd (registered s)\<rparr>"

definition delete_task :: "Task \<Rightarrow> ServerState \<Rightarrow> ServerState" where
  "delete_task t s = s\<lparr>allocated := removeAll t (allocated s)\<rparr>"

section \<open>The server thread\<close>

fun put_task_loop :: "(nat \<Rightarrow> int) \<Rightarrow> Task \<Rightarrow> nat \<Rightarrow> Worker list \<Rightarrow> int \<times> Worker list" where
  "put_task_loop lk t i [] = (NOFREE_THREAD, [])"
| "put_task_loop lk t i (x # xs) =
     (if lk i = 1 then (case put_task_loop lk t (i + 1) xs of (r, xs') \<Rightarrow> (r, x # xs'))
      else if lk i = 0 then (0, x\<lparr>m_queUserQueryTask := m_queUserQueryTask x @ [t]\<rparr> # xs)
      else (OTHERERROR, x # xs))"

definition BdxServerPutTask :: "(nat \<Rightarrow> int) \<Rightarrow> Task \<Rightarrow> ServerState \<Rightarrow> int \<times> ServerState" where
  "BdxServerPutTask lk t s =
     (case put_task_loop lk t 0 (workers s) of (r, ws) \<Rightarrow> (r, s\<lparr>workers := ws\<rparr>))"

definition BdxServerReadEvent :: "(nat \<Rightarrow> int) \<Rightarrow> int \<Rightarrow> ServerState \<Rightarrow> bool \<times> ServerState" where
  "BdxServerReadEvent lk iSockfd s =
     (case map_of (m_mpSocketTask s) iSockfd of
        None \<Rightarrow> (False, close_fd iSockfd s)
      | Some t \<Rightarrow>
          let s = snd (BdxEpollCtr True EPOLL_CTL_DEL iSockfd s);
              (iRes, s) = BdxServerPutTask lk t s
          in if iRes \<noteq> 0
             then let s = delete_task t s
                  in (False, s\<lparr>m_mpSocketTask := map_erase iSockfd (m_mpSocketTask s)\<rparr>)
             else (True, s))"

text \<open>
  A new connection; \<open>name\<close> is the global \<^verbatim>\<open>strServerName\<close>. For an unknown name the
  descriptor stays registered until the caller closes it.
\<close>

definition BdxServerGetTask :: "bool \<Rightarrow> string \<Rightarrow> int \<Rightarrow> ServerState \<Rightarrow> bool \<times> ServerState" where
  "BdxServerGetTask ok name fd s =
     (case BdxEpollCtr ok EPOLL_CTL_ADD fd s of
        (False, s) \<Rightarrow> (False, s)
      | (True, s) \<Rightarrow>
          if name = ''location'' then
            let t = \<lparr>task_id = next_id s, task_fd = fd\<rparr>
            in (True, s\<lparr>next_id := next_id s + 1, allocated := t # allocated s,
                        m_mpSocketTask := map_set fd t (m_mpSocketTask s)\<rparr>)
          else (False, s))"

text \<open>One finished task, and the two loops of \<open>BdxServerGetFreeTask\<close>.\<close>

definition free_one :: "(int \<Rightarrow> bool) \<Rightarrow> TASKSTATUS_S \<Rightarrow> ServerState \<Rightarrow> ServerState" where
  "free_one ok st s =
     (case map_of (m_mpSocketTask s) (m_iSockFd st) of
        None \<Rightarrow> s
      | Some t \<Rightarrow>
          if m_bStatus st then
            (case BdxEpollCtr (ok (m_iSockFd st)) EPOLL_CTL_ADD (m_iSockFd st) s of
               (True, s) \<Rightarrow> s
             | (False, s) \<Rightarrow>
                 (let s = delete_task t s
                  in s\<lparr>m_mpSocketTask := map_erase (m_iSockFd st) (m_mpSocketTask s)\<rparr>))
          else
            (let s = delete_task t s
             in s\<lparr>m_mpSocketTask := map_erase (m_iSockFd st) (m_mpSocketTask s)\<rparr>))"

fun drain_status :: "(int \<Rightarrow> bool) \<Rightarrow> TASKSTATUS_S list \<Rightarrow> ServerState \<Rightarrow> ServerState" where
  "drain_status ok [] s = s"
| "drain_status ok (st # sts) s = drain_status ok sts (free_one ok st s)"

fun free_task_loop :: "(int \<Rightarrow> bool) \<Rightarrow> nat \<Rightarrow> nat \<Rightarrow> ServerState \<Rightarrow> ServerState" where
  "free_task_loop ok i 0 s = s"
| "free_task_loop ok i (Suc n) s =
     (let sts = m_vecTaskStauts (workers s ! i);
          s = s\<lparr>workers := (workers s)[i := (workers s ! i)\<lparr>m_vecTaskStauts := []\<rparr>]\<rparr>
      in free_task_loop ok (i + 1) n (drain_status ok sts s))"

definition BdxServerGetFreeTask :: "(int \<Rightarrow> bool) \<Rightarrow> ServerState \<Rightarrow> bool \<times> ServerState" where
  "BdxServerGetFreeTask ok s = (True, free_task_loop ok 0 (length (workers s)) s)"

text \<open>
  One event of \<open>Core\<close>: on the listening socket \<open>accept\<close> returns a descriptor or fails;
  a failed registration closes it.
\<close>

datatype event = Accept "int option" bool | Readable int "nat \<Rightarrow> int"

definition handle_event :: "string \<Rightarrow> event \<Rightarrow> ServerState \<Rightarrow> ServerState" where
  "handle_event name ev s =
     (case ev of
        Accept None _ \<Rightarrow> s
      | Accept (Some fd) ok \<Rightarrow>
          (case BdxServerGetTask ok name fd (s\<lparr>open_fds := fd # open_fds s\<rparr>) of
             (True, s) \<Rightarrow> s
           | (False, s) \<Rightarrow> close_fd fd s)
      | Readable fd lk \<Rightarrow> snd (BdxServerReadEvent lk fd s))"

section \<open>A worker thread\<close>

text \<open>\<open>Core\<close> of the worker: take the front task under the lock; run it; report; unlock.\<close>

definition worker_start :: "Worker \<Rightarrow> Worker" where
  "worker_start x =
     (case m_queUserQueryTask x of
        [] \<Rightarrow> x
      | t # q \<Rightarrow> x\<lparr>m_queUserQueryTask := q, running := Some t\<rparr>)"

definition worker_finish :: "int \<Rightarrow> Worker \<Rightarrow> Worker" where
  "worker_finish iRes x =
     (case running x of
        None \<Rightarrow> x
      | Some t \<Rightarrow> x\<lparr>running := None,
          m_vecTaskStauts := m_vecTaskStauts x @ [\<lparr>m_iSockFd = task_fd t, m_bStatus = (iRes = 0)\<rparr>]\<rparr>)"

section \<open>Interleaving\<close>

definition init_server :: "nat \<Rightarrow> ServerState" where
  "init_server n = \<lparr>m_mpSocketTask = [], registered = [], open_fds = [], allocated = [], next_id = 0,
     workers = replicate n idle_worker\<rparr>"

text \<open>
  The guards are the environment's: \<open>accept\<close> returns a descriptor that is not open, an event
  is reported for a registered descriptor, and a trylock succeeds only on an idle worker.
\<close>

inductive step :: "string \<Rightarrow> ServerState \<Rightarrow> ServerState \<Rightarrow> bool" for name where
  free: "step name s (snd (BdxServerGetFreeTask ok s))"
| free_status: "i < length (workers s) \<Longrightarrow> m_vecTaskStauts (workers s ! i) = st # sts \<Longrightarrow>
    step name s (free_one ok st (s\<lparr>workers := (workers s)[i := (workers s ! i)\<lparr>m_vecTaskStauts := sts\<rparr>]\<rparr>))"
| accept: "fd \<notin> set (open_fds s) \<Longrightarrow> step name s (handle_event name (Accept (Some fd) ok) s)"
| accept_fails: "step name s (handle_event name (Accept None ok) s)"
| read: "fd \<in> set (registered s) \<Longrightarrow>
    (\<And>i. i < length (workers s) \<Longrightarrow> lk i = 0 \<Longrightarrow> running (workers s ! i) = None) \<Longrightarrow>
    step name s (handle_event name (Readable fd lk) s)"
| start: "i < length (workers s) \<Longrightarrow> running (workers s ! i) = None \<Longrightarrow>
    step name s (s\<lparr>workers := (workers s)[i := worker_start (workers s ! i)]\<rparr>)"
| finish: "i < length (workers s) \<Longrightarrow>
    step name s (s\<lparr>workers := (workers s)[i := worker_finish iRes (workers s ! i)]\<rparr>)"

inductive reachable :: "string \<Rightarrow> nat \<Rightarrow> ServerState \<Rightarrow> bool" for name n where
  init: "reachable name n (init_server n)"
| step: "reachable name n s \<Longrightarrow> step name s s' \<Longrightarrow> reachable name n s'"

section \<open>Where a connection is\<close>

text \<open>
  The descriptors a worker accounts for, and all places of the state that hold a connection:
  registered with epoll, queued, running, or reported back.
\<close>

definition held :: "Worker \<Rightarrow> Task list" where
  "held x = m_queUserQueryTask x @ (case running x of None \<Rightarrow> [] | Some t \<Rightarrow> [t])"

definition worker_fds :: "Worker \<Rightarrow> int multiset" where
  "worker_fds x = mset (map task_fd (held x)) + mset (map m_iSockFd (m_vecTaskStauts x))"

definition places :: "ServerState \<Rightarrow> int multiset" where
  "places s = mset (registered s) + sum_list (map worker_fds (workers s))"

text \<open>
  The invariant, with the connections \<open>P\<close> that the running handler has in its hands:
  every connection of the map is in exactly one place.
\<close>

definition server_inv :: "int multiset \<Rightarrow> ServerState \<Rightarrow> bool" where
  "server_inv P s \<longleftrightarrow>
     map_wf (m_mpSocketTask s)
     \<and> places s + P = mset (map fst (m_mpSocketTask s))
     \<and> (\<forall>(fd, t) \<in> set (m_mpSocketTask s). task_fd t = fd)
     \<and> (\<forall>x \<in> set (workers s). \<forall>t \<in> set (held x). map_of (m_mpSocketTask s) (task_fd t) = Some t)
     \<and> fst ` set (m_mpSocketTask s) \<subseteq> set (open_fds s)
     \<and> set (allocated s) = snd ` set (m_mpSocketTask s)"

lemma server_invD:
  assumes "server_inv P s"
  shows "map_wf (m_mpSocketTask s)" "places s + P = mset (map fst (m_mpSocketTask s))"
    "(fd, t) \<in> set (m_mpSocketTask s) \<Longrightarrow> task_fd t = fd"
    "x \<in> set (workers s) \<Longrightarrow> t \<in> set (held x) \<Longrightarrow> map_of (m_mpSocketTask s) (task_fd t) = Some t"
    "fst ` set (m_mpSocketTask s) \<subseteq> set (open_fds s)" "set (allocated s) = snd ` set (m_mpSocketTask s)"
  using assms unfolding server_inv_def by blast+

lemma fd_once:
  assumes "server_inv P s" shows "count (places s + P) fd \<le> 1"
proof -
  have "distinct (map fst (m_mpSocketTask s))" using server_invD(1) [OF assms] by (rule map_wf_distinct)
  then show ?thesis unfolding server_invD(2) [OF assms] by (simp add: distinct_count_atmost_1)
qed

lemma placed_in_map:
  assumes "server_inv P s" "fd \<in># places s + P"
  obtains t where "map_of (m_mpSocketTask s) fd = Some t" "task_fd t = fd"
proof -
  have "fd \<in> fst ` set (m_mpSocketTask s)" using assms(2) unfolding server_invD(2) [OF assms(1)] by simp
  then obtain t where "map_of (m_mpSocketTask s) fd = Some t" by (metis map_of_eq_None_iff not_Some_eq)
  moreover from this have "task_fd t = fd" using server_invD(3) [OF assms(1)] by (auto dest: map_of_SomeD)
  ultimately show ?thesis using that by blast
qed

lemma in_sum_list: "a \<in># sum_list (map f xs) \<longleftrightarrow> (\<exists>x \<in> set xs. a \<in># f x)"
  by (induction xs) auto

lemma sum_list_update_mset:
  "i < length xs \<Longrightarrow> sum_list (map f (xs[i := y])) + f (xs ! i) = sum_list (map f xs) + (f y :: 'b multiset)"
proof (induction xs arbitrary: i)
  case (Cons x xs)
  then show ?case by (cases i) (simp_all add: ac_simps)
qed simp

lemma worker_fds_in_places: "x \<in> set (workers s) \<Longrightarrow> fd \<in># worker_fds x \<Longrightarrow> fd \<in># places s"
  by (auto simp: places_def in_sum_list)

lemma map_of_erase: "map_of (map_erase k m) j = (if j = k then None else map_of m j)"
  unfolding map_erase_def by (induction m) auto

lemma map_wf_erase: "map_wf m \<Longrightarrow> map_wf (map_erase k m)"
  unfolding map_wf_def map_erase_def by (induction m) (auto simp: )

lemma mset_keys_erase:
  "distinct (map fst m) \<Longrightarrow> map_of m k = Some v \<Longrightarrow> mset (map fst m) = add_mset k (mset (map fst (map_erase k m)))"
  unfolding map_erase_def
proof (induction m)
  case (Cons e m)
  obtain a b where e: "e = (a, b)" by force
  show ?case
  proof (cases "a = k")
    case True
    then have "filter (\<lambda>(j, _). j \<noteq> k) m = m" using Cons.prems by (force simp: e filter_id_conv)
    then show ?thesis using True by (simp add: e)
  qed (use Cons in \<open>simp add: e\<close>)
qed simp


section \<open>The handlers keep the invariant\<close>

lemma inv_unregister:
  assumes "server_inv P s" "fd \<in> set (registered s)"
  shows "server_inv (add_mset fd P) (s\<lparr>registered := removeAll fd (registered s)\<rparr>)"
proof -
  have "count (mset (registered s)) fd \<le> 1" using fd_once [OF assms(1), of fd] by (simp add: places_def)
  moreover have "count (mset (registered s)) fd > 0" using assms(2) by (simp add: count_greater_zero_iff)
  ultimately have "count (mset (registered s)) fd = 1" by linarith
  then have "mset (registered s) = add_mset fd (mset (removeAll fd (registered s)))"
    by (intro multiset_eqI) (auto simp: removeAll_filter_not_eq mset_filter)
  then show ?thesis using assms(1) by (simp add: server_inv_def places_def held_def)
qed

lemma inv_register:
  "server_inv (add_mset fd P) s \<Longrightarrow> server_inv P (s\<lparr>registered := fd # registered s\<rparr>)"
  by (simp add: server_inv_def places_def held_def)

lemma inv_erase:
  assumes inv: "server_inv (add_mset fd P) s" and t: "map_of (m_mpSocketTask s) fd = Some t"
  shows "server_inv P (s\<lparr>allocated := removeAll t (allocated s), m_mpSocketTask := map_erase fd (m_mpSocketTask s)\<rparr>)"
proof -
  note D = server_invD [OF inv]
  have "count (places s) fd = 0" using fd_once [OF inv, of fd] by simp
  then have out: "fd \<notin># places s" by (simp add: count_eq_zero_iff)
  have held: "task_fd u \<noteq> fd" if "x \<in> set (workers s)" "u \<in> set (held x)" for x u
    using out worker_fds_in_places [OF that(1), of "task_fd u"] that(2) by (auto simp: worker_fds_def)
  have keys: "mset (map fst (m_mpSocketTask s)) = add_mset fd (mset (map fst (map_erase fd (m_mpSocketTask s))))"
    using mset_keys_erase [OF map_wf_distinct [OF D(1)] t] .
  have "snd ` set (map_erase fd (m_mpSocketTask s)) = snd ` set (m_mpSocketTask s) - {t}"
  proof -
    have tfd: "task_fd t = fd" using D(3) t by (auto dest: map_of_SomeD)
    have "u = t \<longleftrightarrow> j = fd" if "(j, u) \<in> set (m_mpSocketTask s)" for j u
      using that D(1,3) t tfd by (metis map_wf_of option.inject)
    then show ?thesis unfolding map_erase_def by force
  qed
  moreover have sub: "set (map_erase fd (m_mpSocketTask s)) \<subseteq> set (m_mpSocketTask s)" by (auto simp: map_erase_def)
  moreover have "fst ` set (map_erase fd (m_mpSocketTask s)) \<subseteq> set (open_fds s)" using D(5) sub by blast
  moreover have "places s + P = mset (map fst (map_erase fd (m_mpSocketTask s)))" using D(2) keys by simp
  ultimately show ?thesis
    using D(1,3,4,6) held unfolding server_inv_def
    by (auto simp: places_def map_wf_erase map_of_erase simp del: mset_map)
qed

lemma inv_new_task:
  assumes inv: "server_inv P s" and fd: "fd \<notin> set (open_fds s)"
    and t: "t = \<lparr>task_id = n, task_fd = fd\<rparr>"
  shows "server_inv P (s\<lparr>open_fds := fd # open_fds s, registered := fd # registered s, next_id := n',
    allocated := t # allocated s, m_mpSocketTask := map_set fd t (m_mpSocketTask s)\<rparr>)"
proof -
  note D = server_invD [OF inv]
  have tfd: "task_fd t = fd" by (simp add: t)
  have new: "fd \<notin> fst ` set (m_mpSocketTask s)" using D(5) fd by blast
  have set: "set (map_set fd t m) = insert (fd, t) (set m)"
    and keys: "mset (map fst (map_set fd t m)) = add_mset fd (mset (map fst m))"
    if "fd \<notin> fst ` set m" for m :: "(int \<times> Task) list"
    using that by (induction fd t m rule: map_set.induct) auto
  have held: "task_fd u \<noteq> fd" if "x \<in> set (workers s)" "u \<in> set (held x)" for x u
    using D(4) [OF that] new by (metis map_of_eq_None_iff option.distinct(1))
  show ?thesis
    using D held new unfolding server_inv_def
    by (auto simp: places_def map_wf_set set [OF new] keys [OF new] tfd simp del: mset_map)
qed

text \<open>Replacing a worker by one that accounts for other descriptors.\<close>

lemma inv_worker:
  assumes inv: "server_inv P s" and i: "i < length (workers s)"
    and fds: "worker_fds x + Q = worker_fds (workers s ! i) + P"
    and held: "\<And>t. t \<in> set (held x) \<Longrightarrow> map_of (m_mpSocketTask s) (task_fd t) = Some t"
  shows "server_inv Q (s\<lparr>workers := (workers s)[i := x]\<rparr>)"
proof -
  note D = server_invD [OF inv]
  have "places (s\<lparr>workers := (workers s)[i := x]\<rparr>) + Q + worker_fds (workers s ! i)
      = places s + P + worker_fds (workers s ! i)"
    using sum_list_update_mset [OF i, of worker_fds x] fds by (simp add: places_def ac_simps)
  then have "places (s\<lparr>workers := (workers s)[i := x]\<rparr>) + Q = places s + P" by simp
  moreover have "map_of (m_mpSocketTask s) (task_fd t) = Some t"
    if "y \<in> set ((workers s)[i := x])" "t \<in> set (held y)" for y t
  proof -
    have "y = x \<or> y \<in> set (workers s)" using set_update_subset_insert that(1) by fastforce
    then show ?thesis using held D(4) that(2) by blast
  qed
  ultimately show ?thesis using D(1-3,5,6) unfolding server_inv_def by auto
qed

lemma inv_start:
  assumes "server_inv P s" "i < length (workers s)" "running (workers s ! i) = None"
  shows "server_inv P (s\<lparr>workers := (workers s)[i := worker_start (workers s ! i)]\<rparr>)"
proof (rule inv_worker [OF assms(1,2)])
  let ?x = "workers s ! i"
  have h: "mset (held (worker_start ?x)) = mset (held ?x)"
    using assms(3) by (auto simp: worker_start_def held_def split: list.split)
  have "m_vecTaskStauts (worker_start ?x) = m_vecTaskStauts ?x" by (simp add: worker_start_def split: list.split)
  then show "worker_fds (worker_start ?x) + P = worker_fds ?x + P" using h by (simp add: worker_fds_def)
  show "map_of (m_mpSocketTask s) (task_fd t) = Some t" if "t \<in> set (held (worker_start ?x))" for t
    using that server_invD(4) [OF assms(1), of ?x t] assms(2) h by (metis mset_eq_setD nth_mem)
qed

lemma inv_finish:
  assumes "server_inv P s" "i < length (workers s)"
  shows "server_inv P (s\<lparr>workers := (workers s)[i := worker_finish iRes (workers s ! i)]\<rparr>)"
proof (rule inv_worker [OF assms])
  let ?x = "workers s ! i"
  show "worker_fds (worker_finish iRes ?x) + P = worker_fds ?x + P"
    by (simp add: worker_finish_def worker_fds_def held_def split: option.split)
  show "map_of (m_mpSocketTask s) (task_fd t) = Some t" if "t \<in> set (held (worker_finish iRes ?x))" for t
  proof -
    have "t \<in> set (held ?x)" using that by (auto simp: worker_finish_def held_def split: option.splits)
    then show ?thesis using server_invD(4) [OF assms(1), of ?x t] assms(2) by simp
  qed
qed

lemma put_task_loop_cases:
  "put_task_loop lk t i xs = (r, ys) \<Longrightarrow>
   (r \<noteq> 0 \<and> ys = xs) \<or>
   (r = 0 \<and> (\<exists>j < length xs. ys = xs[j := (xs ! j)\<lparr>m_queUserQueryTask := m_queUserQueryTask (xs ! j) @ [t]\<rparr>]))"
proof (induction xs arbitrary: i r ys)
  case (Cons x xs)
  show ?case
  proof (cases "lk i = 1")
    case True
    obtain r' zs where p: "put_task_loop lk t (i + 1) xs = (r', zs)" by force
    with Cons.prems True have "r = r'" "ys = x # zs" by auto
    with Cons.IH [OF p] show ?thesis by (auto intro: exI [of _ "Suc _"])
  next
    case False
    then show ?thesis using Cons.prems by (auto split: if_splits)
  qed
qed auto

lemma inv_put_task:
  assumes inv: "server_inv (add_mset fd P) s" and t: "map_of (m_mpSocketTask s) fd = Some t" "task_fd t = fd"
    and p: "BdxServerPutTask lk t s = (r, s')"
  shows "if r = 0 then server_inv P s' else s' = s"
proof -
  obtain ys where l: "put_task_loop lk t 0 (workers s) = (r, ys)" and s': "s' = s\<lparr>workers := ys\<rparr>"
    using p by (auto simp: BdxServerPutTask_def split: prod.splits)
  from put_task_loop_cases [OF l] show ?thesis
  proof
    assume "r \<noteq> 0 \<and> ys = workers s"
    then show ?thesis by (simp add: s')
  next
    assume "r = 0 \<and> (\<exists>j < length (workers s). ys = (workers s)[j := (workers s ! j)\<lparr>m_queUserQueryTask := m_queUserQueryTask (workers s ! j) @ [t]\<rparr>])"
    then obtain j where r: "r = 0" and j: "j < length (workers s)"
      and ys: "ys = (workers s)[j := (workers s ! j)\<lparr>m_queUserQueryTask := m_queUserQueryTask (workers s ! j) @ [t]\<rparr>]" by auto
    have "server_inv P s'" unfolding s' ys
    proof (rule inv_worker [OF inv j])
      let ?x = "workers s ! j"
      let ?y = "?x\<lparr>m_queUserQueryTask := m_queUserQueryTask ?x @ [t]\<rparr>"
      show "worker_fds ?y + P = worker_fds ?x + add_mset fd P" using t(2) by (simp add: worker_fds_def held_def)
      show "map_of (m_mpSocketTask s) (task_fd u) = Some u" if "u \<in> set (held ?y)" for u
      proof -
        have "u = t \<or> u \<in> set (held ?x)" using that by (auto simp: held_def)
        then show ?thesis using t server_invD(4) [OF inv, of ?x u] j by auto
      qed
    qed
    then show ?thesis using r by simp
  qed
qed

lemma inv_free_one:
  assumes inv: "server_inv (add_mset (m_iSockFd st) P) s"
  shows "server_inv P (free_one ok st s)"
proof -
  obtain t where t: "map_of (m_mpSocketTask s) (m_iSockFd st) = Some t"
    using placed_in_map [OF inv, of "m_iSockFd st"] by auto
  have e: "server_inv P (s\<lparr>allocated := removeAll t (allocated s),
      m_mpSocketTask := map_erase (m_iSockFd st) (m_mpSocketTask s)\<rparr>)"
    using inv_erase [OF inv t] .
  show ?thesis
    using e inv_register [OF inv] t
    by (auto simp: free_one_def BdxEpollCtr_def delete_task_def Let_def)
qed

lemma inv_drain:
  "server_inv (P + mset (map m_iSockFd sts)) s \<Longrightarrow> server_inv P (drain_status ok sts s)"
  by (induction sts arbitrary: s) (auto intro: inv_free_one)

lemma free_one_workers [simp]: "workers (free_one ok st s) = workers s"
  by (auto simp: free_one_def BdxEpollCtr_def delete_task_def Let_def split: option.split)

lemma drain_workers [simp]: "workers (drain_status ok sts s) = workers s"
  by (induction sts arbitrary: s) auto

lemma inv_free_loop:
  "server_inv {#} s \<Longrightarrow> i + n \<le> length (workers s) \<Longrightarrow> server_inv {#} (free_task_loop ok i n s)"
proof (induction n arbitrary: i s)
  case (Suc n)
  let ?x = "workers s ! i"
  let ?sts = "m_vecTaskStauts ?x"
  let ?s = "s\<lparr>workers := (workers s)[i := ?x\<lparr>m_vecTaskStauts := []\<rparr>]\<rparr>"
  have i: "i < length (workers s)" using Suc.prems by simp
  have "server_inv (mset (map m_iSockFd ?sts)) ?s"
  proof (rule inv_worker [OF Suc.prems(1) i])
    show "worker_fds (?x\<lparr>m_vecTaskStauts := []\<rparr>) + mset (map m_iSockFd ?sts) = worker_fds ?x + {#}"
      by (simp add: worker_fds_def held_def)
    show "map_of (m_mpSocketTask s) (task_fd t) = Some t" if "t \<in> set (held (?x\<lparr>m_vecTaskStauts := []\<rparr>))" for t
      using that server_invD(4) [OF Suc.prems(1), of ?x t] i by (simp add: held_def)
  qed
  then have "server_inv {#} (drain_status ok ?sts ?s)" by (intro inv_drain) simp
  then show ?case using Suc.IH [of "drain_status ok ?sts ?s" "i + 1"] Suc.prems(2) by (simp add: Let_def)
qed simp

lemma inv_free_status:
  assumes inv: "server_inv P s" and i: "i < length (workers s)" and st: "m_vecTaskStauts (workers s ! i) = st # sts"
  shows "server_inv P (free_one ok st (s\<lparr>workers := (workers s)[i := (workers s ! i)\<lparr>m_vecTaskStauts := sts\<rparr>]\<rparr>))"
proof (rule inv_free_one, rule inv_worker [OF inv i])
  let ?x = "workers s ! i"
  show "worker_fds (?x\<lparr>m_vecTaskStauts := sts\<rparr>) + add_mset (m_iSockFd st) P = worker_fds ?x + P"
    by (simp add: worker_fds_def held_def st)
  show "map_of (m_mpSocketTask s) (task_fd t) = Some t" if "t \<in> set (held (?x\<lparr>m_vecTaskStauts := sts\<rparr>))" for t
    using that server_invD(4) [OF inv, of ?x t] i by (simp add: held_def)
qed

lemma inv_read:
  assumes inv: "server_inv {#} s" and fd: "fd \<in> set (registered s)"
  shows "server_inv {#} (snd (BdxServerReadEvent lk fd s)) \<and> open_fds (snd (BdxServerReadEvent lk fd s)) = open_fds s"
proof -
  have "fd \<in># places s + {#}" using fd by (simp add: places_def)
  then obtain t where t: "map_of (m_mpSocketTask s) fd = Some t" "task_fd t = fd" by (rule placed_in_map [OF inv])
  let ?s = "s\<lparr>registered := removeAll fd (registered s)\<rparr>"
  have inv': "server_inv (add_mset fd {#}) ?s" using inv fd by (rule inv_unregister)
  obtain r s' where p: "BdxServerPutTask lk t ?s = (r, s')" by force
  have o: "open_fds s' = open_fds s" using p by (auto simp: BdxServerPutTask_def split: prod.splits)
  have q: "if r = 0 then server_inv {#} s' else s' = ?s" using inv_put_task [OF inv' _ t(2) p] t(1) by simp
  have e: "server_inv {#} (?s\<lparr>allocated := removeAll t (allocated ?s), m_mpSocketTask := map_erase fd (m_mpSocketTask ?s)\<rparr>)"
    using inv_erase [OF inv', of t] t(1) by simp
  show ?thesis
    using p q e o t(1)
    by (cases "r = 0") (simp_all add: BdxServerReadEvent_def BdxEpollCtr_def Let_def delete_task_def)
qed

lemma inv_accept:
  assumes inv: "server_inv {#} s" and fd: "fd \<notin> set (open_fds s)"
  shows "server_inv {#} (handle_event name (Accept (Some fd) ok) s)
    \<and> set (open_fds s) \<subseteq> set (open_fds (handle_event name (Accept (Some fd) ok) s))"
proof -
  have "fd \<notin> set (registered s)"
  proof
    assume "fd \<in> set (registered s)"
    then have "fd \<in># places s + {#}" by (simp add: places_def)
    then obtain t where "map_of (m_mpSocketTask s) fd = Some t" by (rule placed_in_map [OF inv])
    then have "fd \<in> fst ` set (m_mpSocketTask s)" by (metis map_of_eq_None_iff option.distinct(1))
    then show False using server_invD(5) [OF inv] fd by blast
  qed
  then have "close_fd fd (s\<lparr>open_fds := fd # open_fds s\<rparr>) = s"
    "close_fd fd (s\<lparr>open_fds := fd # open_fds s, registered := fd # registered s\<rparr>) = s"
    using fd by (simp_all add: close_fd_def)
  moreover have "server_inv {#} (s\<lparr>open_fds := fd # open_fds s, registered := fd # registered s, next_id := next_id s + 1,
      allocated := \<lparr>task_id = next_id s, task_fd = fd\<rparr> # allocated s,
      m_mpSocketTask := map_set fd \<lparr>task_id = next_id s, task_fd = fd\<rparr> (m_mpSocketTask s)\<rparr>)"
    by (rule inv_new_task [OF inv fd refl])
  ultimately show ?thesis using inv
    by (auto simp: handle_event_def BdxServerGetTask_def BdxEpollCtr_def Let_def)
qed

lemma free_one_open [simp]: "open_fds (free_one ok st s) = open_fds s"
  by (auto simp: free_one_def BdxEpollCtr_def delete_task_def Let_def split: option.split)

lemma drain_open [simp]: "open_fds (drain_status ok sts s) = open_fds s"
  by (induction sts arbitrary: s) auto

lemma free_loop_open [simp]: "open_fds (free_task_loop ok i n s) = open_fds s"
  by (induction n arbitrary: i s) (auto simp: Let_def)

lemma step_inv:
  assumes "step name s s'" "server_inv {#} s"
  shows "server_inv {#} s' \<and> set (open_fds s) \<subseteq> set (open_fds s')"
  using assms
proof cases
  case (free ok)
  then show ?thesis using inv_free_loop [OF assms(2), of 0 "length (workers s)" ok] by (simp add: BdxServerGetFreeTask_def)
next
  case (free_status i st sts ok)
  then show ?thesis using inv_free_status [OF assms(2)] by simp
next
  case (accept fd ok)
  then show ?thesis using inv_accept [OF assms(2)] by simp
next
  case (accept_fails ok)
  then show ?thesis using assms(2) by (simp add: handle_event_def)
next
  case (read fd lk)
  then show ?thesis using inv_read [OF assms(2)] by (simp add: handle_event_def)
next
  case (start i)
  then show ?thesis using inv_start [OF assms(2)] by simp
next
  case (finish i iRes)
  then show ?thesis using inv_finish [OF assms(2)] by simp
qed

lemma reachable_inv: "reachable name n s \<Longrightarrow> server_inv {#} s"
proof (induction rule: reachable.induct)
  case init
  have "sum_list (map worker_fds (replicate n idle_worker)) = {#}"
    by (induction n) (simp_all add: worker_fds_def held_def idle_worker_def)
  then show ?case
    by (auto simp: server_inv_def init_server_def places_def held_def idle_worker_def simp del: map_replicate)
qed (use step_inv in blast)

section \<open>Properties\<close>


lemma one_accept:
  "reachable ''location'' 2 (handle_event ''location'' (Accept (Some 7) True) (init_server 2))"
  by (rule reachable.step [OF reachable.init], rule step.accept) (simp add: init_server_def)




end
