(* ===== verification/Files.thy ===== *)
theory Files
  imports UserQueryMain
begin

text \<open>
  File helpers: \<^verbatim>\<open>src/src/CommonTools/File/File.cpp\<close> and the copy of them in
  \<^verbatim>\<open>CLOGFile\<close> of \<^verbatim>\<open>src/src/CommonTools/Log/Log.cpp\<close>, over a small file system:
  the directories that exist and the contents of the regular files, both named by their path
  components. \<^verbatim>\<open>mkdir\<close> and the modes of \<^verbatim>\<open>fopen\<close> fail for the reasons visible
  here (missing parent, name taken), not for lack of space or permission.
\<close>

section \<open>A file system\<close>

type_synonym path = "bool \<times> string list"

record FS =
  dirs :: "path list"
  files :: "(path \<times> string) list"

text \<open>Absolute or relative, and the components without empty ones and \<^verbatim>\<open>.\<close>; a component \<^verbatim>\<open>..\<close> is kept as a name.\<close>

definition canon :: "string \<Rightarrow> path" where
  "canon p = (p \<noteq> [] \<and> hd p = CHR ''/'', filter (\<lambda>c. c \<noteq> ''.'') (strtok (CHR ''/'') p))"

definition parent :: "path \<Rightarrow> path" where
  "parent p = (fst p, butlast (snd p))"

definition is_dir :: "path \<Rightarrow> FS \<Rightarrow> bool" where
  "is_dir p fs \<longleftrightarrow> snd p = [] \<or> p \<in> set (dirs fs)"

definition is_file :: "path \<Rightarrow> FS \<Rightarrow> bool" where
  "is_file p fs \<longleftrightarrow> map_of (files fs) p \<noteq> None"

definition os_access :: "string \<Rightarrow> FS \<Rightarrow> bool" where
  "os_access p fs \<longleftrightarrow>
     p \<noteq> [] \<and> (is_dir (canon p) fs \<or> is_file (canon p) fs \<and> last p \<noteq> CHR ''/'')"

definition os_mkdir :: "string \<Rightarrow> FS \<Rightarrow> bool \<times> FS" where
  "os_mkdir p fs =
     (if p = [] \<or> is_dir (canon p) fs \<or> is_file (canon p) fs \<or> \<not> is_dir (parent (canon p)) fs
      then (False, fs)
      else (True, fs\<lparr>dirs := canon p # dirs fs\<rparr>))"

definition file_text :: "path \<Rightarrow> FS \<Rightarrow> string" where
  "file_text p fs = (case map_of (files fs) p of None \<Rightarrow> [] | Some t \<Rightarrow> t)"

definition put_file :: "path \<Rightarrow> string \<Rightarrow> FS \<Rightarrow> FS" where
  "put_file p t fs = fs\<lparr>files := (p, t) # filter (\<lambda>e. fst e \<noteq> p) (files fs)\<rparr>"

text \<open>
  \<^verbatim>\<open>fopen\<close> in the modes r, w and a (the program uses no other): the stream is named by its path.
\<close>

definition os_fopen :: "string \<Rightarrow> string \<Rightarrow> FS \<Rightarrow> path option \<times> FS" where
  "os_fopen p mode fs =
     (let q = canon p in
      if p = [] \<or> last p = CHR ''/'' \<or> is_dir q fs then (None, fs)
      else if mode = ''r'' then (if is_file q fs then Some q else None, fs)
      else if \<not> is_dir (parent q) fs then (None, fs)
      else if mode = ''w'' then (Some q, put_file q [] fs)
      else if mode = ''a'' then (Some q, if is_file q fs then fs else put_file q [] fs)
      else (None, fs))"

definition os_fwrite :: "path \<Rightarrow> string \<Rightarrow> FS \<Rightarrow> FS" where
  "os_fwrite q t fs = put_file q (file_text q fs @ t) fs"

section \<open>CFile\<close>

definition FileBeExists :: "string \<Rightarrow> FS \<Rightarrow> bool" where
  "FileBeExists pchPath fs = os_access (cstr pchPath) fs"

text \<open>The loop makes every prefix that ends in a slash, then the whole path.\<close>

fun creat_dir_loop :: "string \<Rightarrow> nat \<Rightarrow> nat \<Rightarrow> FS \<Rightarrow> bool \<times> FS" where
  "creat_dir_loop p i 0 fs =
     (if FileBeExists (take i p) fs then (True, fs) else os_mkdir (take i p) fs)"
| "creat_dir_loop p i (Suc n) fs =
     (if p ! i = CHR ''/'' then
        if FileBeExists (take (i + 1) p) fs then creat_dir_loop p (i + 1) n fs
        else (case os_mkdir (take (i + 1) p) fs of
                (True, fs) \<Rightarrow> creat_dir_loop p (i + 1) n fs
              | (False, fs) \<Rightarrow> (False, fs))
      else creat_dir_loop p (i + 1) n fs)"

definition FileCreatDir :: "string \<Rightarrow> FS \<Rightarrow> bool \<times> FS" where
  "FileCreatDir pchPath fs = (let p = cstr pchPath in creat_dir_loop p 0 (length p) fs)"

definition dir_entries :: "path \<Rightarrow> path list \<Rightarrow> string list" where
  "dir_entries q ps = map (last \<circ> snd) (filter (\<lambda>p. snd p \<noteq> [] \<and> parent p = q) ps)"

text \<open>Names that start with a dot are left out (\<^verbatim>\<open>strncmp(name, ".", 1)\<close>).\<close>

definition FileListDirs :: "string \<Rightarrow> string list \<Rightarrow> FS \<Rightarrow> bool \<times> string list" where
  "FileListDirs pchPath vecDirs fs =
     (if \<not> FileBeExists pchPath fs \<or> \<not> is_dir (canon (cstr pchPath)) fs then (False, vecDirs)
      else (True, vecDirs @ filter (\<lambda>n. take 1 n \<noteq> ''.'' \<and> take 2 n \<noteq> ''..'')
                                   (dir_entries (canon (cstr pchPath)) (dirs fs))))"

definition FileListFiles :: "string \<Rightarrow> string list \<Rightarrow> FS \<Rightarrow> bool \<times> string list" where
  "FileListFiles pchPath vecFiles fs =
     (if \<not> FileBeExists pchPath fs \<or> \<not> is_dir (canon (cstr pchPath)) fs then (False, vecFiles)
      else (True, vecFiles @ dir_entries (canon (cstr pchPath)) (map fst (files fs))))"

text \<open>The first overload assigns the buffer as a C string; the second returns it whole.\<close>

definition FileReadFile :: "string \<Rightarrow> FS \<Rightarrow> string option" where
  "FileReadFile pchFileName fs =
     (case os_fopen (cstr pchFileName) ''r'' fs of
        (None, _) \<Rightarrow> None
      | (Some q, _) \<Rightarrow> Some (cstr (file_text q fs)))"

definition FileReadFile2 :: "string \<Rightarrow> FS \<Rightarrow> (string \<times> nat) option" where
  "FileReadFile2 pchFileName fs =
     (case os_fopen (cstr pchFileName) ''r'' fs of
        (None, _) \<Rightarrow> None
      | (Some q, _) \<Rightarrow> Some (file_text q fs, length (file_text q fs)))"

text \<open>\<^verbatim>\<open>fwrite(p, len, 1, f)\<close> returns 0 for \<open>len = 0\<close>, which the code takes for a failure.\<close>

definition FileWriteFile :: "string \<Rightarrow> string \<Rightarrow> string \<Rightarrow> FS \<Rightarrow> bool \<times> FS" where
  "FileWriteFile pchMode pchFileName pchContent fs =
     (case os_fopen (cstr pchFileName) pchMode fs of
        (None, fs) \<Rightarrow> (False, fs)
      | (Some q, fs) \<Rightarrow>
          if pchMode = ''r'' \<or> pchContent = [] then (False, fs)
          else (True, os_fwrite q pchContent fs))"

definition FileGetFileLength :: "string \<Rightarrow> FS \<Rightarrow> int" where
  "FileGetFileLength pchFileName fs =
     (case os_fopen (cstr pchFileName) ''r'' fs of
        (None, _) \<Rightarrow> - 1
      | (Some q, _) \<Rightarrow> int (length (file_text q fs)))"

definition FileRemoveFile :: "string \<Rightarrow> FS \<Rightarrow> bool \<times> FS" where
  "FileRemoveFile pchFileName fs =
     (let q = canon (cstr pchFileName) in
      if \<not> os_access (cstr pchFileName) fs then (False, fs)
      else if is_file q fs then (True, fs\<lparr>files := filter (\<lambda>e. fst e \<noteq> q) (files fs)\<rparr>)
      else if is_dir q fs \<and> snd q \<noteq> [] \<and> dir_entries q (dirs fs) = [] \<and> dir_entries q (map fst (files fs)) = []
      then (True, fs\<lparr>dirs := removeAll q (dirs fs)\<rparr>)
      else (False, fs))"

section \<open>CLOGFile\<close>

text \<open>The same member functions again, in the logger's base class.\<close>

definition LogFileBeExists where "LogFileBeExists pchPath fs = FileBeExists pchPath fs"
definition LogFileCreatDir where "LogFileCreatDir pchPath fs = FileCreatDir pchPath fs"
definition LogFileListDirs where "LogFileListDirs pchPath vecDirs fs = FileListDirs pchPath vecDirs fs"
definition LogFileListFiles where "LogFileListFiles pchPath vecFiles fs = FileListFiles pchPath vecFiles fs"
definition LogFileReadFile where "LogFileReadFile pchFileName fs = FileReadFile pchFileName fs"
definition LogFileReadFile2 where "LogFileReadFile2 pchFileName fs = FileReadFile2 pchFileName fs"
definition LogFileWriteFile where
  "LogFileWriteFile pchMode pchFileName pchContent fs = FileWriteFile pchMode pchFileName pchContent fs"
definition LogFileGetFileLength where "LogFileGetFileLength pchFileName fs = FileGetFileLength pchFileName fs"
definition LogFileRemoveFile where "LogFileRemoveFile pchFileName fs = FileRemoveFile pchFileName fs"

section \<open>Reading back what was written\<close>

lemma map_of_filter_ne:
  "map_of (filter (\<lambda>e. fst e \<noteq> q) m) p = (if p = q then None else map_of m p)"
  by (induction m) auto

lemma file_text_put [simp]: "file_text p (put_file q t fs) = (if p = q then t else file_text p fs)"
  by (simp add: file_text_def put_file_def map_of_filter_ne)

lemma is_file_put [simp]: "is_file p (put_file q t fs) \<longleftrightarrow> p = q \<or> is_file p fs"
  by (simp add: is_file_def put_file_def map_of_filter_ne)

lemma is_dir_put [simp]: "is_dir p (put_file q t fs) = is_dir p fs"
  by (simp add: is_dir_def put_file_def)



section \<open>Opening a stream\<close>

lemma os_fopen_a_text: "os_fopen p ''a'' fs = (r, fs') \<Longrightarrow> file_text q fs' = file_text q fs"
  by (auto simp: os_fopen_def Let_def is_file_def file_text_def put_file_def map_of_filter_ne
      split: if_splits option.splits)

lemma os_fopen_name: "os_fopen p m fs = (Some q, fs') \<Longrightarrow> q = canon p"
  by (auto simp: os_fopen_def Let_def split: if_splits)

section \<open>Making a directory path\<close>

text \<open>A prefix that is empty or ends in a slash.\<close>

definition slashed :: "string \<Rightarrow> bool" where
  "slashed a \<longleftrightarrow> a = [] \<or> last a = CHR ''/''"

lemma strtok_slashed: "slashed a \<Longrightarrow> strtok (CHR ''/'') (a @ y) = strtok (CHR ''/'') a @ strtok (CHR ''/'') y"
proof (cases a rule: rev_cases)
  case (snoc b c)
  moreover assume "slashed a"
  ultimately show ?thesis using strtok_at [of "CHR ''/''" b y] strtok_at [of "CHR ''/''" b "[]"]
    by (simp add: slashed_def strtok_word)
qed (simp add: strtok_word)

lemma canon_prefix:
  assumes "slashed a" "a \<noteq> []"
  shows "canon a = (fst (canon (a @ y)), take (length (snd (canon a))) (snd (canon (a @ y))))"
  using assms by (simp add: canon_def strtok_slashed)

lemma canon_step:
  assumes "slashed a" "CHR ''/'' \<notin> set t" "is_dir (canon a) fs" "a @ t @ e \<noteq> []" "e = [] \<or> e = ''/''"
  shows "is_dir (canon (a @ t @ e)) fs \<or> is_dir (parent (canon (a @ t @ e))) fs"
proof -
  have e: "strtok (CHR ''/'') (t @ e) = (if t = [] then [] else [t])"
    using assms(2, 5) strtok_at [of "CHR ''/''" t "[]"] by (auto simp: strtok_word)
  then have s: "snd (canon (a @ t @ e)) = snd (canon a) @ (if t = [] \<or> t = ''.'' then [] else [t])"
    using assms(1) by (simp add: canon_def strtok_slashed)
  have f: "a \<noteq> [] \<Longrightarrow> fst (canon (a @ t @ e)) = fst (canon a)" by (simp add: canon_def)
  have n: "a = [] \<Longrightarrow> snd (canon a) = []" by (simp add: canon_def strtok_word)
  show ?thesis
  proof (cases "a = []")
    case True
    then show ?thesis using n s by (simp add: is_dir_def parent_def)
  next
    case False
    show ?thesis
    proof (cases "t = [] \<or> t = ''.''")
      case True
      then have "canon (a @ t @ e) = canon a" using s f [OF False] by (simp add: prod_eq_iff)
      then show ?thesis using assms(3) by simp
    next
      case t: False
      then have "parent (canon (a @ t @ e)) = canon a" using s f [OF False] by (simp add: parent_def prod_eq_iff)
      then show ?thesis using assms(3) by simp
    qed
  qed
qed

text \<open>What one \<^verbatim>\<open>exists or mkdir\<close> does.\<close>

lemma exists_or_mkdir:
  assumes "s \<noteq> []" "NUL \<notin> set s" "\<not> is_file (canon s) fs" "is_dir (canon s) fs \<or> is_dir (parent (canon s)) fs"
  shows "FileBeExists s fs \<and> is_dir (canon s) fs
    \<or> \<not> FileBeExists s fs \<and> os_mkdir s fs = (True, fs\<lparr>dirs := canon s # dirs fs\<rparr>)"
  using assms by (auto simp: FileBeExists_def os_access_def os_mkdir_def)

text \<open>The file system after making some of the prefixes of a path.\<close>

definition made :: "path \<Rightarrow> FS \<Rightarrow> FS \<Rightarrow> bool" where
  "made q fs fs' \<longleftrightarrow> files fs' = files fs
     \<and> (\<exists>ks. dirs fs' = map (\<lambda>k. (fst q, take k (snd q))) ks @ dirs fs)"

lemma made_refl: "made q fs fs"
  unfolding made_def by (auto intro: exI [of _ "[]"])

lemma made_cons:
  assumes "made q (fs\<lparr>dirs := (fst q, take k (snd q)) # dirs fs\<rparr>) fs'"
  shows "made q fs fs'"
proof -
  obtain ks where "dirs fs' = map (\<lambda>k. (fst q, take k (snd q))) ks @ (fst q, take k (snd q)) # dirs fs"
    using assms by (auto simp: made_def)
  then have "dirs fs' = map (\<lambda>k. (fst q, take k (snd q))) (ks @ [k]) @ dirs fs" by simp
  then show ?thesis using assms by (auto simp: made_def simp del: map_append intro: exI [of _ "ks @ [k]"])
qed

lemma is_file_dirs [simp]: "is_file p (fs\<lparr>dirs := ds\<rparr>) = is_file p fs"
  by (simp add: is_file_def)

lemma creat_dir_loop_made:
  assumes "i + n = length p" "take i p = a @ t" "slashed a" "CHR ''/'' \<notin> set t" "is_dir (canon a) fs"
    "p \<noteq> []" "NUL \<notin> set p" "\<And>k. \<not> is_file (fst (canon p), take k (snd (canon p))) fs"
  shows "\<exists>fs'. creat_dir_loop p i n fs = (True, fs') \<and> is_dir (canon p) fs' \<and> made (canon p) fs fs'"
  using assms
proof (induction n arbitrary: i a t fs)
  case 0
  have p: "take i p = p" "p = a @ t @ []" using 0 by auto
  have "is_dir (canon p) fs \<or> is_dir (parent (canon p)) fs"
    using canon_step [of a t fs "[]"] 0 p by simp
  moreover have nf: "\<not> is_file (canon p) fs" using "0.prems"(8) [of "length (snd (canon p))"] by simp
  ultimately have "FileBeExists p fs \<and> is_dir (canon p) fs
      \<or> \<not> FileBeExists p fs \<and> os_mkdir p fs = (True, fs\<lparr>dirs := canon p # dirs fs\<rparr>)"
    using exists_or_mkdir [of p fs] 0 by simp
  moreover have "made (canon p) fs (fs\<lparr>dirs := canon p # dirs fs\<rparr>)"
    using made_cons [of "canon p" "length (snd (canon p))" fs] made_refl by simp
  ultimately show ?case using made_refl p(1) by (auto simp: is_dir_def)
next
  case (Suc n)
  have tk: "take (i + 1) p = take i p @ [p ! i]" using Suc.prems(1) by (simp add: take_Suc_conv_app_nth)
  show ?case
  proof (cases "p ! i = CHR ''/''")
    case False
    then show ?thesis
      using Suc.IH [of "i + 1" a "t @ [p ! i]" fs] Suc.prems tk by simp
  next
    case True
    let ?s = "take (i + 1) p"
    have s: "?s = a @ t @ ''/''" "slashed ?s" "?s \<noteq> []" using tk True Suc.prems by (auto simp: slashed_def)
    have nul: "NUL \<notin> set ?s" using Suc.prems(7) set_take_subset [of "i + 1" p] by blast
    have d: "is_dir (canon ?s) fs \<or> is_dir (parent (canon ?s)) fs"
      using canon_step [of a t fs "''/''"] Suc.prems s by simp
    have pre: "canon ?s = (fst (canon p), take (length (snd (canon ?s))) (snd (canon p)))"
      using canon_prefix [OF s(2,3), of "drop (i + 1) p"] by simp
    then have nf: "\<not> is_file (canon ?s) fs" using Suc.prems(8) by metis
    have IH: "\<exists>fs'. creat_dir_loop p (i + 1) n fs1 = (True, fs') \<and> is_dir (canon p) fs' \<and> made (canon p) fs1 fs'"
      if "is_dir (canon ?s) fs1" "\<And>q. is_file q fs1 = is_file q fs" for fs1
      using Suc.IH [of "i + 1" ?s "[]" fs1] that Suc.prems s by simp
    from exists_or_mkdir [OF s(3) nul nf d] show ?thesis
    proof
      assume "FileBeExists ?s fs \<and> is_dir (canon ?s) fs"
      then show ?thesis using IH [of fs] True by simp
    next
      let ?fs1 = "fs\<lparr>dirs := canon ?s # dirs fs\<rparr>"
      assume m: "\<not> FileBeExists ?s fs \<and> os_mkdir ?s fs = (True, ?fs1)"
      obtain fs' where "creat_dir_loop p (i + 1) n ?fs1 = (True, fs')" "is_dir (canon p) fs'" "made (canon p) ?fs1 fs'"
        using IH [of ?fs1] by (auto simp: is_dir_def)
      moreover from this(3) have "made (canon p) fs fs'" using made_cons pre by metis
      ultimately show ?thesis using m True by simp
    qed
  qed
qed

lemma FileCreatDir_made:
  assumes "cstr pchPath = p" "p \<noteq> []" "\<And>k. \<not> is_file (fst (canon p), take k (snd (canon p))) fs"
  shows "\<exists>fs'. FileCreatDir pchPath fs = (True, fs') \<and> is_dir (canon p) fs' \<and> made (canon p) fs fs'"
proof -
  have "is_dir (canon []) fs" by (simp add: is_dir_def canon_def strtok_word)
  then show ?thesis
    using creat_dir_loop_made [of 0 "length p" p "[]" "[]" fs] assms cstr_no_NUL [of pchPath]
    by (simp add: FileCreatDir_def slashed_def)
qed

text \<open>
  \<open>FileCreatDir\<close> works like \<^verbatim>\<open>mkdir -p\<close>: on a path with no regular file among its
  prefixes it succeeds, the whole path is a directory afterwards, and it only added prefixes of
  the path; the files are untouched.
\<close>

theorem creat_dir_makes_path:
  assumes "cstr pchPath \<noteq> []"
    and "\<And>k. \<not> is_file (fst (canon (cstr pchPath)), take k (snd (canon (cstr pchPath)))) fs"
  shows "\<exists>fs' ks. FileCreatDir pchPath fs = (True, fs') \<and> is_dir (canon (cstr pchPath)) fs'
    \<and> files fs' = files fs
    \<and> dirs fs' = map (\<lambda>k. (fst (canon (cstr pchPath)), take k (snd (canon (cstr pchPath))))) ks @ dirs fs"
  using FileCreatDir_made [OF refl assms] by (auto simp: made_def)

theorem creat_dir_makes_path_witness:
  "\<exists>fs'. FileCreatDir ''./logs/20240229'' \<lparr>dirs = [], files = []\<rparr> = (True, fs')
     \<and> is_dir (False, [''logs'', ''20240229'']) fs'"
proof -
  have c: "cstr ''./logs/20240229'' = ''./logs/20240229''" by simp
  moreover have "canon ''./logs/20240229'' = (False, [''logs'', ''20240229''])" by code_simp
  ultimately show ?thesis
    using creat_dir_makes_path [of "''./logs/20240229''" "\<lparr>dirs = [], files = []\<rparr>"] by (auto simp: is_file_def)
qed

section \<open>A well-formed file system\<close>

text \<open>The parent of every directory and of every file is a directory, and no path is both.\<close>

definition fs_ok :: "FS \<Rightarrow> bool" where
  "fs_ok fs \<longleftrightarrow> list_all (\<lambda>p. is_dir (parent p) fs) (dirs fs)
     \<and> list_all (\<lambda>(p, _). is_dir (parent p) fs \<and> \<not> is_dir p fs) (files fs)"

lemma is_file_in_iff: "is_file p fs \<longleftrightarrow> p \<in> fst ` set (files fs)"
  by (simp add: is_file_def map_of_eq_None_iff)

lemma fs_ok_parent: "fs_ok fs \<Longrightarrow> is_dir p fs \<Longrightarrow> is_dir (parent p) fs"
  by (auto simp: fs_ok_def is_dir_def parent_def list_all_iff)

lemma fs_ok_file: "fs_ok fs \<Longrightarrow> is_file p fs \<Longrightarrow> \<not> is_dir p fs \<and> is_dir (parent p) fs"
  by (auto simp: fs_ok_def is_file_in_iff list_all_iff)

lemma fs_ok_prefix: "fs_ok fs \<Longrightarrow> is_dir (r, xs @ ys) fs \<Longrightarrow> is_dir (r, xs) fs"
proof (induction ys rule: rev_induct)
  case (snoc y ys)
  then show ?case using fs_ok_parent [of fs "(r, xs @ ys @ [y])"] by (simp add: parent_def butlast_append)
qed simp

lemma fs_ok_mkdir: "fs_ok fs \<Longrightarrow> fs_ok (snd (os_mkdir p fs))"
  by (force simp: os_mkdir_def fs_ok_def is_dir_def list_all_iff is_file_in_iff image_iff split: if_splits)

lemma fs_ok_put: "fs_ok fs \<Longrightarrow> \<not> is_dir q fs \<Longrightarrow> is_dir (parent q) fs \<Longrightarrow> fs_ok (put_file q t fs)"
  by (auto simp: put_file_def fs_ok_def is_dir_def list_all_iff)

lemma fs_ok_fwrite: "fs_ok fs \<Longrightarrow> is_file q fs \<Longrightarrow> fs_ok (os_fwrite q t fs)"
  using fs_ok_file fs_ok_put by (auto simp: os_fwrite_def)

lemma fs_ok_creat_dir: "fs_ok fs \<Longrightarrow> fs_ok (snd (creat_dir_loop p i n fs))"
proof (induction p i n fs rule: creat_dir_loop.induct)
  case (1 p i fs)
  then show ?case by (simp add: fs_ok_mkdir)
next
  case (2 p i n fs)
  then show ?case using fs_ok_mkdir [of fs "take (i + 1) p"] by (auto split: bool.split prod.split)
qed

text \<open>The canonical name of a file in a directory.\<close>

lemma canon_in_dir:
  assumes "CHR ''/'' \<notin> set t" "t \<noteq> []" "t \<noteq> ''.''" "d \<noteq> []"
  shows "canon (d @ ''/'' @ t) = (fst (canon d), snd (canon d) @ [t])"
  using assms strtok_at [of "CHR ''/''" d t] by (simp add: canon_def strtok_word)

end
