(* ===== verification/Clock.thy ===== *)
theory Clock
  imports Prelude
begin

text \<open>
  Clocks: the broken-down time of \<^verbatim>\<open>localtime\<close> and the formats the program prints it
  in, and the stop watch \<^verbatim>\<open>CTime\<close> of \<^verbatim>\<open>src/src/CommonTools/Time/Time.cpp\<close>.
  A clock reading (\<^verbatim>\<open>time(0)\<close>, \<^verbatim>\<open>gettimeofday\<close>) is an argument, and so is
  \<^verbatim>\<open>localtime\<close>, which depends on the time zone of the machine.
\<close>

section \<open>Broken-down time\<close>

record tm =
  tm_year :: int
  tm_mon :: int
  tm_mday :: int
  tm_hour :: int
  tm_min :: int
  tm_sec :: int
  tm_wday :: int

abbreviation d02 :: "int \<Rightarrow> string" where "d02 i \<equiv> pad_left CHR ''0'' 2 (show_int i)"
abbreviation d04 :: "int \<Rightarrow> string" where "d04 i \<equiv> pad_left CHR ''0'' 4 (show_int i)"

text \<open>\<^verbatim>\<open>"%4d%02d%02d"\<close>.\<close>

definition yyyymmdd :: "tm \<Rightarrow> string" where
  "yyyymmdd t = pad_left CHR '' '' 4 (show_int (tm_year t + 1900)) @ d02 (tm_mon t + 1) @ d02 (tm_mday t)"

text \<open>A date as the C library delivers it, for years of four digits.\<close>

definition tm_ok :: "tm \<Rightarrow> bool" where
  "tm_ok t \<longleftrightarrow> - 900 \<le> tm_year t \<and> tm_year t < 8100 \<and> 0 \<le> tm_mon t \<and> tm_mon t < 12
     \<and> 1 \<le> tm_mday t \<and> tm_mday t \<le> 31 \<and> 0 \<le> tm_hour t \<and> tm_hour t < 24
     \<and> 0 \<le> tm_min t \<and> tm_min t < 60 \<and> 0 \<le> tm_sec t \<and> tm_sec t \<le> 60 \<and> 0 \<le> tm_wday t \<and> tm_wday t < 7"

text \<open>A clock for the examples: day 28 of February 2024 and the days after it, always at 12:05:09.\<close>

definition demo_lt :: "int \<Rightarrow> tm" where
  "demo_lt t = \<lparr>tm_year = 124, tm_mon = 1, tm_mday = 28 + t div 86400, tm_hour = 12, tm_min = 5, tm_sec = 9, tm_wday = 3\<rparr>"

section \<open>The stop watch\<close>

record timeval =
  tv_sec :: int
  tv_usec :: int

record CTime =
  m_stOn :: timeval
  m_stOff :: timeval
  m_uiSeconds :: u32
  m_uiMicSeconds :: u32

definition TimeOn :: "timeval \<Rightarrow> CTime \<Rightarrow> CTime" where
  "TimeOn now c = c\<lparr>m_stOn := now\<rparr>"

definition TimeOff :: "timeval \<Rightarrow> CTime \<Rightarrow> CTime" where
  "TimeOff now c =
     (let c = c\<lparr>m_stOff := now\<rparr>; on = m_stOn c; off = m_stOff c in
      if tv_usec off = tv_usec on then
        c\<lparr>m_uiSeconds := word_of_int (tv_sec off - tv_sec on), m_uiMicSeconds := 0\<rparr>
      else if tv_usec on < tv_usec off then
        c\<lparr>m_uiSeconds := word_of_int (tv_sec off - tv_sec on),
          m_uiMicSeconds := word_of_int (tv_usec off - tv_usec on)\<rparr>
      else
        c\<lparr>m_uiSeconds := word_of_int (tv_sec off - tv_sec on - 1),
          m_uiMicSeconds := word_of_int (1000000 - tv_usec on + tv_usec off)\<rparr>)"

definition TimeGetSeconds :: "CTime \<Rightarrow> u32" where "TimeGetSeconds c = m_uiSeconds c"
definition TimeGetMicSeconds :: "CTime \<Rightarrow> u32" where "TimeGetMicSeconds c = m_uiMicSeconds c"

section \<open>Elapsed time\<close>

definition micros :: "timeval \<Rightarrow> int" where "micros t = tv_sec t * 1000000 + tv_usec t"

definition timeval_ok :: "timeval \<Rightarrow> bool" where
  "timeval_ok t \<longleftrightarrow> 0 \<le> tv_usec t \<and> tv_usec t < 1000000"

lemma uint_small: "0 \<le> i \<Longrightarrow> i < 2 ^ 32 \<Longrightarrow> uint (word_of_int i :: u32) = i"
  by (simp add: uint_word_of_int_eq take_bit_int_eq_self)

lemmas elapsed_defs = TimeOff_def TimeOn_def TimeGetSeconds_def TimeGetMicSeconds_def micros_def

text \<open>
  \<open>TimeOn\<close> followed by \<open>TimeOff\<close> measures the time in between: for a clock that does
  not go back and a span below $2^{32}$ seconds, seconds and microseconds together are exactly the
  difference of the two readings, and the microseconds are below a million.
\<close>

theorem time_off_difference:
  assumes "timeval_ok t1" "timeval_ok t2" "micros t1 \<le> micros t2" "tv_sec t2 - tv_sec t1 < 2 ^ 32"
  shows "uint (TimeGetSeconds (TimeOff t2 (TimeOn t1 c))) * 1000000
      + uint (TimeGetMicSeconds (TimeOff t2 (TimeOn t1 c))) = micros t2 - micros t1
    \<and> uint (TimeGetMicSeconds (TimeOff t2 (TimeOn t1 c))) < 1000000"
proof -
  have u: "0 \<le> tv_usec t1" "tv_usec t1 < 1000000" "0 \<le> tv_usec t2" "tv_usec t2 < 1000000"
    and m: "tv_sec t1 * 1000000 + tv_usec t1 \<le> tv_sec t2 * 1000000 + tv_usec t2"
    using assms by (auto simp: timeval_ok_def micros_def)
  have sec: "tv_usec t2 < tv_usec t1 \<longrightarrow> 0 \<le> tv_sec t2 - tv_sec t1 - 1" "0 \<le> tv_sec t2 - tv_sec t1"
    using u m by arith+
  consider "tv_usec t2 = tv_usec t1" | "tv_usec t1 < tv_usec t2" | "tv_usec t2 < tv_usec t1" by linarith
  then show ?thesis
  proof cases
    case 1
    then show ?thesis using assms(4) sec
      by (simp add: elapsed_defs uint_small del: of_int_diff of_int_add)
  next
    case 2
    then show ?thesis using assms(4) sec u
      by (simp add: elapsed_defs uint_small del: of_int_diff of_int_add)
  next
    case 3
    then show ?thesis using assms(4) sec u
      by (simp add: elapsed_defs uint_small del: of_int_diff of_int_add)
  qed
qed

theorem time_off_difference_witness:
  "uint (TimeGetMicSeconds (TimeOff \<lparr>tv_sec = 12, tv_usec = 5\<rparr> (TimeOn \<lparr>tv_sec = 10, tv_usec = 999999\<rparr>
     \<lparr>m_stOn = \<lparr>tv_sec = 0, tv_usec = 0\<rparr>, m_stOff = \<lparr>tv_sec = 0, tv_usec = 0\<rparr>,
      m_uiSeconds = 0, m_uiMicSeconds = 0\<rparr>))) < 1000000"
  using time_off_difference [of "\<lparr>tv_sec = 10, tv_usec = 999999\<rparr>" "\<lparr>tv_sec = 12, tv_usec = 5\<rparr>"
      "\<lparr>m_stOn = \<lparr>tv_sec = 0, tv_usec = 0\<rparr>, m_stOff = \<lparr>tv_sec = 0, tv_usec = 0\<rparr>,
        m_uiSeconds = 0, m_uiMicSeconds = 0\<rparr>"]
  by (simp add: timeval_ok_def micros_def)

end
