(* ===== verification/Logger.thy ===== *)
theory Logger
  imports Files Clock
begin

text \<open>
  The logger: \<^verbatim>\<open>CLog\<close> of \<^verbatim>\<open>src/src/CommonTools/Log/Log.cpp\<close>, over the file
  system of \<^verbatim>\<open>Files\<close>. \<open>lt\<close> is \<^verbatim>\<open>localtime\<close>, \<open>now\<close> a reading of
  \<^verbatim>\<open>time(0)\<close>. The mutex makes a call of \<open>write_d\<close> one step. A message is the text
  that \<^verbatim>\<open>vfprintf\<close> makes of the format and its arguments; the writes themselves do not
  fail (a full disk is not modelled). Writing through a null \<^verbatim>\<open>FILE*\<close> is \<open>None\<close>.
\<close>

section \<open>State\<close>

record CLog =
  m_pszFileName :: string
  m_pszPathName :: string
  l_Rank :: LOG_RANK
  l_pFile :: "path option"
  m_iLogFileId :: int
  m_iLogFileLine :: int
  m_iLimit :: int

definition rank_value :: "LOG_RANK \<Rightarrow> int" where
  "rank_value r = (case r of DEBUG \<Rightarrow> 0 | INFO \<Rightarrow> 1 | WARNING \<Rightarrow> 2 | ERROR \<Rightarrow> 3 | REQUIRED \<Rightarrow> 100)"

definition srank :: "LOG_RANK \<Rightarrow> string" where
  "srank r = (case r of DEBUG \<Rightarrow> ''DEBUG'' | INFO \<Rightarrow> ''INFO'' | WARNING \<Rightarrow> ''WARNING''
     | ERROR \<Rightarrow> ''ERROR'' | REQUIRED \<Rightarrow> ''REQUIRED'')"

section \<open>Dates\<close>

definition LogGetDate :: "(int \<Rightarrow> tm) \<Rightarrow> int \<Rightarrow> int \<Rightarrow> string" where
  "LogGetDate lt now ttime = yyyymmdd (lt (if ttime = 0 then now else ttime))"

definition getfulltime :: "(int \<Rightarrow> tm) \<Rightarrow> int \<Rightarrow> int \<Rightarrow> string" where
  "getfulltime lt now seconds =
     (let t = lt (if seconds \<le> 0 then now else seconds)
      in show_int (tm_year t + 1900) @ ''-'' @ d02 (tm_mon t + 1) @ ''-'' @ d02 (tm_mday t) @ '' ''
         @ d02 (tm_hour t) @ '':'' @ d02 (tm_min t) @ '':'' @ d02 (tm_sec t))"

section \<open>Operations\<close>

text \<open>
  The directory of the day and, when there is no stream or no file in the directory yet, a stream
  on the file with the next number.
\<close>

definition log_dir :: "CLog \<Rightarrow> string \<Rightarrow> string" where
  "log_dir l date = m_pszPathName l @ ''/'' @ date"

definition log_open :: "string \<Rightarrow> CLog \<Rightarrow> FS \<Rightarrow> bool \<times> CLog \<times> FS" where
  "log_open strLogDir l fs =
     (if l_pFile l = None \<or> m_iLogFileId l = 0 then
        case os_fopen (cstr (strLogDir @ ''/'' @ m_pszFileName l @ show_int (m_iLogFileId l))) ''a'' fs of
          (None, fs) \<Rightarrow> (False, l\<lparr>l_pFile := None\<rparr>, fs)
        | (Some q, fs) \<Rightarrow>
            (True, l\<lparr>l_pFile := Some q, m_iLogFileId := m_iLogFileId l + 1,
                     m_iLogFileLine := m_iLogFileLine l + 1\<rparr>, fs)
      else (True, l, fs))"

definition LogCreatLogDir :: "(int \<Rightarrow> tm) \<Rightarrow> int \<Rightarrow> CLog \<Rightarrow> FS \<Rightarrow> bool \<times> CLog \<times> FS" where
  "LogCreatLogDir lt now l fs =
     (let strLogDir = log_dir l (LogGetDate lt now 0) in
      if \<not> LogFileBeExists strLogDir fs then
        (let l = l\<lparr>m_iLogFileId := 0\<rparr> in
         case LogFileCreatDir strLogDir fs of
           (False, fs) \<Rightarrow> (False, l, fs)
         | (True, fs) \<Rightarrow> log_open strLogDir (l\<lparr>m_iLogFileLine := 0, l_pFile := None\<rparr>) fs)
      else
        (case LogFileListFiles strLogDir [] fs of
           (False, _) \<Rightarrow> (False, l, fs)
         | (True, vecFiles) \<Rightarrow> log_open strLogDir (l\<lparr>m_iLogFileId := int (length vecFiles)\<rparr>) fs))"

text \<open>
  The constructor: \<open>None\<close> for its exceptions. \<open>junk\<close> is what memory held in
  \<^verbatim>\<open>m_iLogFileLine\<close>, which it does not initialise. It copies \<^verbatim>\<open>MAX_LOG_PATH\<close> bytes of
  each name, so a name of that length or more would have no terminator.
\<close>

definition new_CLog ::
  "(int \<Rightarrow> tm) \<Rightarrow> int \<Rightarrow> int \<Rightarrow> string \<Rightarrow> string \<Rightarrow> int \<Rightarrow> LOG_RANK \<Rightarrow> FS \<Rightarrow> (CLog \<times> FS) option" where
  "new_CLog lt now junk pszPath pszFileName iLimit rank fs =
     (if cstr pszFileName = [] \<or> cstr pszPath = [] then None
      else if 1024 \<le> length (cstr pszFileName) \<or> 1024 \<le> length (cstr pszPath) then None
      else case LogCreatLogDir lt now
                  \<lparr>m_pszFileName = cstr pszFileName, m_pszPathName = cstr pszPath, l_Rank = rank,
                   l_pFile = None, m_iLogFileId = 0, m_iLogFileLine = junk, m_iLimit = iLimit\<rparr> fs of
             (False, _, _) \<Rightarrow> None
           | (True, l, fs) \<Rightarrow> Some (l, fs))"

definition log_record :: "string \<Rightarrow> LOG_RANK \<Rightarrow> string \<Rightarrow> int \<Rightarrow> string \<Rightarrow> string" where
  "log_record time rank file line msg =
     time @ '' '' @ srank rank @ '' '' @ file @ '':'' @ show_int line @ '' '' @ msg @ [CHR 0x0A]"

definition write_d ::
  "(int \<Rightarrow> tm) \<Rightarrow> int \<Rightarrow> int \<Rightarrow> LOG_RANK \<Rightarrow> string \<Rightarrow> int \<Rightarrow> string \<Rightarrow> CLog \<Rightarrow> FS
     \<Rightarrow> (bool \<times> CLog \<times> FS) option" where
  "write_d lt t1 t2 rank file line msg l fs =
     (if rank_value rank < rank_value (l_Rank l) then Some (False, l, fs)
      else case LogCreatLogDir lt t1 l fs of
             (_, l, fs) \<Rightarrow>
               (case l_pFile l of
                  None \<Rightarrow> None
                | Some q \<Rightarrow>
                    Some (True, l, os_fwrite q (log_record (getfulltime lt t2 0) rank file line msg) fs)))"

definition LogGetLogRank :: "CLog \<Rightarrow> LOG_RANK" where "LogGetLogRank l = l_Rank l"
definition LogSetLogRank :: "LOG_RANK \<Rightarrow> CLog \<Rightarrow> CLog" where "LogSetLogRank rank l = l\<lparr>l_Rank := rank\<rparr>"

section \<open>What a call writes\<close>

lemma creat_dir_loop_files: "files (snd (creat_dir_loop p i n fs)) = files fs"
  by (induction p i n fs rule: creat_dir_loop.induct) (auto simp: os_mkdir_def split: bool.split)

lemma LogFileCreatDir_text: "LogFileCreatDir p fs = (b, fs') \<Longrightarrow> file_text q fs' = file_text q fs"
  using creat_dir_loop_files [of "cstr p" 0 "length (cstr p)" fs]
  by (simp add: LogFileCreatDir_def FileCreatDir_def Let_def file_text_def)

lemma log_open_text: "log_open d l fs = (b, l', fs') \<Longrightarrow> file_text q fs' = file_text q fs"
  by (auto simp: log_open_def dest: os_fopen_a_text split: if_splits prod.splits option.splits)

lemma LogCreatLogDir_text:
  "LogCreatLogDir lt now l fs = (b, l', fs') \<Longrightarrow> file_text q fs' = file_text q fs"
  by (auto simp: LogCreatLogDir_def Let_def LogFileCreatDir_text log_open_text
      split: if_splits prod.splits bool.splits dest: log_open_text LogFileCreatDir_text)

text \<open>
  A call of \<open>write_d\<close> below the rank of the log changes nothing. Every other call that
  returns has appended exactly one record to the file of the stream, and has changed the text of
  no other file: opening the directory of the day never truncates.
\<close>

theorem log_appends_one_record:
  assumes "write_d lt t1 t2 rank file line msg l fs = Some (b, l', fs')"
  shows "if rank_value rank < rank_value (l_Rank l) then \<not> b \<and> l' = l \<and> fs' = fs
    else b \<and> (\<exists>q. l_pFile l' = Some q
      \<and> (\<forall>p. file_text p fs' = file_text p fs
               @ (if p = q then log_record (getfulltime lt t2 0) rank file line msg else [])))"
proof (cases "rank_value rank < rank_value (l_Rank l)")
  case False
  obtain c l1 fs1 where c: "LogCreatLogDir lt t1 l fs = (c, l1, fs1)" by (cases "LogCreatLogDir lt t1 l fs") auto
  obtain q where "l_pFile l1 = Some q" "b" "l' = l1"
    "fs' = os_fwrite q (log_record (getfulltime lt t2 0) rank file line msg) fs1"
    using assms False c by (auto simp: write_d_def split: option.splits)
  then show ?thesis using False LogCreatLogDir_text [OF c] by (auto simp: os_fwrite_def)
qed (use assms in \<open>auto simp: write_d_def\<close>)

section \<open>A new day\<close>

lemma show_int_no: "c = CHR ''/'' \<or> c = NUL \<Longrightarrow> c \<notin> set (show_int i)"
  using show_nat_digits [of "nat (- i)"] show_nat_digits [of "nat i"] by (auto simp: show_int_def is_digit_def)

lemma yyyymmdd_plain: "c = CHR ''/'' \<or> c = NUL \<Longrightarrow> c \<notin> set (yyyymmdd t)" "2 \<le> length (yyyymmdd t)"
proof -
  show "c \<notin> set (yyyymmdd t)" if "c = CHR ''/'' \<or> c = NUL"
    using that show_int_no [OF that] by (auto simp: yyyymmdd_def pad_left_def)
  have "2 \<le> length (d02 (tm_mday t))" by (simp add: pad_left_def)
  then show "2 \<le> length (yyyymmdd t)" by (simp add: yyyymmdd_def)
qed

lemma new_dir_ok:
  assumes "fs_ok fs" "is_dir (canon d) fs" "d \<noteq> []" "NUL \<notin> set d" "\<not> FileBeExists (d @ ''/'' @ t) fs"
    and t: "CHR ''/'' \<notin> set t" "NUL \<notin> set t" "2 \<le> length t"
  shows "\<exists>fs'. FileCreatDir (d @ ''/'' @ t) fs = (True, fs') \<and> fs_ok fs'
    \<and> is_dir (canon (d @ ''/'' @ t)) fs' \<and> (\<forall>n. \<not> is_dir (fst (canon d), snd (canon d) @ [t, n]) fs')"
proof -
  let ?p = "d @ ''/'' @ t" and ?r = "fst (canon d)" and ?c = "snd (canon d)"
  have c: "canon ?p = (?r, ?c @ [t])" using assms by (intro canon_in_dir) auto
  have n: "cstr ?p = ?p" using assms by simp
  have "last ?p \<noteq> CHR ''/''" using t by (auto simp: last_append) (metis last_in_set list.size(3) not_numeral_le_zero)
  then have ne: "\<not> is_dir (?r, ?c @ [t]) fs" "\<not> is_file (?r, ?c @ [t]) fs"
    using assms(5) n c by (auto simp: FileBeExists_def os_access_def)
  have nf: "\<not> is_file (?r, take k (?c @ [t])) fs" for k
  proof (cases "k \<le> length ?c")
    case True
    then have "is_dir (?r, take k ?c) fs" using fs_ok_prefix [OF assms(1), of ?r "take k ?c" "drop k ?c"] assms(2) by simp
    then show ?thesis using True fs_ok_file [OF assms(1)] by auto
  qed (use ne in simp)
  have pre: "\<not> is_file (fst (canon ?p), take k (snd (canon ?p))) fs" for k using nf c by simp
  obtain fs' where m: "FileCreatDir ?p fs = (True, fs')" "is_dir (canon ?p) fs'" "made (canon ?p) fs fs'"
    using FileCreatDir_made [OF n _ pre] by auto
  have "\<not> is_dir (?r, ?c @ [t, n]) fs" for n
    using ne fs_ok_prefix [OF assms(1), of ?r "?c @ [t]" "[n]"] by auto
  moreover have "?c @ [t, n] \<noteq> take k (?c @ [t])" for k n
  proof
    assume "?c @ [t, n] = take k (?c @ [t])"
    then have "length (?c @ [t, n]) = length (take k (?c @ [t]))" by (rule arg_cong)
    then show False by simp
  qed
  ultimately have "\<not> is_dir (?r, ?c @ [t, n]) fs'" for n using m(3) c by (auto simp: made_def is_dir_def)
  moreover have "fs_ok fs'" using fs_ok_creat_dir [OF assms(1), of ?p 0 "length ?p"] m(1) n by (simp add: FileCreatDir_def Let_def)
  ultimately show ?thesis using m n by auto
qed

text \<open>
  The log follows the calendar: when the directory of the day does not exist yet, the next
  record of sufficient rank makes it, closes the old stream and goes to file number 0 of that
  directory; the call cannot fail as long as the base directory exists, and the file system stays
  well formed.
\<close>

theorem log_rollover:
  assumes "\<not> rank_value rank < rank_value (l_Rank l)"
    and "fs_ok fs" "is_dir (canon (m_pszPathName l)) fs" "m_pszPathName l \<noteq> []" "NUL \<notin> set (m_pszPathName l)"
    and "NUL \<notin> set (m_pszFileName l)" "CHR ''/'' \<notin> set (m_pszFileName l)"
    and "\<not> LogFileBeExists (m_pszPathName l @ ''/'' @ LogGetDate lt t1 0) fs"
  shows "\<exists>l' fs'. write_d lt t1 t2 rank file line msg l fs = Some (True, l', fs')
    \<and> l_pFile l' = Some (canon (m_pszPathName l @ ''/'' @ LogGetDate lt t1 0 @ ''/'' @ m_pszFileName l @ ''0''))
    \<and> m_iLogFileId l' = 1 \<and> fs_ok fs'"
proof -
  let ?t = "LogGetDate lt t1 0" and ?d = "m_pszPathName l" and ?n = "m_pszFileName l @ ''0''"
  let ?dir = "?d @ ''/'' @ ?t"
  have t: "CHR ''/'' \<notin> set ?t" "NUL \<notin> set ?t" "2 \<le> length ?t" by (simp_all add: LogGetDate_def yyyymmdd_plain)
  then obtain fs1 where m: "FileCreatDir ?dir fs = (True, fs1)" "fs_ok fs1" "is_dir (canon ?dir) fs1"
    "\<And>n. \<not> is_dir (fst (canon ?d), snd (canon ?d) @ [?t, n]) fs1"
    using new_dir_ok [OF assms(2-5), of ?t] assms(8) by (auto simp: LogFileBeExists_def)
  have c: "canon ?dir = (fst (canon ?d), snd (canon ?d) @ [?t])" using t assms(4) by (intro canon_in_dir) auto
  have q: "canon (?dir @ ''/'' @ ?n) = (fst (canon ?d), snd (canon ?d) @ [?t, ?n])"
    using canon_in_dir [of ?n ?dir] assms(7) c by (simp add: append_eq_Cons_conv)
  let ?q = "canon (?dir @ ''/'' @ ?n)"
  have z: "show_int 0 = ''0''" by (simp add: show_int_def show_nat.simps [of 0] char_of_def bit_0)
  have str: "cstr (?dir @ ''/'' @ ?n) = ?dir @ ''/'' @ ?n" using assms(5,6) t by simp
  obtain fs2 where f: "os_fopen (?dir @ ''/'' @ ?n) ''a'' fs1 = (Some ?q, fs2)" "fs_ok fs2" "is_file ?q fs2"
  proof
    let ?fs2 = "if is_file ?q fs1 then fs1 else put_file ?q [] fs1"
    have d: "\<not> is_dir ?q fs1" "is_dir (parent ?q) fs1" using m q c by (auto simp: parent_def butlast_append)
    then show "os_fopen (?dir @ ''/'' @ ?n) ''a'' fs1 = (Some ?q, ?fs2)" by (simp add: os_fopen_def Let_def)
    show "fs_ok ?fs2" using d m(2) by (simp add: fs_ok_put)
    show "is_file ?q ?fs2" by simp
  qed
  show ?thesis
    using assms(1,8) m(1) f z str fs_ok_fwrite [OF f(2,3)]
    by (simp add: write_d_def LogCreatLogDir_def log_open_def log_dir_def LogFileCreatDir_def Let_def)
qed

text \<open>The log of the shipped configuration, on a day after its first record.\<close>

definition demo_log :: CLog where
  "demo_log = \<lparr>m_pszFileName = ''userQuery.log'', m_pszPathName = ''./logs'', l_Rank = ERROR,
     l_pFile = Some (False, [''logs'', ''20240228'', ''userQuery.log0'']), m_iLogFileId = 1,
     m_iLogFileLine = 1, m_iLimit = 100000\<rparr>"

definition demo_fs :: FS where
  "demo_fs = \<lparr>dirs = [(False, [''logs'', ''20240228'']), (False, [''logs''])],
     files = [((False, [''logs'', ''20240228'', ''userQuery.log0'']), ''x'')]\<rparr>"

lemma demo_dates: "LogGetDate demo_lt 0 0 = ''20240228''" "LogGetDate demo_lt 86400 0 = ''20240229''"
  by code_simp+

theorem log_appends_one_record_witness:
  "\<exists>l' fs'. write_d demo_lt 0 0 ERROR ''a.cpp'' 7 ''lost'' demo_log demo_fs = Some (True, l', fs')
     \<and> file_text (False, [''logs'', ''20240228'', ''userQuery.log0'']) fs'
         = ''x2024-02-28 12:05:09 ERROR a.cpp:7 lost'' @ [CHR 0x0A]"
proof -
  let ?q = "(False, [''logs'', ''20240228'', ''userQuery.log0''])"
  have r: "map_option (\<lambda>(b, l', fs'). (b, l_pFile l')) (write_d demo_lt 0 0 ERROR ''a.cpp'' 7 ''lost'' demo_log demo_fs)
      = Some (True, Some ?q)" by code_simp
  then obtain l' fs' where w: "write_d demo_lt 0 0 ERROR ''a.cpp'' 7 ''lost'' demo_log demo_fs = Some (True, l', fs')"
    "l_pFile l' = Some ?q" by auto
  have "file_text ?q demo_fs @ log_record (getfulltime demo_lt 0 0) ERROR ''a.cpp'' 7 ''lost''
      = ''x2024-02-28 12:05:09 ERROR a.cpp:7 lost'' @ [CHR 0x0A]"
    "\<not> rank_value ERROR < rank_value (l_Rank demo_log)" by code_simp+
  then show ?thesis using log_appends_one_record [OF w(1)] w by auto
qed

theorem log_rollover_witness:
  "\<exists>l' fs'. write_d demo_lt 86400 86400 ERROR ''a.cpp'' 7 ''lost'' demo_log demo_fs = Some (True, l', fs')
     \<and> m_iLogFileId l' = 1 \<and> fs_ok fs'"
proof -
  have "\<not> rank_value ERROR < rank_value (l_Rank demo_log)" "fs_ok demo_fs"
    "is_dir (canon (m_pszPathName demo_log)) demo_fs" "m_pszPathName demo_log \<noteq> []" "NUL \<notin> set (m_pszPathName demo_log)"
    "NUL \<notin> set (m_pszFileName demo_log)" "CHR ''/'' \<notin> set (m_pszFileName demo_log)"
    "\<not> LogFileBeExists (m_pszPathName demo_log @ ''/'' @ LogGetDate demo_lt 86400 0) demo_fs"
    by code_simp+
  from log_rollover [OF this, of 86400 "''a.cpp''" 7 "''lost''"] show ?thesis by blast
qed

end
