(* ===== verification/Reports.thy ===== *)
theory Reports
  imports Files Clock UserQueryStruct
begin

text \<open>
  The two reporting threads: \<^verbatim>\<open>src/src/UserQueryCount/UserQueryCount.cpp\<close> prints the
  counters of the interval, \<^verbatim>\<open>src/src/UserQueryHiveLog/UserQueryHiveLog.cpp\<close> the query
  records that the workers queued. One round of their endless loops is one step
  (\<open>count_iteration\<close>, \<open>hive_iteration\<close>); the workers' updates come in between. \<open>lt\<close> is
  \<^verbatim>\<open>localtime\<close>; every call that reads the clock has its own reading. Printing through a
  null \<^verbatim>\<open>FILE*\<close> is \<open>None\<close> (the program dies); \<^verbatim>\<open>fflush(NULL)\<close> is harmless.
\<close>

text \<open>\<^verbatim>\<open>"%04d-%02d-%02d %02d:%02d\t"\<close>.\<close>

definition row_time :: "tm \<Rightarrow> string" where
  "row_time t = d04 (tm_year t + 1900) @ ''-'' @ d02 (tm_mon t + 1) @ ''-'' @ d02 (tm_mday t) @ '' ''
     @ d02 (tm_hour t) @ '':'' @ d02 (tm_min t) @ [TAB]"

text \<open>\<^verbatim>\<open>stat\<close> finds a file of size zero (a directory has another size).\<close>

definition stat_empty :: "string \<Rightarrow> FS \<Rightarrow> bool" where
  "stat_empty p fs \<longleftrightarrow> is_file (canon (cstr p)) fs \<and> file_text (canon (cstr p)) fs = []"

section \<open>CUserQueryCount\<close>

record CUserQueryCount =
  c_pFile :: "path option"
  m_stStatisticsPrm :: STATISTICSPRM_S
  m_stReport :: UserQueryReport

definition BdxUserQueryCountGetDate :: "(int \<Rightarrow> tm) \<Rightarrow> int \<Rightarrow> int \<Rightarrow> string" where
  "BdxUserQueryCountGetDate lt now ttime = yyyymmdd (lt (if ttime = 0 then now else ttime))"

definition count_title :: string where
  "count_title = ''DateTime'' @ [TAB] @ ''AccessKeyID'' @ [TAB] @ ''QueryReq'' @ [TAB] @ ''QueryRes'' @ [TAB]
     @ ''QueryEmptyRes'' @ [TAB] @ ''QueryLimit'' @ [TAB, LF]"

definition BdxQueryCountWriteTitle :: "CUserQueryCount \<Rightarrow> FS \<Rightarrow> FS option" where
  "BdxQueryCountWriteTitle c fs = map_option (\<lambda>q. os_fwrite q count_title fs) (c_pFile c)"

text \<open>\<^verbatim>\<open>path/date/name_date.txt\<close>, with the two dates of the two calls.\<close>

definition count_file_name :: "STATISTICSPRM_S \<Rightarrow> string \<Rightarrow> string \<Rightarrow> string" where
  "count_file_name prm date1 date2 =
     m_strStatisticsPath prm @ ''/'' @ date1 @ ''/'' @ m_strStatisticsFileName prm @ ''_'' @ date2 @ ''.txt''"

definition title_if_empty :: "string \<Rightarrow> CUserQueryCount \<Rightarrow> FS \<Rightarrow> (CUserQueryCount \<times> FS) option" where
  "title_if_empty name c fs =
     (if stat_empty name fs then map_option (Pair c) (BdxQueryCountWriteTitle c fs) else Some (c, fs))"

definition BdxQueryCountOpenFile ::
  "(int \<Rightarrow> tm) \<Rightarrow> int \<Rightarrow> int \<Rightarrow> CUserQueryCount \<Rightarrow> FS \<Rightarrow> (CUserQueryCount \<times> FS) option" where
  "BdxQueryCountOpenFile lt t1 t2 c fs =
     (let strFileName = count_file_name (m_stStatisticsPrm c)
            (BdxUserQueryCountGetDate lt t1 0) (BdxUserQueryCountGetDate lt t2 0) in
      if \<not> FileBeExists strFileName fs then
        (case os_fopen (cstr strFileName) ''a'' fs of
           (f, fs) \<Rightarrow> title_if_empty strFileName (c\<lparr>c_pFile := f\<rparr>) fs)
      else Some (c, fs))"

text \<open>Add the report of every worker and clear it.\<close>

fun BdxQueryCountGetReport ::
  "UserQueryReport \<Rightarrow> UserQueryReport list \<Rightarrow> UserQueryReport \<times> UserQueryReport list" where
  "BdxQueryCountGetReport m [] = (m, [])"
| "BdxQueryCountGetReport m (r # rs) =
     (case BdxQueryCountGetReport (report_add m r) rs of (m, rs') \<Rightarrow> (m, report_assign r 0 # rs'))"

definition new_CUserQueryCount ::
  "(int \<Rightarrow> tm) \<Rightarrow> int \<Rightarrow> int \<Rightarrow> STATISTICSPRM_S \<Rightarrow> UserQueryReport list \<Rightarrow> FS
     \<Rightarrow> (CUserQueryCount \<times> UserQueryReport list \<times> FS) option" where
  "new_CUserQueryCount lt t1 t2 prm vecReport fs =
     (let statusDir = m_strStatisticsPath prm @ ''/'' @ BdxUserQueryCountGetDate lt t1 0;
          fs = (if \<not> FileBeExists statusDir fs then snd (FileCreatDir statusDir fs) else fs);
          strFileName = count_file_name prm (BdxUserQueryCountGetDate lt t1 0) (BdxUserQueryCountGetDate lt t2 0);
          (f, fs) = os_fopen (cstr strFileName) ''a'' fs
      in case title_if_empty strFileName \<lparr>c_pFile = f, m_stStatisticsPrm = prm, m_stReport = []\<rparr> fs of
           None \<Rightarrow> None
         | Some (c, fs) \<Rightarrow>
             (case BdxQueryCountGetReport (m_stReport c) vecReport of
                (m, vecReport) \<Rightarrow> Some (c\<lparr>m_stReport := m\<rparr>, vecReport, fs)))"

definition count_row :: "tm \<Rightarrow> string \<times> USERINFO_S \<Rightarrow> string" where
  "count_row t e = row_time t @ cstr (fst e) @ [TAB] @ show_nat (unat (m_ullReqNum (snd e))) @ [TAB]
     @ show_nat (unat (m_ullResNum (snd e))) @ [TAB] @ show_nat (unat (m_ullEmptyResNum (snd e))) @ [TAB]
     @ show_nat (unat (m_ullResTagNum (snd e))) @ [LF]"

fun print_rows :: "path option \<Rightarrow> string list \<Rightarrow> FS \<Rightarrow> FS option" where
  "print_rows f [] fs = Some fs"
| "print_rows None (r # rs) fs = None"
| "print_rows (Some q) (r # rs) fs = print_rows (Some q) rs (os_fwrite q r fs)"

text \<open>One round of \<open>Core\<close>.\<close>

definition count_iteration ::
  "(int \<Rightarrow> tm) \<Rightarrow> int \<Rightarrow> int \<Rightarrow> int \<Rightarrow> CUserQueryCount \<Rightarrow> UserQueryReport list \<Rightarrow> FS
     \<Rightarrow> (CUserQueryCount \<times> UserQueryReport list \<times> FS) option" where
  "count_iteration lt t1 t2 t3 c vecReport fs =
     (case BdxQueryCountOpenFile lt t1 t2 c fs of
        None \<Rightarrow> None
      | Some (c, fs) \<Rightarrow>
          (case BdxQueryCountGetReport (m_stReport c) vecReport of
             (m, vecReport) \<Rightarrow>
               (case print_rows (c_pFile c) (map (count_row (lt t3)) m) fs of
                  None \<Rightarrow> None
                | Some fs \<Rightarrow> Some (c\<lparr>m_stReport := report_assign m 0\<rparr>, vecReport, fs))))"

section \<open>CUserQueryHiveLog\<close>

text \<open>\<open>h_streams\<close> are the streams this thread has opened and not closed.\<close>

record CUserQueryHiveLog =
  h_pFile :: "path option"
  m_stHiveLogPrm :: STATISTICSPRM_S
  h_streams :: "path list"

definition BdxUserQueryHiveLogGetDate :: "(int \<Rightarrow> tm) \<Rightarrow> int \<Rightarrow> int \<Rightarrow> string" where
  "BdxUserQueryHiveLogGetDate lt now ttime = yyyymmdd (lt (if ttime = 0 then now else ttime))"

definition BdxUserQueryHiveLogGetHour :: "(int \<Rightarrow> tm) \<Rightarrow> int \<Rightarrow> int \<Rightarrow> string" where
  "BdxUserQueryHiveLogGetHour lt now ttime = d02 (tm_hour (lt (if ttime = 0 then now else ttime)))"

definition hive_file_name :: "STATISTICSPRM_S \<Rightarrow> string \<Rightarrow> string \<Rightarrow> string \<Rightarrow> string" where
  "hive_file_name prm date1 date2 hour =
     m_strStatisticsPath prm @ ''/'' @ date1 @ ''/'' @ m_strStatisticsFileName prm @ ''_'' @ date2 @ ''_'' @ hour @ ''.txt''"

definition hive_fopen :: "string \<Rightarrow> CUserQueryHiveLog \<Rightarrow> FS \<Rightarrow> CUserQueryHiveLog \<times> FS" where
  "hive_fopen strFileName h fs =
     (case os_fopen (cstr strFileName) ''a'' fs of
        (f, fs) \<Rightarrow> (h\<lparr>h_pFile := f, h_streams := (case f of None \<Rightarrow> [] | Some q \<Rightarrow> [q]) @ h_streams h\<rparr>, fs))"

definition new_CUserQueryHiveLog ::
  "(int \<Rightarrow> tm) \<Rightarrow> int \<Rightarrow> int \<Rightarrow> int \<Rightarrow> STATISTICSPRM_S \<Rightarrow> FS \<Rightarrow> CUserQueryHiveLog \<times> FS" where
  "new_CUserQueryHiveLog lt t1 t2 t3 prm fs =
     (let strHiveLogDir = m_strStatisticsPath prm @ ''/'' @ BdxUserQueryHiveLogGetDate lt t1 0;
          fs = (if \<not> FileBeExists strHiveLogDir fs then snd (FileCreatDir strHiveLogDir fs) else fs)
      in hive_fopen (hive_file_name prm (BdxUserQueryHiveLogGetDate lt t1 0)
                       (BdxUserQueryHiveLogGetDate lt t2 0) (BdxUserQueryHiveLogGetHour lt t3 0))
           \<lparr>h_pFile = None, m_stHiveLogPrm = prm, h_streams = []\<rparr> fs)"

text \<open>The stream is replaced in every call; it was closed only if the file did not exist.\<close>

definition BdxQueryHiveLogOpenFile ::
  "(int \<Rightarrow> tm) \<Rightarrow> int \<Rightarrow> int \<Rightarrow> int \<Rightarrow> CUserQueryHiveLog \<Rightarrow> FS \<Rightarrow> CUserQueryHiveLog \<times> FS" where
  "BdxQueryHiveLogOpenFile lt t1 t2 t3 h fs =
     (let strFileName = hive_file_name (m_stHiveLogPrm h) (BdxUserQueryHiveLogGetDate lt t1 0)
                          (BdxUserQueryHiveLogGetDate lt t2 0) (BdxUserQueryHiveLogGetHour lt t3 0);
          h = (if \<not> FileBeExists strFileName fs then
                 (case h_pFile h of
                    None \<Rightarrow> h
                  | Some q \<Rightarrow> h\<lparr>h_pFile := None, h_streams := remove1 q (h_streams h)\<rparr>)
               else h)
      in hive_fopen strFileName h fs)"

definition hive_row :: "tm \<Rightarrow> HIVELOCALLOG_S \<Rightarrow> string" where
  "hive_row t r = row_time t @ cstr (strAccessKeyId r) @ [TAB] @ show_int (iSource r) @ [TAB] @ cstr (strTelNo r) @ [TAB]
     @ cstr (strTimeStamp r) @ [TAB] @ cstr (strLiveTime r) @ [TAB] @ cstr (strSinature r) @ [TAB] @ cstr (strAuthId r) @ [TAB]
     @ cstr (strCustName r) @ [TAB] @ cstr (strAction r) @ [TAB] @ cstr (strMd5Key r) @ [TAB] @ cstr (strReqParams r) @ [TAB]
     @ cstr (strValue r) @ [TAB] @ cstr (strQuerytime r) @ [TAB] @ cstr (strDayId r) @ [TAB] @ cstr (strHourId r) @ [LF]"

text \<open>Front of the queue, pop, print; then the next queue.\<close>

fun drain_hive :: "tm \<Rightarrow> path option \<Rightarrow> HIVELOCALLOG_S list \<Rightarrow> FS \<Rightarrow> FS option" where
  "drain_hive t f [] fs = Some fs"
| "drain_hive t None (r # rs) fs = None"
| "drain_hive t (Some q) (r # rs) fs = drain_hive t (Some q) rs (os_fwrite q (hive_row t r) fs)"

fun drain_hives ::
  "tm \<Rightarrow> path option \<Rightarrow> HIVELOCALLOG_S list list \<Rightarrow> FS \<Rightarrow> (HIVELOCALLOG_S list list \<times> FS) option" where
  "drain_hives t f [] fs = Some ([], fs)"
| "drain_hives t f (x # xs) fs =
     (case drain_hive t f x fs of
        None \<Rightarrow> None
      | Some fs \<Rightarrow> map_option (\<lambda>(xs', fs). ([] # xs', fs)) (drain_hives t f xs fs))"

definition hive_iteration ::
  "(int \<Rightarrow> tm) \<Rightarrow> int \<Rightarrow> int \<Rightarrow> int \<Rightarrow> int \<Rightarrow> CUserQueryHiveLog \<Rightarrow> HIVELOCALLOG_S list list \<Rightarrow> FS
     \<Rightarrow> (CUserQueryHiveLog \<times> HIVELOCALLOG_S list list \<times> FS) option" where
  "hive_iteration lt t1 t2 t3 t4 h vecHiveLog fs =
     (case BdxQueryHiveLogOpenFile lt t1 t2 t3 h fs of
        (h, fs) \<Rightarrow> map_option (\<lambda>(xs, fs). (h, xs, fs)) (drain_hives (lt t4) (h_pFile h) vecHiveLog fs))"

section \<open>Printing\<close>

lemma print_rows_text:
  "print_rows (Some q) rs fs = Some fs' \<Longrightarrow>
   file_text p fs' = file_text p fs @ (if p = q then concat rs else [])"
  by (induction rs arbitrary: fs) (auto simp: os_fwrite_def)

lemma print_rows_defined: "print_rows f rs fs \<noteq> None \<longleftrightarrow> rs = [] \<or> f \<noteq> None"
proof (induction f rs fs rule: print_rows.induct)
  case (3 q r rs fs)
  then show ?case by (cases rs) auto
qed auto

lemma drain_hive_rows: "drain_hive t f rs fs = print_rows f (map (hive_row t) rs) fs"
  by (induction t f rs fs rule: drain_hive.induct) auto

lemma print_rows_append: "print_rows f (rs @ ss) fs = Option.bind (print_rows f rs fs) (print_rows f ss)"
  by (induction f rs fs rule: print_rows.induct) (cases ss; auto)+

lemma drain_hives_rows:
  "drain_hives t f xs fs = map_option (Pair (map (\<lambda>_. []) xs)) (print_rows f (map (hive_row t) (concat xs)) fs)"
  by (induction xs arbitrary: fs) (auto simp: drain_hive_rows print_rows_append option.map_comp comp_def split: option.split)

section \<open>Adding the reports of the workers\<close>

lemma GetReport_fold: "BdxQueryCountGetReport m rs = (fold (\<lambda>r m. report_add m r) rs m, map (\<lambda>_. []) rs)"
  by (induction rs arbitrary: m) (auto simp: report_assign_def)

lemma fold_report_wf: "list_all map_wf rs \<Longrightarrow> map_wf m \<Longrightarrow> map_wf (fold (\<lambda>r m. report_add m r) rs m)"
  by (induction rs arbitrary: m) (auto simp: report_add_wf)

text \<open>A counter that \<open>+=\<close> adds.\<close>

definition additive :: "(USERINFO_S \<Rightarrow> u64) \<Rightarrow> bool" where
  "additive f \<longleftrightarrow> f zero_USERINFO = 0 \<and> (\<forall>a b. f (add_USERINFO a b) = f a + f b)"

lemma additive_counters:
  "additive m_ullReqNum" "additive m_ullResNum" "additive m_ullEmptyResNum" "additive m_ullResTagNum" "additive m_ullResErrorNum"
  by (simp_all add: additive_def zero_USERINFO_def add_USERINFO_def)

lemma report_add_counter:
  assumes "additive f" "map_wf m" "map_wf r"
  shows "f (map_at zero_USERINFO k (report_add m r)) = f (map_at zero_USERINFO k m) + f (map_at zero_USERINFO k r)"
  using assms report_add_get [OF assms(2,3), of k] by (auto simp: map_at_def additive_def split: option.split)

lemma fold_report_counter:
  assumes "additive f" "list_all map_wf rs" "map_wf m"
  shows "f (map_at zero_USERINFO k (fold (\<lambda>r m. report_add m r) rs m)) =
    f (map_at zero_USERINFO k m) + (\<Sum>r\<leftarrow>rs. f (map_at zero_USERINFO k r))"
  using assms by (induction rs arbitrary: m) (auto simp: report_add_wf report_add_counter)

lemma fold_report_keys:
  assumes "list_all map_wf rs" "map_wf m"
  shows "map_of (fold (\<lambda>r m. report_add m r) rs m) k = None \<longleftrightarrow>
    map_of m k = None \<and> list_all (\<lambda>r. map_of r k = None) rs"
  using assms by (induction rs arbitrary: m) (auto simp: report_add_wf report_add_get split: option.split)

section \<open>The statistics thread\<close>

abbreviation count_name :: "(int \<Rightarrow> tm) \<Rightarrow> int \<Rightarrow> int \<Rightarrow> CUserQueryCount \<Rightarrow> string" where
  "count_name lt t1 t2 c \<equiv> count_file_name (m_stStatisticsPrm c)
     (BdxUserQueryCountGetDate lt t1 0) (BdxUserQueryCountGetDate lt t2 0)"

lemma file_text_none: "\<not> is_file p fs \<Longrightarrow> file_text p fs = []"
  by (simp add: is_file_def file_text_def)

lemma fopen_a_new:
  assumes "\<not> FileBeExists name fs"
  shows "os_fopen (cstr name) ''a'' fs = (None, fs)
    \<or> os_fopen (cstr name) ''a'' fs = (Some (canon (cstr name)), put_file (canon (cstr name)) [] fs)
      \<and> \<not> is_file (canon (cstr name)) fs"
  using assms by (auto simp: os_fopen_def Let_def FileBeExists_def os_access_def)

lemma OpenFile_cases:
  assumes "BdxQueryCountOpenFile lt t1 t2 c fs = Some (c1, fs1)"
  shows "m_stReport c1 = m_stReport c \<and> (\<forall>q. c_pFile c1 = Some q \<longrightarrow>
    (\<forall>p. file_text p fs1 = file_text p fs
       @ (if p = q \<and> \<not> FileBeExists (count_name lt t1 t2 c) fs then count_title else [])))"
proof (cases "FileBeExists (count_name lt t1 t2 c) fs")
  case False
  let ?q = "canon (cstr (count_name lt t1 t2 c))"
  from fopen_a_new [OF False] show ?thesis
  proof
    assume "os_fopen (cstr (count_name lt t1 t2 c)) ''a'' fs = (None, fs)"
    then have "c_pFile c1 = None \<and> m_stReport c1 = m_stReport c" using assms False
      by (auto simp: BdxQueryCountOpenFile_def title_if_empty_def BdxQueryCountWriteTitle_def split: if_splits)
    then show ?thesis by simp
  next
    assume "os_fopen (cstr (count_name lt t1 t2 c)) ''a'' fs = (Some ?q, put_file ?q [] fs) \<and> \<not> is_file ?q fs"
    then have "c1 = c\<lparr>c_pFile := Some ?q\<rparr>" "fs1 = os_fwrite ?q count_title (put_file ?q [] fs)" "file_text ?q fs = []"
      using assms False
      by (auto simp: BdxQueryCountOpenFile_def Let_def title_if_empty_def stat_empty_def BdxQueryCountWriteTitle_def file_text_none)
    then show ?thesis using False by (simp add: os_fwrite_def)
  qed
qed (use assms in \<open>auto simp: BdxQueryCountOpenFile_def\<close>)

text \<open>
  No request is lost or counted twice: a round of the statistics thread that returns has
  printed one row per access key that occurs in some worker's report, with the sums (modulo
  $2^{64}$) of that key's counters over all workers, after the old text and, in a new file, the
  title; all reports are cleared.
\<close>

theorem count_iteration_totals:
  assumes "count_iteration lt t1 t2 t3 c vecReport fs = Some (c', vecReport', fs')"
    and "list_all map_wf vecReport" "m_stReport c = []"
  shows "vecReport' = map (\<lambda>_. []) vecReport \<and> m_stReport c' = [] \<and> (\<exists>total. map_wf total
    \<and> (\<forall>k. map_of total k = None \<longleftrightarrow> list_all (\<lambda>r. map_of r k = None) vecReport)
    \<and> (\<forall>k. \<forall>f \<in> {m_ullReqNum, m_ullResNum, m_ullEmptyResNum, m_ullResTagNum}.
         f (map_at zero_USERINFO k total) = (\<Sum>r\<leftarrow>vecReport. f (map_at zero_USERINFO k r)))
    \<and> (case c_pFile c' of
         None \<Rightarrow> total = []
       | Some q \<Rightarrow> file_text q fs' = file_text q fs
           @ (if FileBeExists (count_name lt t1 t2 c) fs then [] else count_title)
           @ concat (map (count_row (lt t3)) total)))"
proof -
  let ?total = "fold (\<lambda>r m. report_add m r) vecReport []"
  obtain c1 fs1 where o: "BdxQueryCountOpenFile lt t1 t2 c fs = Some (c1, fs1)"
    using assms(1) by (auto simp: count_iteration_def split: option.splits)
  note c1 = OpenFile_cases [OF o]
  have pr: "print_rows (c_pFile c1) (map (count_row (lt t3)) ?total) fs1 = Some fs'"
    and c': "c' = c1\<lparr>m_stReport := []\<rparr>" "vecReport' = map (\<lambda>_. []) vecReport"
    using assms(1,3) o c1 by (auto simp: count_iteration_def GetReport_fold report_assign_def split: option.splits)
  have wf: "map_wf ([] :: UserQueryReport)" by (simp add: map_wf_def)
  have rows: "case c_pFile c' of None \<Rightarrow> ?total = []
       | Some q \<Rightarrow> file_text q fs' = file_text q fs @ (if FileBeExists (count_name lt t1 t2 c) fs then [] else count_title)
           @ concat (map (count_row (lt t3)) ?total)"
  proof (cases "c_pFile c1")
    case None
    then show ?thesis using pr print_rows_defined [of None "map (count_row (lt t3)) ?total" fs1] c' by auto
  next
    case (Some q)
    then show ?thesis using print_rows_text [OF pr [unfolded Some], of q] c1 c' by simp
  qed
  have sums: "f (map_at zero_USERINFO k ?total) = (\<Sum>r\<leftarrow>vecReport. f (map_at zero_USERINFO k r))"
    if "f \<in> {m_ullReqNum, m_ullResNum, m_ullEmptyResNum, m_ullResTagNum}" for f k
  proof -
    have a: "additive f" using that additive_counters by auto
    then show ?thesis using fold_report_counter [OF a assms(2) wf, of k] by (simp add: map_at_def additive_def)
  qed
  show ?thesis
    by (intro conjI exI [of _ ?total] allI ballI)
      (use rows sums c' fold_report_wf [OF assms(2) wf] fold_report_keys [OF assms(2) wf] in simp_all)
qed

text \<open>
  The statistics thread does not survive midnight by itself: once the directory of the new day
  is missing and some worker counted a request, the round prints through a null stream.
\<close>

theorem count_new_day_crash:
  assumes "\<not> is_dir (parent (canon (cstr (count_name lt t1 t2 c)))) fs" "\<not> FileBeExists (count_name lt t1 t2 c) fs"
    and "list_all map_wf vecReport" "map_wf (m_stReport c)" "\<not> list_all (\<lambda>r. r = []) vecReport"
  shows "count_iteration lt t1 t2 t3 c vecReport fs = None"
proof -
  let ?total = "fold (\<lambda>r m. report_add m r) vecReport (m_stReport c)"
  have "os_fopen (cstr (count_name lt t1 t2 c)) ''a'' fs = (None, fs)"
    using assms(1) by (simp add: os_fopen_def Let_def)
  then have o: "BdxQueryCountOpenFile lt t1 t2 c fs = Some (c\<lparr>c_pFile := None\<rparr>, fs)
      \<or> BdxQueryCountOpenFile lt t1 t2 c fs = None"
    using assms(2) by (simp add: BdxQueryCountOpenFile_def title_if_empty_def BdxQueryCountWriteTitle_def)
  obtain r where r: "r \<in> set vecReport" "r \<noteq> []" using assms(5) by (auto simp: list_all_iff)
  then have "fst (hd r) \<in> fst ` set r" by simp
  then have "map_of r (fst (hd r)) \<noteq> None" by (simp add: map_of_eq_None_iff)
  then have "map_of ?total (fst (hd r)) \<noteq> None" using r fold_report_keys [OF assms(3,4)] by (auto simp: list_all_iff)
  then have "?total \<noteq> []" by auto
  then have "print_rows None (map (count_row (lt t3)) ?total) fs = None" by (cases ?total) auto
  then show ?thesis using o by (auto simp: count_iteration_def GetReport_fold)
qed

text \<open>The statistics thread of the shipped configuration, with two workers.\<close>

definition demo_count :: CUserQueryCount where
  "demo_count = \<lparr>c_pFile = Some (False, [''logs'', ''20240228'', ''status_20240228.txt'']),
     m_stStatisticsPrm = \<lparr>m_strStatisticsPath = ''./logs'', m_strStatisticsFileName = ''status'', m_uiStatisticsTime = 60\<rparr>,
     m_stReport = []\<rparr>"

definition demo_count_fs :: FS where
  "demo_count_fs = \<lparr>dirs = [(False, [''logs'', ''20240228'']), (False, [''logs''])],
     files = [((False, [''logs'', ''20240228'', ''status_20240228.txt'']), count_title)]\<rparr>"

definition demo_reports :: "UserQueryReport list" where
  "demo_reports = [[(''key1'', zero_USERINFO\<lparr>m_ullReqNum := 2\<rparr>)], [(''key1'', zero_USERINFO\<lparr>m_ullReqNum := 3, m_ullResNum := 1\<rparr>)]]"

theorem count_iteration_totals_witness:
  "\<exists>c' vecReport' fs'. count_iteration demo_lt 0 0 0 demo_count demo_reports demo_count_fs = Some (c', vecReport', fs')
     \<and> vecReport' = [[], []] \<and> m_stReport c' = []"
proof -
  have "count_iteration demo_lt 0 0 0 demo_count demo_reports demo_count_fs \<noteq> None" by code_simp
  then obtain c' v fs' where w: "count_iteration demo_lt 0 0 0 demo_count demo_reports demo_count_fs = Some (c', v, fs')" by auto
  have "list_all map_wf demo_reports" "m_stReport demo_count = []" "map (\<lambda>_. []) demo_reports = [[], [] :: UserQueryReport]"
    by (simp_all add: demo_reports_def demo_count_def map_wf_def)
  then show ?thesis using count_iteration_totals [OF w] w by auto
qed

theorem count_new_day_crash_witness:
  "count_iteration demo_lt 86400 86400 86400 demo_count demo_reports demo_count_fs = None"
proof (rule count_new_day_crash)
  show "\<not> is_dir (parent (canon (cstr (count_name demo_lt 86400 86400 demo_count)))) demo_count_fs"
    "\<not> FileBeExists (count_name demo_lt 86400 86400 demo_count) demo_count_fs" by code_simp+
  show "list_all map_wf demo_reports" "map_wf (m_stReport demo_count)" "\<not> list_all (\<lambda>r. r = []) demo_reports"
    by (simp_all add: demo_reports_def demo_count_def map_wf_def)
qed

section \<open>The query log thread\<close>

abbreviation hive_name :: "(int \<Rightarrow> tm) \<Rightarrow> int \<Rightarrow> int \<Rightarrow> int \<Rightarrow> CUserQueryHiveLog \<Rightarrow> string" where
  "hive_name lt t1 t2 t3 h \<equiv> hive_file_name (m_stHiveLogPrm h) (BdxUserQueryHiveLogGetDate lt t1 0)
     (BdxUserQueryHiveLogGetDate lt t2 0) (BdxUserQueryHiveLogGetHour lt t3 0)"

lemma hive_open:
  assumes "BdxQueryHiveLogOpenFile lt t1 t2 t3 h fs = (h1, fs1)"
  shows "file_text p fs1 = file_text p fs" "h_pFile h1 = Some q \<Longrightarrow> q = canon (cstr (hive_name lt t1 t2 t3 h))"
  using assms
  by (auto simp: BdxQueryHiveLogOpenFile_def hive_fopen_def Let_def os_fopen_a_text
      dest: os_fopen_a_text os_fopen_name split: prod.splits if_splits option.splits)

text \<open>
  The query log loses nothing and keeps the order: a round that returns has emptied every
  worker's queue and appended one row per record to the file of the hour, worker by worker and
  each worker's records oldest first, and has changed no other file.
\<close>

theorem hive_iteration_drains:
  assumes "hive_iteration lt t1 t2 t3 t4 h vecHiveLog fs = Some (h', vecHiveLog', fs')"
  shows "vecHiveLog' = map (\<lambda>_. []) vecHiveLog \<and> (case h_pFile h' of
      None \<Rightarrow> concat vecHiveLog = []
    | Some q \<Rightarrow> q = canon (cstr (hive_name lt t1 t2 t3 h)) \<and>
        (\<forall>p. file_text p fs' = file_text p fs
           @ (if p = q then concat (map (hive_row (lt t4)) (concat vecHiveLog)) else [])))"
proof -
  let ?rows = "map (hive_row (lt t4)) (concat vecHiveLog)"
  obtain h1 fs1 where o: "BdxQueryHiveLogOpenFile lt t1 t2 t3 h fs = (h1, fs1)" by fastforce
  then have pr: "print_rows (h_pFile h1) ?rows fs1 = Some fs'" "h' = h1" "vecHiveLog' = map (\<lambda>_. []) vecHiveLog"
    using assms by (auto simp: hive_iteration_def drain_hives_rows split: option.splits)
  show ?thesis
  proof (cases "h_pFile h1")
    case None
    then show ?thesis using pr print_rows_defined [of None ?rows fs1] by auto
  next
    case (Some q)
    then show ?thesis using pr print_rows_text [of q ?rows fs1 fs'] hive_open [OF o] by simp
  qed
qed

definition demo_hive :: CUserQueryHiveLog where
  "demo_hive = \<lparr>h_pFile = Some (False, [''logs'', ''20240228'', ''hive_20240228_12.txt'']),
     m_stHiveLogPrm = \<lparr>m_strStatisticsPath = ''./logs'', m_strStatisticsFileName = ''hive'', m_uiStatisticsTime = 60\<rparr>,
     h_streams = [(False, [''logs'', ''20240228'', ''hive_20240228_12.txt''])]\<rparr>"

definition demo_hive_fs :: FS where
  "demo_hive_fs = \<lparr>dirs = [(False, [''logs'', ''20240228'']), (False, [''logs''])],
     files = [((False, [''logs'', ''20240228'', ''hive_20240228_12.txt'']), ''old'')]\<rparr>"

definition demo_record :: "string \<Rightarrow> HIVELOCALLOG_S" where
  "demo_record key = \<lparr>strAccessKeyId = key, iSource = 1, strTelNo = [], strTimeStamp = [], strLiveTime = [],
     strSinature = [], strAuthId = [], strCustName = [], strAction = [], strMd5Key = [], strReqParams = [],
     strValue = [], strQuerytime = [], strDayId = [], strHourId = []\<rparr>"

theorem hive_iteration_drains_witness:
  "\<exists>h' fs'. hive_iteration demo_lt 0 0 0 0 demo_hive [[demo_record ''a''], [], [demo_record ''b'', demo_record ''c'']] demo_hive_fs
       = Some (h', [[], [], []], fs')
     \<and> file_text (False, [''logs'', ''20240228'', ''hive_20240228_12.txt'']) fs'
       = ''old'' @ hive_row (demo_lt 0) (demo_record ''a'') @ hive_row (demo_lt 0) (demo_record ''b'')
           @ hive_row (demo_lt 0) (demo_record ''c'')"
proof -
  let ?xs = "[[demo_record ''a''], [], [demo_record ''b'', demo_record ''c'']]"
  let ?q = "(False, [''logs'', ''20240228'', ''hive_20240228_12.txt''])"
  have "map_option (h_pFile \<circ> fst) (hive_iteration demo_lt 0 0 0 0 demo_hive ?xs demo_hive_fs) = Some (Some ?q)"
    by code_simp
  then obtain h' v fs' where w: "hive_iteration demo_lt 0 0 0 0 demo_hive ?xs demo_hive_fs = Some (h', v, fs')"
    "h_pFile h' = Some ?q" by auto
  have o: "file_text ?q demo_hive_fs = ''old''" by (simp add: file_text_def demo_hive_fs_def)
  note d = hive_iteration_drains [OF w(1), unfolded w(2) option.case]
  have "file_text ?q fs' = file_text ?q demo_hive_fs @ concat (map (hive_row (demo_lt 0)) (concat ?xs))"
    using d [THEN conjunct2, THEN conjunct2, rule_format, of ?q] by (simp only: if_True refl)
  moreover have "v = [[], [], []]" using d by simp
  ultimately show ?thesis using w(1) o by simp
qed

text \<open>Successive rounds, each with its four clock readings.\<close>

fun hive_run ::
  "(int \<Rightarrow> tm) \<Rightarrow> (int \<times> int \<times> int \<times> int) list \<Rightarrow> CUserQueryHiveLog \<Rightarrow> HIVELOCALLOG_S list list \<Rightarrow> FS
     \<Rightarrow> (CUserQueryHiveLog \<times> HIVELOCALLOG_S list list \<times> FS) option" where
  "hive_run lt [] h xs fs = Some (h, xs, fs)"
| "hive_run lt ((t1, t2, t3, t4) # ts) h xs fs =
     Option.bind (hive_iteration lt t1 t2 t3 t4 h xs fs) (\<lambda>(h, xs, fs). hive_run lt ts h xs fs)"

lemma print_rows_file:
  "fs_ok fs \<Longrightarrow> is_file q fs \<Longrightarrow>
   \<exists>fs'. print_rows (Some q) rs fs = Some fs' \<and> fs_ok fs' \<and> is_file q fs' \<and> dirs fs' = dirs fs"
proof (induction rs arbitrary: fs)
  case (Cons r rs)
  have "dirs (os_fwrite q r fs) = dirs fs" by (simp add: os_fwrite_def put_file_def)
  then show ?case using Cons.IH [of "os_fwrite q r fs"] Cons.prems by (simp add: fs_ok_fwrite) (simp add: os_fwrite_def)
qed simp

lemma fopen_a_existing:
  assumes "fs_ok fs" "is_file (canon (cstr name)) fs" "FileBeExists name fs"
  shows "os_fopen (cstr name) ''a'' fs = (Some (canon (cstr name)), fs)"
  using assms fs_ok_file [OF assms(1,2)] by (auto simp: os_fopen_def Let_def FileBeExists_def os_access_def)

lemma hive_iteration_leaks:
  assumes "fs_ok fs" "is_file (canon (cstr name)) fs" "FileBeExists name fs" "hive_name lt t1 t2 t3 h = name"
  shows "\<exists>h' xs' fs'. hive_iteration lt t1 t2 t3 t4 h xs fs = Some (h', xs', fs')
    \<and> m_stHiveLogPrm h' = m_stHiveLogPrm h \<and> length (h_streams h') = Suc (length (h_streams h))
    \<and> fs_ok fs' \<and> is_file (canon (cstr name)) fs' \<and> FileBeExists name fs'"
proof -
  let ?q = "canon (cstr name)"
  have o: "BdxQueryHiveLogOpenFile lt t1 t2 t3 h fs = (h\<lparr>h_pFile := Some ?q, h_streams := ?q # h_streams h\<rparr>, fs)"
    using assms fopen_a_existing [OF assms(1-3)] by (simp add: BdxQueryHiveLogOpenFile_def hive_fopen_def Let_def)
  obtain fs' where p: "print_rows (Some ?q) (map (hive_row (lt t4)) (concat xs)) fs = Some fs'"
    "fs_ok fs'" "is_file ?q fs'" "dirs fs' = dirs fs" using print_rows_file [OF assms(1,2)] by blast
  moreover have "\<not> is_dir ?q fs" using fs_ok_file [OF assms(1,2)] by simp
  then have "FileBeExists name fs'" using assms(3) p by (auto simp: FileBeExists_def os_access_def)
  ultimately show ?thesis using o by (simp add: hive_iteration_def drain_hives_rows)
qed

text \<open>
  The query log thread leaks its streams: while the file of the hour exists, every round opens
  it once more and closes nothing, so \<open>n\<close> rounds leave \<open>n\<close> more streams open.
\<close>

theorem hive_log_leaks_streams:
  assumes "fs_ok fs" "is_file (canon (cstr name)) fs" "FileBeExists name fs"
    and "list_all (\<lambda>(t1, t2, t3, t4). hive_name lt t1 t2 t3 h = name) ts"
  shows "\<exists>h' xs' fs'. hive_run lt ts h xs fs = Some (h', xs', fs')
    \<and> length (h_streams h') = length (h_streams h) + length ts"
  using assms
proof (induction ts arbitrary: h xs fs)
  case (Cons t ts)
  obtain t1 t2 t3 t4 where t: "t = (t1, t2, t3, t4)" by (cases t)
  obtain h1 xs1 fs1 where i: "hive_iteration lt t1 t2 t3 t4 h xs fs = Some (h1, xs1, fs1)"
    "m_stHiveLogPrm h1 = m_stHiveLogPrm h" "length (h_streams h1) = Suc (length (h_streams h))"
    "fs_ok fs1" "is_file (canon (cstr name)) fs1" "FileBeExists name fs1"
    using hive_iteration_leaks [OF Cons.prems(1-3), where lt = lt and h = h] Cons.prems(4) by (fastforce simp: t)
  then show ?case using Cons.IH [of fs1 h1 xs1] Cons.prems(4) by (simp add: t)
qed simp

theorem hive_log_leaks_streams_witness:
  "\<exists>h' xs' fs'. hive_run demo_lt [(0, 0, 0, 0), (60, 60, 60, 60), (120, 120, 120, 120)] demo_hive [[]] demo_hive_fs = Some (h', xs', fs')
     \<and> length (h_streams h') = 4"
proof -
  let ?name = "''./logs/20240228/hive_20240228_12.txt''" and ?ts = "[(0, 0, 0, 0), (60, 60, 60, 60), (120, 120, 120, 120)]"
  have "fs_ok demo_hive_fs" "is_file (canon (cstr ?name)) demo_hive_fs" "FileBeExists ?name demo_hive_fs"
    "list_all (\<lambda>(t1, t2, t3, t4). hive_name demo_lt t1 t2 t3 demo_hive = ?name) ?ts" by code_simp+
  moreover have "length (h_streams demo_hive) + length ?ts = 4" by (simp add: demo_hive_def)
  ultimately show ?thesis using hive_log_leaks_streams [where name = ?name and xs = "[[]]"] by metis
qed

end
