(* ===== verification/WorkThreads.thy ===== *)
theory WorkThreads
  imports DataAdapter Server
begin

text \<open>
  Creating the worker threads: the constructor of
  \<^verbatim>\<open>src/src/UserQueryWorkThreads/UserQueryWorkThreads.cpp\<close>. The static vectors of the
  class are one record; \<^verbatim>\<open>m_vecTaskBuf\<close> and \<^verbatim>\<open>m_vecTaskStauts\<close> grow together and are
  the worker list of \<^verbatim>\<open>Server\<close>. Allocation does not fail.
\<close>

record WorkStatics =
  m_uiCount :: u32
  m_vecTask :: "Worker list"
  m_vecReport :: "UserQueryReport list"
  m_vecHiveLog :: "HIVELOCALLOG_S list list"

definition no_workers :: WorkStatics where
  "no_workers = \<lparr>m_uiCount = 0, m_vecTask = [], m_vecReport = [], m_vecHiveLog = []\<rparr>"

text \<open>\<^verbatim>\<open>count;ip:port,idx;\<close>, each number printed into 10 bytes (\<open>None\<close> when it does not fit).\<close>

definition strServerList :: "IPPORT_S \<Rightarrow> string option" where
  "strServerList s =
     (let chCount = show_int (m_count s); chPort = show_int (uint (m_uiPort s)); chIdx = show_int (m_idx s) in
      if 10 \<le> length chCount \<or> 10 \<le> length chIdx then None
      else Some (chCount @ '';'' @ m_pchIp s @ '':'' @ chPort @ '','' @ chIdx @ '';''))"

text \<open>The result of the adapter's \<open>Init\<close> is ignored.\<close>

definition AdWorkInit ::
  "('c, 'w) hiredis \<Rightarrow> IPPORT_S \<Rightarrow> CMd5 \<Rightarrow> WorkStatics \<Rightarrow> 'w \<Rightarrow> (u32 \<times> 'c CDataAdapter \<times> WorkStatics \<times> 'w) option" where
  "AdWorkInit hi stRedisServer md5 st w =
     (case strServerList stRedisServer of
        None \<Rightarrow> None
      | Some l \<Rightarrow>
          (case AdapterInit hi l \<lparr>servers = [], m_clMd5 = md5\<rparr> w of
             None \<Rightarrow> None
           | Some (_, m_pDataRedis, w) \<Rightarrow>
               Some (m_uiCount st, m_pDataRedis,
                 st\<lparr>m_uiCount := m_uiCount st + 1, m_vecTask := m_vecTask st @ [idle_worker],
                    m_vecReport := m_vecReport st @ [[]], m_vecHiveLog := m_vecHiveLog st @ [[]]\<rparr>, w)))"

text \<open>The loop of \<^verbatim>\<open>UserQueryMainCore\<close> that makes \<open>n\<close> workers.\<close>

fun make_workers ::
  "('c, 'w) hiredis \<Rightarrow> IPPORT_S \<Rightarrow> CMd5 \<Rightarrow> nat \<Rightarrow> WorkStatics \<Rightarrow> 'w \<Rightarrow> ((u32 \<times> 'c CDataAdapter) list \<times> WorkStatics \<times> 'w) option" where
  "make_workers hi s md5 0 st w = Some ([], st, w)"
| "make_workers hi s md5 (Suc n) st w =
     (case AdWorkInit hi s md5 st w of
        None \<Rightarrow> None
      | Some (i, a, st, w) \<Rightarrow> map_option (\<lambda>(xs, st, w). ((i, a) # xs, st, w)) (make_workers hi s md5 n st w))"

section \<open>Thread numbers are indices\<close>

lemma make_workers_indices:
  "make_workers hi s md5 n st w = Some (xs, st', w') \<Longrightarrow>
   unat (m_uiCount st) = length (m_vecTask st) \<Longrightarrow> length (m_vecReport st) = length (m_vecTask st) \<Longrightarrow>
   length (m_vecHiveLog st) = length (m_vecTask st) \<Longrightarrow> unat (m_uiCount st) + n < 2 ^ 32 \<Longrightarrow>
   map (unat \<circ> fst) xs = [unat (m_uiCount st) ..< unat (m_uiCount st) + n]
   \<and> length (m_vecTask st') = unat (m_uiCount st) + n \<and> length (m_vecReport st') = length (m_vecTask st')
   \<and> length (m_vecHiveLog st') = length (m_vecTask st')"
proof (induction n arbitrary: st w xs)
  case (Suc n)
  obtain i a st1 w1 where i: "AdWorkInit hi s md5 st w = Some (i, a, st1, w1)"
    using Suc.prems(1) by (auto split: option.splits)
  then obtain ys where ys: "make_workers hi s md5 n st1 w1 = Some (ys, st', w')" "xs = (i, a) # ys"
    using Suc.prems(1) by auto
  have st1: "i = m_uiCount st" "m_uiCount st1 = m_uiCount st + 1" "length (m_vecTask st1) = Suc (length (m_vecTask st))"
    "length (m_vecReport st1) = Suc (length (m_vecReport st))" "length (m_vecHiveLog st1) = Suc (length (m_vecHiveLog st))"
    using i by (auto simp: AdWorkInit_def split: option.splits)
  have u: "unat (m_uiCount st1) = Suc (unat (m_uiCount st))" using st1 Suc.prems(5) by (simp add: unat_word_ariths)
  then show ?case using Suc.IH [OF ys(1)] Suc.prems st1 ys(2) by (simp add: upt_conv_Cons)
qed simp

section \<open>The server list of a worker\<close>

lemma atoi_idx: "0 \<le> i \<Longrightarrow> i < 2 ^ 31 \<Longrightarrow> atoi (show_int i) = i"
  by (rule atoi_show_int) auto

definition redis_ok :: "IPPORT_S \<Rightarrow> bool" where
  "redis_ok s \<longleftrightarrow> CHR '':'' \<notin> set (m_pchIp s) \<and> CHR '';'' \<notin> set (m_pchIp s) \<and> length (m_pchIp s) < 128
     \<and> 0 \<le> m_idx s \<and> m_idx s < 65536 \<and> 0 \<le> m_count s \<and> m_count s < 100000000"

lemma length_show_nat: "0 < k \<Longrightarrow> n < 10 ^ k \<Longrightarrow> length (show_nat n) \<le> k"
proof (induction n arbitrary: k rule: show_nat.induct)
  case (1 n)
  show ?case
  proof (cases "n < 10")
    case False
    obtain j where k: "k = Suc j" using 1(2) by (cases k) simp_all
    have j: "0 < j" using 1(3) False k by (cases j) simp_all
    have "n div 10 < 10 ^ j" using 1(3) k by (simp add: less_mult_imp_div_less)
    with j have "length (show_nat (n div 10)) \<le> j" by (rule 1(1) [OF False])
    with False k show ?thesis by (subst show_nat.simps) simp
  qed (use 1 in \<open>subst show_nat.simps, simp\<close>)
qed

lemma redis_entry:
  assumes "redis_ok s"
  shows "strServerList s = Some (show_nat (nat (m_count s)) @ '';'' @ show_serv (m_pchIp s, m_uiPort s, word_of_int (m_idx s)) @ '';'')"
    "serv_ok (m_pchIp s, m_uiPort s, word_of_int (m_idx s))"
proof -
  have i: "unat (word_of_int (m_idx s) :: 16 word) = nat (m_idx s)" "nat (m_idx s) < 65536"
    using assms by (auto simp: redis_ok_def unsigned_of_int take_bit_int_eq_self)
  have c: "nat (m_count s) < 10 ^ 8" using assms by (auto simp: redis_ok_def)
  have p: "unat (m_uiPort s) < 65536" using unsigned_less [of "m_uiPort s", where ?'a = nat] by simp
  have d: "length (show_nat (nat (m_idx s))) \<le> 5" "length (show_nat (nat (m_count s))) \<le> 8"
    "length (show_nat (unat (m_uiPort s))) \<le> 5"
    using length_show_nat [of 5 "nat (m_idx s)"] length_show_nat [of 8 "nat (m_count s)"]
      length_show_nat [of 5 "unat (m_uiPort s)"] i c p by auto
  have n: "show_int (m_count s) = show_nat (nat (m_count s))" "show_int (m_idx s) = show_nat (nat (m_idx s))"
    "show_int (uint (m_uiPort s)) = show_nat (unat (m_uiPort s))"
    using assms by (auto simp: redis_ok_def show_int_def)
  show "strServerList s = Some (show_nat (nat (m_count s)) @ '';'' @ show_serv (m_pchIp s, m_uiPort s, word_of_int (m_idx s)) @ '';'')"
    using d by (simp add: strServerList_def n show_serv_def i Let_def)
  show "serv_ok (m_pchIp s, m_uiPort s, word_of_int (m_idx s))"
    using assms d by (simp add: serv_ok_def show_serv_def redis_ok_def i)
qed

lemma server_list_cases:
  assumes "redis_ok s"
  shows "\<exists>l. strServerList s = Some l \<and> redis_serv_list l =
    (if m_count s = 0 then Some (True, [], [], [])
     else if m_count s = 1 then Some (True, [m_pchIp s], [m_uiPort s], [word_of_int (m_idx s)])
     else None)"
proof -
  let ?sv = "(m_pchIp s, m_uiPort s, word_of_int (m_idx s))" and ?n = "nat (m_count s)"
  let ?rest = "show_serv ?sv @ '';''"
  have c: "?n < 2 ^ 31" "0 \<le> m_count s" using assms by (auto simp: redis_ok_def)
  have 1: "strchr (show_nat ?n @ '';'' @ ?rest) (CHR '';'') = Some (CHR '';'' # ?rest)"
    using strchr_first [of "CHR '';''" "show_nat ?n" ?rest] by (simp add: digits_no not_digits)
  have 2: "atoi (show_nat ?n @ '';'' @ ?rest) = m_count s"
    using atoi_then [OF c(1), of "'';'' @ ?rest"] c(2) by (simp add: not_digits)
  have 3: "unat (word_of_int (m_count s) :: u32) = ?n"
    using assms by (simp add: redis_ok_def unsigned_of_int take_bit_int_eq_self)
  have 4: "serv_list_loop (Suc n) ?rest ([], [], []) = serv_list_loop n [] ([m_pchIp s], [m_uiPort s], [word_of_int (m_idx s)])" for n
    using serv_list_loop_one [OF redis_entry(2) [OF assms], of n "[]" "[]" "[]" "[]"] by simp
  have 5: "serv_list_loop ?n ?rest ([], [], []) =
    (if m_count s = 0 then Some (True, [], [], [])
     else if m_count s = 1 then Some (True, [m_pchIp s], [m_uiPort s], [word_of_int (m_idx s)])
     else None)"
  proof (cases ?n)
    case (Suc n)
    then have "m_count s = int (Suc n)" using c(2) by simp
    then show ?thesis unfolding Suc 4 by (cases n) (auto simp: strchr_def)
  qed (use c in simp)
  show ?thesis unfolding redis_entry(1) [OF assms] by (simp add: redis_serv_list_def 1 2 3 5 del: append_Cons)
qed

text \<open>
  A worker writes its one Redis server after the configured \<^verbatim>\<open>NUMS\<close>: with \<^verbatim>\<open>NUMS\<close> 1 the
  adapter gets exactly that server, with 0 it gets none (and every later access divides by zero),
  and with 2 or more the parser runs off the end of the list.
\<close>

theorem worker_server_list:
  assumes "redis_ok s"
  shows "\<exists>l. strServerList s = Some l \<and> redis_serv_list l =
    (if m_count s = 0 then Some (True, [], [], [])
     else if m_count s = 1 then Some (True, [m_pchIp s], [m_uiPort s], [word_of_int (m_idx s)])
     else None)"
  using assms by (rule server_list_cases)

text \<open>The Redis section of the shipped configuration, and the same with two servers announced.\<close>

definition demo_redis :: "int \<Rightarrow> IPPORT_S" where
  "demo_redis n = \<lparr>m_pchIp = ''0.0.0.0'', m_uiPort = 59001, m_idx = 0, m_count = n\<rparr>"

theorem worker_server_list_witness:
  "(\<exists>l. strServerList (demo_redis 1) = Some l \<and> redis_serv_list l = Some (True, [''0.0.0.0''], [59001], [0]))
   \<and> (\<exists>l. strServerList (demo_redis 2) = Some l \<and> redis_serv_list l = None)"
  using worker_server_list [of "demo_redis 1"] worker_server_list [of "demo_redis 2"]
  by (simp add: redis_ok_def demo_redis_def)


section \<open>All workers\<close>

text \<open>
  Thread numbers are valid indices: after the start-up loop has made \<open>n\<close> workers, they carry
  the numbers 0 to \<open>n - 1\<close> in order and each of the static vectors that they index has \<open>n\<close>
  entries.
\<close>

theorem worker_threads_indexed:
  assumes "make_workers hi s md5 n no_workers w = Some (xs, st, w')" "n < 2 ^ 32"
  shows "map (unat \<circ> fst) xs = [0 ..< n] \<and> length (m_vecTask st) = n \<and> length (m_vecReport st) = n
    \<and> length (m_vecHiveLog st) = n"
  using make_workers_indices [OF assms(1)] assms(2) by (simp add: no_workers_def)

lemma AdWorkInit_one:
  assumes "redis_ok s" "m_count s = 1"
  shows "\<exists>i a st' w'. AdWorkInit hi s md5 st w = Some (i, a, st', w')"
  using server_list_cases [OF assms(1)] assms(2)
  by (auto simp: AdWorkInit_def AdapterInit_def split: prod.split)

theorem worker_threads_indexed_witness:
  "\<exists>xs st w'. make_workers kv_redis (demo_redis 1) (m_clMd5 one_server) 2 no_workers [] = Some (xs, st, w')
     \<and> map (unat \<circ> fst) xs = [0, 1] \<and> length (m_vecReport st) = 2"
proof -
  have ok: "redis_ok (demo_redis 1)" "m_count (demo_redis 1) = 1" by (simp_all add: redis_ok_def demo_redis_def)
  obtain i a st1 w1 where 1: "AdWorkInit kv_redis (demo_redis 1) (m_clMd5 one_server) no_workers [] = Some (i, a, st1, w1)"
    using AdWorkInit_one [OF ok, of kv_redis "m_clMd5 one_server" no_workers "[]"] by auto
  obtain i' a' st2 w2 where 2: "AdWorkInit kv_redis (demo_redis 1) (m_clMd5 one_server) st1 w1 = Some (i', a', st2, w2)"
    using AdWorkInit_one [OF ok, of kv_redis "m_clMd5 one_server" st1 w1] by auto
  have m: "make_workers kv_redis (demo_redis 1) (m_clMd5 one_server) 2 no_workers [] = Some ([(i, a), (i', a')], st2, w2)"
    by (simp add: numeral_2_eq_2 1 2)
  then show ?thesis using worker_threads_indexed [OF m] by (auto simp: upt_rec)
qed

end
