(* ===== verification/Sockets.thy ===== *)
theory Sockets
  imports Prelude
begin

text \<open>
  TCP and SSL sockets: \<^verbatim>\<open>src/src/CommonTools/Socket/TcpSocket.cpp\<close>. The operating system
  and OpenSSL are the parameter \<open>net\<close>, whose operations act on the outside world \<open>'w\<close>; a
  failing call is a value. \<open>None\<close> is a call with undefined behaviour (an SSL pointer that was
  never set) or, for the SSL loops, a call that does not return.
\<close>

section \<open>The operating system and OpenSSL\<close>

text \<open>\<open>Recv []\<close> is the end of the stream, \<open>RecvAgain\<close> is \<^verbatim>\<open>EAGAIN\<close>.\<close>

datatype recv_result = Recv string | RecvAgain | RecvError

datatype ssl_error = SSL_ERROR_NONE | SSL_ERROR_ZERO_RETURN | SSL_ERROR_WANT_READ | SSL_ERROR_WANT_WRITE | SSL_ERROR_OTHER

text \<open>
  \<open>SSL_read\<close> gives its result, the code of \<^verbatim>\<open>SSL_get_error\<close> and the bytes stored;
  \<open>SSL_connect\<close> stands for \<^verbatim>\<open>SSL_set_fd\<close> and \<^verbatim>\<open>SSL_connect\<close>, both returning 1.
\<close>

record 'w net =
  os_socket :: "'w \<Rightarrow> int \<times> 'w"
  os_setsockopt :: "int \<Rightarrow> 'w \<Rightarrow> bool \<times> 'w"
  os_connect :: "int \<Rightarrow> string \<Rightarrow> 16 word \<Rightarrow> 'w \<Rightarrow> bool \<times> 'w"
  os_recv :: "int \<Rightarrow> nat \<Rightarrow> 'w \<Rightarrow> recv_result \<times> 'w"
  os_send :: "int \<Rightarrow> string \<Rightarrow> 'w \<Rightarrow> int \<times> 'w"
  os_close :: "int \<Rightarrow> 'w \<Rightarrow> 'w"
  SSL_connect :: "int \<Rightarrow> 'w \<Rightarrow> bool \<times> 'w"
  SSL_read :: "int \<Rightarrow> int \<Rightarrow> 'w \<Rightarrow> (int \<times> ssl_error \<times> string) \<times> 'w"
  SSL_write :: "int \<Rightarrow> string \<Rightarrow> 'w \<Rightarrow> (int \<times> ssl_error) \<times> 'w"
  SSL_shutdown :: "int \<Rightarrow> 'w \<Rightarrow> 'w"

section \<open>CTcpSocket\<close>

datatype ssl_pointer = Unset | Null | Live

record CTcpSocket =
  m_iSockfd :: int
  m_in_portPort :: "16 word"
  m_strIp :: string
  m_uiTimeout :: u32
  m_bConnect :: bool
  m_ssl :: ssl_pointer

text \<open>The two constructors; \<open>None\<close> is the exception of the first.\<close>

definition new_CTcpSocket :: "'w net \<Rightarrow> 16 word \<Rightarrow> string \<Rightarrow> u32 \<Rightarrow> 'w \<Rightarrow> CTcpSocket option \<times> 'w" where
  "new_CTcpSocket net in_portPort strIp uiTimeout w =
     (case os_socket net w of
        (fd, w) \<Rightarrow>
          if fd = - 1 then (None, w)
          else (Some \<lparr>m_iSockfd = fd, m_in_portPort = in_portPort, m_strIp = strIp, m_uiTimeout = uiTimeout,
                      m_bConnect = False, m_ssl = Unset\<rparr>, w))"

definition CTcpSocket_of_fd :: "int \<Rightarrow> u32 \<Rightarrow> CTcpSocket" where
  "CTcpSocket_of_fd iSockfd uiTimeout =
     \<lparr>m_iSockfd = iSockfd, m_in_portPort = 0, m_strIp = [], m_uiTimeout = uiTimeout, m_bConnect = True, m_ssl = Unset\<rparr>"

definition delete_CTcpSocket :: "'w net \<Rightarrow> CTcpSocket \<Rightarrow> 'w \<Rightarrow> 'w" where
  "delete_CTcpSocket net s w =
     (case os_setsockopt net (m_iSockfd s) w of
        (_, w) \<Rightarrow> if m_iSockfd s \<noteq> - 1 then os_close net (m_iSockfd s) w else w)"

text \<open>The arguments of \<open>TcpConnect\<close> are ignored: it uses the members.\<close>

definition TcpConnect :: "'w net \<Rightarrow> CTcpSocket \<Rightarrow> 'w \<Rightarrow> int \<times> CTcpSocket \<times> 'w" where
  "TcpConnect net s w =
     (if m_iSockfd s = - 1 then (- 1, s, w)
      else case os_setsockopt net (m_iSockfd s) w of
             (False, w) \<Rightarrow> (- 1, s, w)
           | (True, w) \<Rightarrow>
               (case os_setsockopt net (m_iSockfd s) w of
                  (False, w) \<Rightarrow> (- 1, s, w)
                | (True, w) \<Rightarrow>
                    (case os_connect net (m_iSockfd s) (m_strIp s) (m_in_portPort s) w of
                       (False, w) \<Rightarrow> (- 1, s, w)
                     | (True, w) \<Rightarrow> (0, s\<lparr>m_bConnect := True\<rparr>, w))))"

definition TcpReconnect :: "'w net \<Rightarrow> CTcpSocket \<Rightarrow> 'w \<Rightarrow> int \<times> CTcpSocket \<times> 'w" where
  "TcpReconnect net s w =
     (if m_bConnect s then
        case os_socket net (os_close net (m_iSockfd s) w) of
          (fd, w) \<Rightarrow>
            let s = s\<lparr>m_iSockfd := fd, m_bConnect := False\<rparr> in
            if fd < 0 then (- 1, s, w) else TcpConnect net s w
      else TcpConnect net s w)"

text \<open>The bytes received, and the return value: -2 for a timeout, -1 for an error.\<close>

definition TcpRead :: "'w net \<Rightarrow> CTcpSocket \<Rightarrow> nat \<Rightarrow> 'w \<Rightarrow> int \<times> string \<times> 'w" where
  "TcpRead net s sizeRecvLen w =
     (if sizeRecvLen = 0 \<or> m_iSockfd s = - 1 then (- 1, [], w)
      else case os_setsockopt net (m_iSockfd s) w of
             (False, w) \<Rightarrow> (- 1, [], w)
           | (True, w) \<Rightarrow>
               (case os_recv net (m_iSockfd s) sizeRecvLen w of
                  (RecvAgain, w) \<Rightarrow> (- 2, [], w)
                | (RecvError, w) \<Rightarrow> (- 1, [], w)
                | (Recv d, w) \<Rightarrow> (int (length (take sizeRecvLen d)), take sizeRecvLen d, w)))"

text \<open>
  The loop of \<open>TcpReadAll\<close>; \<open>n\<close> is the room left in the buffer and \<open>buf\<close> what is in it.
\<close>

function TcpReadAll_loop :: "'w net \<Rightarrow> CTcpSocket \<Rightarrow> nat \<Rightarrow> string \<Rightarrow> 'w \<Rightarrow> int \<times> string \<times> 'w" where
  "TcpReadAll_loop net s n buf w =
     (case TcpRead net s n w of
        (ilength, d, w) \<Rightarrow>
          if 0 < ilength \<and> length d < n \<and> d \<noteq> [] then TcpReadAll_loop net s (n - length d) (buf @ d) w
          else if ilength < 0 then (ilength, buf, w)
          else (int (length (buf @ d)), buf @ d, w))"
  by pat_completeness auto

termination
  by (relation "measure (\<lambda>(net, s, n, buf, w). n)") auto

declare TcpReadAll_loop.simps [simp del]

definition TcpReadAll :: "'w net \<Rightarrow> CTcpSocket \<Rightarrow> nat \<Rightarrow> 'w \<Rightarrow> int \<times> string \<times> 'w" where
  "TcpReadAll net s sizeRecvLen w =
     (if sizeRecvLen = 0 then (- 1, [], w) else TcpReadAll_loop net s sizeRecvLen [] w)"

definition TcpWrite :: "'w net \<Rightarrow> CTcpSocket \<Rightarrow> string \<Rightarrow> 'w \<Rightarrow> bool \<times> 'w" where
  "TcpWrite net s buf w =
     (if buf = [] then (False, w)
      else case os_send net (m_iSockfd s) buf w of (r, w) \<Rightarrow> (r = int (length buf), w))"

definition TcpClose :: "'w net \<Rightarrow> CTcpSocket \<Rightarrow> 'w \<Rightarrow> CTcpSocket \<times> 'w" where
  "TcpClose net s w =
     (case os_setsockopt net (m_iSockfd s) w of
        (_, w) \<Rightarrow>
          if m_bConnect s then
            if m_iSockfd s \<noteq> - 1 then (s\<lparr>m_iSockfd := - 1, m_bConnect := False\<rparr>, os_close net (m_iSockfd s) w)
            else (s\<lparr>m_bConnect := False\<rparr>, w)
          else (s, w))"

definition TcpCloseFinal :: "'w net \<Rightarrow> CTcpSocket \<Rightarrow> 'w \<Rightarrow> CTcpSocket \<times> 'w" where
  "TcpCloseFinal net s w =
     (case os_setsockopt net (m_iSockfd s) w of
        (_, w) \<Rightarrow>
          if m_iSockfd s \<noteq> - 1 then (s\<lparr>m_iSockfd := - 1, m_bConnect := False\<rparr>, os_close net (m_iSockfd s) w)
          else (s\<lparr>m_bConnect := False\<rparr>, w))"

definition TcpNewSocket :: "'w net \<Rightarrow> CTcpSocket \<Rightarrow> 'w \<Rightarrow> bool \<times> CTcpSocket \<times> 'w" where
  "TcpNewSocket net s w =
     (case os_socket net (if m_bConnect s then os_close net (m_iSockfd s) w else w) of
        (fd, w) \<Rightarrow> (fd \<noteq> - 1, s\<lparr>m_iSockfd := fd, m_bConnect := False\<rparr>, w))"

definition TcpSetIp :: "string \<Rightarrow> CTcpSocket \<Rightarrow> CTcpSocket" where "TcpSetIp strIp s = s\<lparr>m_strIp := strIp\<rparr>"
definition TcpSetPort :: "16 word \<Rightarrow> CTcpSocket \<Rightarrow> CTcpSocket" where "TcpSetPort p s = s\<lparr>m_in_portPort := p\<rparr>"
definition TcpSetTimeout :: "u32 \<Rightarrow> CTcpSocket \<Rightarrow> CTcpSocket" where "TcpSetTimeout t s = s\<lparr>m_uiTimeout := t\<rparr>"

section \<open>SSL\<close>

definition TcpSslInitParams :: "CTcpSocket \<Rightarrow> CTcpSocket" where
  "TcpSslInitParams s = s\<lparr>m_ssl := Null\<rparr>"

definition TcpSslInitEnv :: "CTcpSocket \<Rightarrow> int \<times> CTcpSocket" where
  "TcpSslInitEnv s = (0, s\<lparr>m_ssl := Live\<rparr>)"

definition TcpSslConnect :: "'w net \<Rightarrow> CTcpSocket \<Rightarrow> 'w \<Rightarrow> (bool \<times> 'w) option" where
  "TcpSslConnect net s w = (if m_ssl s = Live then Some (SSL_connect net (m_iSockfd s) w) else None)"

text \<open>
  The read loop: every round reads to the start of the buffer; its counter is
  \<^verbatim>\<open>totalRead\<close>, which starts uninitialised.
\<close>

partial_function (option) ssl_read_loop ::
  "'w net \<Rightarrow> int \<Rightarrow> int \<Rightarrow> int \<Rightarrow> string \<Rightarrow> 'w \<Rightarrow> (int \<times> string \<times> 'w) option" where
  "ssl_read_loop net fd nleft totalRead buf w =
     (case SSL_read net fd nleft w of
        ((nread, e, d), w) \<Rightarrow>
          let buf = d @ drop (length d) buf in
          case e of
            SSL_ERROR_NONE \<Rightarrow>
              if 0 < 0 - nread then ssl_read_loop net fd (0 - nread) (totalRead + nread) buf w
              else Some (totalRead + nread, buf, w)
          | SSL_ERROR_ZERO_RETURN \<Rightarrow>
              if 0 < nleft then ssl_read_loop net fd nleft totalRead buf w else Some (totalRead, buf, w)
          | SSL_ERROR_WANT_READ \<Rightarrow>
              if 0 < nleft then ssl_read_loop net fd nleft totalRead buf w else Some (totalRead, buf, w)
          | SSL_ERROR_WANT_WRITE \<Rightarrow>
              if 0 < nleft - nread then ssl_read_loop net fd (nleft - nread) (totalRead + nread) buf w
              else Some (totalRead + nread, buf, w)
          | SSL_ERROR_OTHER \<Rightarrow> Some (- 1, buf, w))"

definition TcpSslReadLen :: "'w net \<Rightarrow> CTcpSocket \<Rightarrow> int \<Rightarrow> int \<Rightarrow> string \<Rightarrow> 'w \<Rightarrow> (int \<times> string \<times> 'w) option" where
  "TcpSslReadLen net s junk nBytes buf w =
     (if m_ssl s = Live then ssl_read_loop net (m_iSockfd s) nBytes junk buf w else None)"

text \<open>
  The write loop: \<open>ptr\<close> is the offset into \<open>buf\<close>. A negative result moves the pointer back, and
  an offset before the buffer is undefined.
\<close>

partial_function (option) ssl_write_loop ::
  "'w net \<Rightarrow> int \<Rightarrow> string \<Rightarrow> int \<Rightarrow> int \<Rightarrow> 'w \<Rightarrow> (int \<times> 'w) option" where
  "ssl_write_loop net fd buf ptr nleft w =
     (if ptr < 0 then None
      else case SSL_write net fd (take (nat nleft) (drop (nat ptr) buf)) w of
        ((nwrite, e), w) \<Rightarrow>
          if e = SSL_ERROR_OTHER then Some (- 1, w)
          else
            let nwrite = (if e = SSL_ERROR_ZERO_RETURN then 0 else nwrite) in
            if 0 < nleft - nwrite then ssl_write_loop net fd buf (ptr + nwrite) (nleft - nwrite) w
            else Some (int (length buf) - (nleft - nwrite), w))"

definition TcpSslWriteLen :: "'w net \<Rightarrow> CTcpSocket \<Rightarrow> string \<Rightarrow> 'w \<Rightarrow> (int \<times> 'w) option" where
  "TcpSslWriteLen net s buf w =
     (if m_ssl s = Live then ssl_write_loop net (m_iSockfd s) buf 0 (int (length buf)) w else None)"

definition TcpSslDestroy :: "'w net \<Rightarrow> CTcpSocket \<Rightarrow> 'w \<Rightarrow> (CTcpSocket \<times> 'w) option" where
  "TcpSslDestroy net s w =
     (if m_ssl s = Live then Some (TcpClose net s (SSL_shutdown net (m_iSockfd s) w)) else None)"

declare ssl_read_loop.simps [code]
declare ssl_write_loop.simps [code]

section \<open>What the SSL reader does\<close>

lemma ssl_read_loop_open:
  "ssl_read_loop net fd n t b w = Some y \<Longrightarrow> 0 < n \<Longrightarrow>
   (\<And>n w. closed w \<Longrightarrow> \<exists>r d w'. SSL_read net fd n w = ((r, SSL_ERROR_ZERO_RETURN, d), w') \<and> closed w') \<Longrightarrow>
   \<not> closed w"
proof (induction rule: ssl_read_loop.raw_induct [rotated, consumes 1, case_names step])
  case (step loop net fd n t b w y)
  show ?case
  proof
    assume "closed w"
    then obtain r d w' where "SSL_read net fd n w = ((r, SSL_ERROR_ZERO_RETURN, d), w')" "closed w'"
      using step.prems by blast
    then show False using step by auto
  qed
qed

text \<open>
  C39. \<open>TcpSslReadLen\<close> delivers one SSL record or hangs: a first read that succeeds is all it
  returns, whatever room is left; on a connection that the peer has closed it never returns.
\<close>

theorem ssl_read_one_record_or_never:
  assumes "m_ssl s = Live" "0 < nBytes"
  shows "(SSL_read net (m_iSockfd s) nBytes w = ((nread, SSL_ERROR_NONE, d), w') \<and> 0 \<le> nread \<longrightarrow>
      TcpSslReadLen net s junk nBytes buf w = Some (junk + nread, d @ drop (length d) buf, w'))
    \<and> ((\<forall>n v. closed v \<longrightarrow> (\<exists>r d v'. SSL_read net (m_iSockfd s) n v = ((r, SSL_ERROR_ZERO_RETURN, d), v') \<and> closed v')) \<and> closed w
      \<longrightarrow> TcpSslReadLen net s junk nBytes buf w = None)"
proof (intro conjI impI)
  assume "SSL_read net (m_iSockfd s) nBytes w = ((nread, SSL_ERROR_NONE, d), w') \<and> 0 \<le> nread"
  then show "TcpSslReadLen net s junk nBytes buf w = Some (junk + nread, d @ drop (length d) buf, w')"
    using assms by (simp add: TcpSslReadLen_def ssl_read_loop.simps)
next
  assume c: "(\<forall>n v. closed v \<longrightarrow> (\<exists>r d v'. SSL_read net (m_iSockfd s) n v = ((r, SSL_ERROR_ZERO_RETURN, d), v') \<and> closed v')) \<and> closed w"
  show "TcpSslReadLen net s junk nBytes buf w = None"
  proof (rule ccontr)
    assume "TcpSslReadLen net s junk nBytes buf w \<noteq> None"
    then obtain y where "ssl_read_loop net (m_iSockfd s) nBytes junk buf w = Some y"
      using assms(1) by (auto simp: TcpSslReadLen_def)
    then have "\<not> closed w" by (rule ssl_read_loop_open [OF _ assms(2)]) (use c in blast)
    then show False using c by simp
  qed
qed

text \<open>A peer that sends one record and closes; the world counts the records left.\<close>

definition one_record_net :: "nat net" where
  "one_record_net = \<lparr>os_socket = (\<lambda>w. (3, w)), os_setsockopt = (\<lambda>fd w. (True, w)), os_connect = (\<lambda>fd ip p w. (True, w)),
     os_recv = (\<lambda>fd n w. (Recv [], w)), os_send = (\<lambda>fd b w. (int (length b), w)), os_close = (\<lambda>fd w. w),
     SSL_connect = (\<lambda>fd w. (True, w)),
     SSL_read = (\<lambda>fd n w. if w = 0 then ((0, SSL_ERROR_ZERO_RETURN, []), 0) else ((2, SSL_ERROR_NONE, ''ok''), w - 1)),
     SSL_write = (\<lambda>fd b w. ((int (length b), SSL_ERROR_NONE), w)), SSL_shutdown = (\<lambda>fd w. w)\<rparr>"

theorem ssl_read_one_record_or_never_witness:
  "TcpSslReadLen one_record_net (snd (TcpSslInitEnv (CTcpSocket_of_fd 5 0))) 0 8192 [] 1 = Some (2, ''ok'', 0)
   \<and> TcpSslReadLen one_record_net (snd (TcpSslInitEnv (CTcpSocket_of_fd 5 0))) 0 8192 [] 0 = None"
proof -
  let ?s = "snd (TcpSslInitEnv (CTcpSocket_of_fd 5 0))"
  have l: "m_ssl ?s = Live" by (simp add: TcpSslInitEnv_def)
  show ?thesis
    using ssl_read_one_record_or_never [OF l, of 8192 one_record_net 1 2 "''ok''" 0 0 "[]"]
      ssl_read_one_record_or_never [OF l, of 8192 one_record_net 0 2 "''ok''" 0 0 "[]" "\<lambda>v. v = 0"]
    by (simp add: one_record_net_def)
qed

end
