(* ===== verification/TaskTools.thy ===== *)
theory TaskTools
  imports Clock Md5 UrlEncode Conf UserQueryStruct
begin

text \<open>
  The helpers of a task: \<^verbatim>\<open>src/src/UserQueryTask/UserQueryTask.cpp\<close> and the small member
  functions of \<^verbatim>\<open>src/src/UserQueryTask/TaskMain/TaskMain.cpp\<close>. \<open>lt\<close> is
  \<^verbatim>\<open>localtime\<close>, \<open>now\<close> the reading of \<^verbatim>\<open>time(0)\<close>. A \<^verbatim>\<open>sprintf\<close> that
  overruns its buffer is \<open>None\<close>.
\<close>

section \<open>Dates\<close>

definition into_buffer :: "nat \<Rightarrow> string \<Rightarrow> string option" where
  "into_buffer n s = (if length s < n then Some s else None)"

definition the_time :: "int \<Rightarrow> int \<Rightarrow> int" where
  "the_time now ttime = (if ttime = 0 then now else ttime)"

abbreviation d4 :: "int \<Rightarrow> string" where "d4 i \<equiv> pad_left CHR '' '' 4 (show_int i)"

definition g_week :: "string list" where
  "g_week = [''Sun'', ''Mon'', ''Tue'', ''Wed'', ''Thu'', ''Fri'', ''Sat'']"

definition g_month :: "string list" where
  "g_month = [''Jan'', ''Feb'', ''Mar'', ''Apr'', ''May'', ''Jun'', ''Jul'', ''Aug'', ''Sep'', ''Oct'', ''Nov'', ''Dec'']"

definition BdxGetHttpDate :: "(int \<Rightarrow> tm) \<Rightarrow> int \<Rightarrow> string" where
  "BdxGetHttpDate lt now =
     (let t = lt now in
      g_week ! nat (tm_wday t) @ '', '' @ d02 (tm_mday t) @ '' '' @ g_month ! nat (tm_mon t) @ '' ''
      @ d04 (tm_year t + 1900) @ '' '' @ d02 (tm_hour t) @ '':'' @ d02 (tm_min t) @ '':'' @ d02 (tm_sec t)
      @ '' GMT'' @ [CR, LF])"

definition BdxTaskMainGetTime :: "(int \<Rightarrow> tm) \<Rightarrow> int \<Rightarrow> int \<Rightarrow> string option" where
  "BdxTaskMainGetTime lt now ttime =
     (let t = lt (the_time now ttime)
      in into_buffer 20 (d4 (tm_year t + 1900) @ d02 (tm_mon t + 1) @ d02 (tm_mday t) @ d02 (tm_hour t)))"

definition BdxTaskMainGetMinute :: "(int \<Rightarrow> tm) \<Rightarrow> int \<Rightarrow> int \<Rightarrow> string option" where
  "BdxTaskMainGetMinute lt now ttime =
     (let t = lt (the_time now ttime)
      in into_buffer 20 (d4 (tm_year t + 1900) @ d02 (tm_mon t + 1) @ d02 (tm_mday t) @ d02 (tm_hour t) @ d02 (tm_min t)))"

definition BdxTaskMainGetFullTime :: "(int \<Rightarrow> tm) \<Rightarrow> int \<Rightarrow> int \<Rightarrow> string option" where
  "BdxTaskMainGetFullTime lt now ttime =
     (let t = lt (the_time now ttime)
      in into_buffer 20 (d4 (tm_year t + 1900) @ d02 (tm_mon t + 1) @ d02 (tm_mday t) @ d02 (tm_hour t) @ d02 (tm_min t)
           @ d02 (tm_sec t)))"

definition BdxTaskMainGetUCTime :: "(int \<Rightarrow> tm) \<Rightarrow> int \<Rightarrow> int \<Rightarrow> string option" where
  "BdxTaskMainGetUCTime lt now ttime =
     (let t = lt (the_time now ttime - 8 * 3600)
      in into_buffer 20 (d4 (tm_year t + 1900) @ ''-'' @ d02 (tm_mon t + 1) @ ''-'' @ d02 (tm_mday t) @ ''T''
           @ d02 (tm_hour t) @ '':'' @ d02 (tm_min t) @ '':'' @ d02 (tm_sec t) @ ''Z''))"

definition BdxTaskMainGetDate :: "(int \<Rightarrow> tm) \<Rightarrow> int \<Rightarrow> int \<Rightarrow> string option" where
  "BdxTaskMainGetDate lt now ttime = into_buffer 20 (yyyymmdd (lt (the_time now ttime)))"

definition BdxTaskMainGetLastTwoMonth :: "(int \<Rightarrow> tm) \<Rightarrow> int \<Rightarrow> int \<Rightarrow> string option" where
  "BdxTaskMainGetLastTwoMonth lt now ttime =
     (let t = lt (the_time now ttime - 86400 * 61)
      in into_buffer 20 (d4 (tm_year t + 1900) @ d02 (tm_mon t + 1)))"

section \<open>Digests and nonces\<close>

text \<open>
  The hex digits of the MD5 of \<^verbatim>\<open>strParam + strSign\<close>. The second argument of the pair of
  \<^verbatim>\<open>to_hex\<close> calls, \<^verbatim>\<open>(x << 4) >> 4\<close>, is \<open>x\<close> itself: the shifts are on \<^verbatim>\<open>int\<close>.
\<close>

definition hex_digits :: "byte list \<Rightarrow> string" where
  "hex_digits bs = concat (map (\<lambda>b. [to_hex (drop_bit 4 (uint b)), to_hex (drop_bit 4 (push_bit 4 (uint b)))]) bs)"

definition BdxGetParamSign :: "string \<Rightarrow> string \<Rightarrow> CMd5 \<Rightarrow> string \<times> CMd5" where
  "BdxGetParamSign strParam strSign m_clMd5 =
     (case Md5Final (Md5Update (Md5Init m_clMd5) (bytes_of (strParam @ strSign))) of
        (m, pszParamSign) \<Rightarrow> (hex_digits pszParamSign, m))"

definition CHAR_ARRAY :: string where
  "CHAR_ARRAY = ''0123456789abcdefghijklmnopqrstuvwxyzABCDEFGHIJKLMNOPQRSTUVWXYZ''"

text \<open>\<open>rnd i\<close> is the \<open>i\<close>-th result of \<^verbatim>\<open>rand()\<close> after \<^verbatim>\<open>srand(time(0))\<close>.\<close>

definition BdxGenNonce :: "(nat \<Rightarrow> nat) \<Rightarrow> int \<Rightarrow> string" where
  "BdxGenNonce rnd len = map (\<lambda>i. CHAR_ARRAY ! (rnd i mod length CHAR_ARRAY)) [0 ..< nat len]"

text \<open>\<open>sha1\<close> is OpenSSL's digest; \<^verbatim>\<open>SHA1_Init\<close> always succeeds. The 21st byte is a zero.\<close>

definition SHA1_Encode :: "(string \<Rightarrow> byte list) \<Rightarrow> string \<Rightarrow> byte list" where
  "SHA1_Encode sha1 src = sha1 (cstr src) @ [0]"

definition GenPasswordDigest :: "(string \<Rightarrow> byte list) \<Rightarrow> string \<Rightarrow> string \<Rightarrow> string \<Rightarrow> string" where
  "GenPasswordDigest sha1 utcTime nonce appSecret = base64_encode (take 20 (SHA1_Encode sha1 (nonce @ utcTime @ appSecret)))"

definition BdxTaskMainReplace_All :: "string \<Rightarrow> string \<Rightarrow> string \<Rightarrow> string option" where
  "BdxTaskMainReplace_All str old_value new_value = replace_all str old_value new_value"

section \<open>Numbers and domains\<close>

text \<open>\<^verbatim>\<open>htonl\<close> on a little-endian machine.\<close>

definition htonl :: "u32 \<Rightarrow> u32" where
  "htonl x = push_bit 24 (x AND 0xff) OR push_bit 8 (x AND 0xff00) OR (drop_bit 8 x AND 0xff00) OR drop_bit 24 x"

definition BdxHtonll :: "u64 \<Rightarrow> u64" where
  "BdxHtonll ullNum =
     (let ullTmp = ucast (htonl (ucast (drop_bit 32 ullNum))) :: u64;
          ullAll = ucast (htonl (ucast (0xffffffff AND ullNum))) :: u64
      in push_bit 32 ullAll OR ullTmp)"

text \<open>
  \<open>BdxGetUrlDomain\<close>: the labels before the last dot, sorted into names and known suffixes;
  \<open>lab\<close> is the label being read, reversed.
\<close>

fun domain_loop :: "string \<Rightarrow> string \<Rightarrow> string list \<Rightarrow> string list \<Rightarrow> string \<times> string list \<times> string list" where
  "domain_loop [] lab ds ss = (lab, ds, ss)"
| "domain_loop (c # cs) lab ds ss =
     (if c = CHR ''.'' then
        (let strDomain = rev lab in
         if suffix_neq strDomain then domain_loop cs [] (ds @ [strDomain]) ss
         else if strDomain \<noteq> ''www'' then domain_loop cs [] ds (ss @ [strDomain])
         else domain_loop cs [] ds ss)
      else if c = CHR ''/'' then (lab, ds, ss)
      else domain_loop cs (c # lab) ds ss)"

fun join_suffix :: "string list \<Rightarrow> string" where
  "join_suffix [] = []"
| "join_suffix [s] = s"
| "join_suffix (s # ss) = s @ ''.'' @ join_suffix ss"

definition strip_scheme :: "string \<Rightarrow> string" where
  "strip_scheme u =
     (let u = (if take 7 u = ''http://'' then drop 7 u else u)
      in if take 8 u = ''https://'' then drop 8 u else u)"

definition BdxGetUrlDomain :: "string \<Rightarrow> string \<Rightarrow> string" where
  "BdxGetUrlDomain pchUrl strMediaDomain =
     (case domain_loop (strip_scheme (cstr pchUrl)) [] [] [] of
        (lab, vecDomain, vecSuffix) \<Rightarrow>
          let vecSuffix = (if lab \<noteq> [] then vecSuffix @ [rev lab] else vecSuffix)
          in strMediaDomain @ concat (map (\<lambda>d. d @ ''.'') vecDomain) @ join_suffix vecSuffix)"

section \<open>Properties of the helpers\<close>

text \<open>The hex text of a digest, as usual.\<close>

definition hex_text :: "byte list \<Rightarrow> string" where
  "hex_text bs = concat (map (\<lambda>b. [''0123456789ABCDEF'' ! (unat b div 16), ''0123456789ABCDEF'' ! (unat b mod 16)]) bs)"

lemma and_15: "x AND 15 = x mod 16" for x :: int
  using take_bit_eq_mask [of 4 x] by (simp add: take_bit_eq_mod mask_eq_exp_minus_1)

lemma nibbles:
  "nat (drop_bit 4 (uint b) AND 15) = unat b div 16"
  "nat (drop_bit 4 (push_bit 4 (uint b)) AND 15) = unat b mod 16" for b :: byte
proof -
  have u: "uint b = int (unat b)" by (rule uint_nat)
  have l: "unat b div 16 < 16" using unat_lt_byte [of b] by simp
  have "drop_bit 4 (uint b) AND 15 = int (unat b div 16 mod 16)"
    by (simp only: and_15 u drop_bit_eq_div) (simp add: zdiv_int zmod_int)
  then show "nat (drop_bit 4 (uint b) AND 15) = unat b div 16" using l by simp
  have "drop_bit 4 (push_bit 4 (uint b)) AND 15 = int (unat b mod 16)"
    by (simp only: and_15 u drop_bit_eq_div push_bit_eq_mult) (simp add: zmod_int)
  then show "nat (drop_bit 4 (push_bit 4 (uint b)) AND 15) = unat b mod 16" by simp
qed

lemma hex_digits_text: "hex_digits bs = hex_text bs"
  by (simp add: hex_digits_def hex_text_def to_hex_def nibbles)

text \<open>
  The key of the answer cache is the MD5 of its text: \<open>BdxGetParamSign\<close> returns the 32
  upper-case hex digits of the RFC 1321 digest of \<^verbatim>\<open>strParam + strSign\<close>, whatever the
  hash object was used for before, and leaves it ready for the next use.
\<close>

theorem param_sign_is_md5:
  assumes "md5_ready m" "length (p @ s) < 2 ^ 32"
  shows "\<exists>m'. BdxGetParamSign p s m = (hex_text (md5_ref (bytes_of (p @ s))), m') \<and> md5_ready m'"
proof -
  let ?r = "Md5Final (Md5Update (Md5Init m) (bytes_of (p @ s)))"
  have "snd ?r = md5_ref (bytes_of (p @ s))" "md5_ready (fst ?r)"
    using assms by (auto intro: md5.hash_once md5.ready_once)
  then show ?thesis by (cases ?r) (simp add: BdxGetParamSign_def hex_digits_text)
qed

theorem param_sign_is_md5_witness:
  "\<exists>m'. BdxGetParamSign ''1_2'' [] blank_md5 = (hex_text (md5_ref (bytes_of ''1_2'')), m') \<and> md5_ready m'"
  using param_sign_is_md5 [of blank_md5 "''1_2''" "[]"] by (simp add: md5_ready_def blank_md5_def)

lemma length_show_int2: "0 \<le> i \<Longrightarrow> i < 100 \<Longrightarrow> length (d02 i) = 2"
proof -
  assume i: "0 \<le> i" "i < 100"
  have "length (show_nat (nat i)) \<le> 2"
  proof (cases "nat i < 10")
    case True
    then show ?thesis by (subst show_nat.simps) simp
  next
    case False
    then have "nat i div 10 < 10" using i by auto
    then show ?thesis using False by (subst show_nat.simps, subst show_nat.simps) simp
  qed
  then show ?thesis using i by (simp add: pad_left_def show_int_def)
qed

lemma length_d4: "4 \<le> length (d4 i)"
  by (simp add: pad_left_def)

lemma length_year: "1000 \<le> i \<Longrightarrow> i < 10000 \<Longrightarrow> length (d4 i) = 4"
proof -
  assume i: "1000 \<le> i" "i < 10000"
  obtain n where n: "i = int n" "1000 \<le> n" "n < 10000" using i nonneg_int_cases [of i] by force
  have "length (show_nat n) = 4"
    using n by (subst show_nat.simps, subst show_nat.simps, subst show_nat.simps, subst show_nat.simps)
      (auto simp: div_mult2_eq [symmetric])
  then show ?thesis by (simp add: pad_left_def show_int_def n)
qed

lemma date_fields:
  assumes "tm_ok t"
  shows "length (d4 (tm_year t + 1900)) = 4" "length (d02 (tm_mon t + 1)) = 2" "length (d02 (tm_mday t)) = 2"
    "length (d02 (tm_hour t)) = 2" "length (d02 (tm_min t)) = 2" "length (d02 (tm_sec t)) = 2"
  using assms by (auto simp: tm_ok_def intro!: length_show_int2 length_year)

text \<open>
  Exactly one of the date formats overruns its 20-byte buffer: on dates of four-digit years
  \<open>BdxTaskMainGetUCTime\<close> writes 21 bytes, while the other five fit.
\<close>

theorem uctime_overruns_its_buffer:
  assumes "\<And>x. tm_ok (lt x)"
  shows "BdxTaskMainGetUCTime lt now t = None
    \<and> BdxTaskMainGetTime lt now t \<noteq> None \<and> BdxTaskMainGetMinute lt now t \<noteq> None
    \<and> BdxTaskMainGetFullTime lt now t \<noteq> None \<and> BdxTaskMainGetDate lt now t \<noteq> None
    \<and> BdxTaskMainGetLastTwoMonth lt now t \<noteq> None"
  using date_fields [OF assms [of "the_time now t"]] date_fields [OF assms [of "the_time now t - 8 * 3600"]]
    date_fields [OF assms [of "the_time now t - 86400 * 61"]]
  by (simp add: BdxTaskMainGetUCTime_def BdxTaskMainGetTime_def BdxTaskMainGetMinute_def BdxTaskMainGetFullTime_def
      BdxTaskMainGetDate_def BdxTaskMainGetLastTwoMonth_def yyyymmdd_def into_buffer_def Let_def)

theorem uctime_overruns_its_buffer_witness: "BdxTaskMainGetUCTime (\<lambda>_. demo_lt 0) 1700000000 0 = None"
  using uctime_overruns_its_buffer [of "\<lambda>_. demo_lt 0" 1700000000 0] by (simp add: tm_ok_def demo_lt_def)

end
