(* ===== verification/TaskMain.thy ===== *)
theory TaskMain
  imports DataHub DataAdapter UserQueryMain
begin

text \<open>
  One request: \<^verbatim>\<open>BdxRunTask\<close> and \<^verbatim>\<open>BdxGetHttpPacket\<close> of
  \<^verbatim>\<open>src/src/UserQueryTask/TaskMain/TaskMain.cpp\<close>. The long function is cut into phases in its
  own order; a phase ends with an error (the return code and \<^verbatim>\<open>errorMsg\<close>), or with the value
  that the next phase needs. \<open>None\<close> is the end of the process: undefined behaviour or an
  exception nobody catches.

  What is outside is in \<open>Ext\<close>: hiredis, the network, the JSON library, \<^verbatim>\<open>localtime\<close>, the
  clock (a function of the state of the outside world) and the configured APIs. Calls of
  \<^verbatim>\<open>LOG\<close> and \<^verbatim>\<open>printf\<close> are left out.
\<close>

section \<open>State\<close>

text \<open>The members of \<^verbatim>\<open>BDXRESPONSE_S\<close> that this file uses.\<close>

record BDXRESPONSE_S =
  mResValue :: string
  ssUserCountKeyReq :: string
  ssUserCountKeyRes :: string
  ssUserCountKeyEmptyRes :: string
  ssUserCountKeyUserLimitReq :: string
  ssUserName :: string
  ssOperatorName :: string
  ssOperatorNameKeyLimit :: string
  queryType :: int

text \<open>
  What a request of worker \<^verbatim>\<open>m_uiThreadId\<close> reads and writes: its adapter, hash object, report
  and query log queue, the response, the global token and SSL flag, and the outside world.
\<close>

record ('c, 'w) TaskState =
  m_pDataRedis :: "'c CDataAdapter"
  t_md5 :: CMd5
  t_report :: UserQueryReport
  t_hive :: "HIVELOCALLOG_S list"
  t_res :: BDXRESPONSE_S
  m_httpType :: int
  g_strDataHubToken :: string
  t_InitSSLFlag :: bool
  t_world :: 'w

record ('c, 'w, 'j) Ext =
  x_redis :: "('c, 'w) hiredis"
  x_net :: "'w net"
  x_json :: "'j json"
  x_localtime :: "int \<Rightarrow> tm"
  x_time :: "'w \<Rightarrow> int"
  x_apis :: "(string, QUERYAPIINFO_S) smap"
  x_junk :: int

abbreviation LINKERROR :: int where "LINKERROR \<equiv> - 2"
abbreviation OTHERERR :: int where "OTHERERR \<equiv> - 1"

type_synonym ('a, 'c, 'w) phase = "(((int \<times> string) + 'a) \<times> ('c, 'w) TaskState) option"

definition and_then ::
  "('a, 'c, 'w) phase \<Rightarrow> ('a \<Rightarrow> ('c, 'w) TaskState \<Rightarrow> ('b, 'c, 'w) phase) \<Rightarrow> ('b, 'c, 'w) phase" where
  "and_then m f = do { (r, s) \<leftarrow> m; case r of Inl e \<Rightarrow> Some (Inl e, s) | Inr a \<Rightarrow> f a s }"

definition fail :: "int \<Rightarrow> string \<Rightarrow> ('c, 'w) TaskState \<Rightarrow> ('a, 'c, 'w) phase" where
  "fail iRes errorMsg s = Some (Inl (iRes, errorMsg), s)"

text \<open>Calls of the adapter and of the DataHub client, and one more count in the report.\<close>

definition on_redis ::
  "('c CDataAdapter \<Rightarrow> 'w \<Rightarrow> ('r \<times> 'c CDataAdapter \<times> 'w) option) \<Rightarrow> ('c, 'w) TaskState \<Rightarrow> ('r \<times> ('c, 'w) TaskState) option" where
  "on_redis f s =
     (case f (m_pDataRedis s) (t_world s) of
        None \<Rightarrow> None
      | Some (r, a, w) \<Rightarrow> Some (r, s\<lparr>m_pDataRedis := a, t_world := w\<rparr>))"

definition on_hub ::
  "(bool \<times> 'w \<Rightarrow> ('r \<times> bool \<times> 'w) option) \<Rightarrow> ('c, 'w) TaskState \<Rightarrow> ('r \<times> ('c, 'w) TaskState) option" where
  "on_hub f s =
     (case f (t_InitSSLFlag s, t_world s) of
        None \<Rightarrow> None
      | Some (r, b, w) \<Rightarrow> Some (r, s\<lparr>t_InitSSLFlag := b, t_world := w\<rparr>))"

definition bump :: "(USERINFO_S \<Rightarrow> USERINFO_S) \<Rightarrow> string \<Rightarrow> ('c, 'w) TaskState \<Rightarrow> ('c, 'w) TaskState" where
  "bump f k s = s\<lparr>t_report := map_set k (f (map_at zero_USERINFO k (t_report s))) (t_report s)\<rparr>"

abbreviation inc_Req :: "USERINFO_S \<Rightarrow> USERINFO_S" where "inc_Req i \<equiv> i\<lparr>m_ullReqNum := m_ullReqNum i + 1\<rparr>"
abbreviation inc_Res :: "USERINFO_S \<Rightarrow> USERINFO_S" where "inc_Res i \<equiv> i\<lparr>m_ullResNum := m_ullResNum i + 1\<rparr>"
abbreviation inc_ResTag :: "USERINFO_S \<Rightarrow> USERINFO_S" where "inc_ResTag i \<equiv> i\<lparr>m_ullResTagNum := m_ullResTagNum i + 1\<rparr>"
abbreviation inc_EmptyRes :: "USERINFO_S \<Rightarrow> USERINFO_S" where "inc_EmptyRes i \<equiv> i\<lparr>m_ullEmptyResNum := m_ullEmptyResNum i + 1\<rparr>"
abbreviation inc_TotalEmptyRes :: "USERINFO_S \<Rightarrow> USERINFO_S" where
  "inc_TotalEmptyRes i \<equiv> i\<lparr>m_ullTotalEmptyResNum := m_ullTotalEmptyResNum i + 1\<rparr>"

section \<open>The request line\<close>

text \<open>\<^verbatim>\<open>unsigned int pos = s.find(p, 0)\<close>: the 64-bit \<^verbatim>\<open>npos\<close> loses its upper half.\<close>

definition u32_find :: "string \<Rightarrow> string \<Rightarrow> u32" where
  "u32_find s p = (case str_find s p 0 of None \<Rightarrow> - 1 | Some k \<Rightarrow> word_of_nat k)"

text \<open>\<^verbatim>\<open>std::string::npos != jpos\<close>, compared at 64 bits.\<close>

definition is_GET :: "string \<Rightarrow> bool" where
  "is_GET ssContent \<longleftrightarrow> (2 ^ 64 - 1 :: int) \<noteq> uint (u32_find ssContent ''GET'')"

definition request_target :: "string \<Rightarrow> string option" where
  "request_target ssContent =
     (let ipos = u32_find ssContent [LF]; jpos = u32_find ssContent ''GET'' in
      str_substr_z ssContent (uint (jpos + 4)) (uint ipos - 9 - uint (jpos + 4)))"

definition strcasecmp_eq :: "string \<Rightarrow> string \<Rightarrow> bool" where
  "strcasecmp_eq a b \<longleftrightarrow> map to_lower (cstr a) = map to_lower b"

text \<open>The query string between the question mark and the blank.\<close>

definition query_string :: "string \<Rightarrow> ((int \<times> string) + string) option" where
  "query_string ssContent =
     do {
       t \<leftarrow> request_target ssContent;
       let ibegin = str_find_z t ''?'' 0; iend = str_find_z t '' '' 0;
           strActionUrl = (if ibegin = - 1 then t else take (nat ibegin) t)
       in if \<not> strcasecmp_eq strActionUrl ''/query'' then Some (Inl (LINKERROR, ''1101''))
          else if ibegin \<noteq> - 1 \<and> iend \<noteq> - 1 then
            map_option Inr (str_substr_z t (ibegin + 1) (iend - ibegin - 1))
          else Some (Inl (OTHERERR, ''1100''))
     }"

text \<open>
  The parameters: both \<^verbatim>\<open>strtok_r\<close> loops together number all the words, and every odd one is
  the value of the word before it. The copy of the query string has 1024 bytes.
\<close>

fun pair_up :: "string list \<Rightarrow> (string, string) smap \<Rightarrow> (string, string) smap" where
  "pair_up (k # v # ts) m = pair_up ts (map_set k v m)"
| "pair_up _ m = m"

definition parse_params :: "string \<Rightarrow> (string, string) smap option" where
  "parse_params q =
     (if 1024 \<le> length q then None
      else Some (pair_up (concat (map (strtok CHR ''='') (strtok CHR ''&'' q))) []))"

record Query =
  q_user :: string
  q_token :: string
  q_type :: string
  q_cst :: string
  q_accuracy :: string
  q_lat :: string
  q_lng :: string
  q_repo :: string
  q_item :: string
  q_id :: string
  q_params :: string

definition required_keys :: "string list" where
  "required_keys = [''authuser'', ''token'', ''ctype'', ''cst'', ''accuracy'', ''lat'', ''lng'', ''repo'', ''item'']"

definition get_query :: "string \<Rightarrow> (string, string) smap \<Rightarrow> (int \<times> string) + Query" where
  "get_query reqParams m =
     (let g = (\<lambda>k. the (map_of m k)) in
      if list_all (\<lambda>k. map_of m k \<noteq> None) required_keys then
        let q = \<lparr>q_user = g ''authuser'', q_token = g ''token'', q_type = g ''ctype'', q_cst = g ''cst'',
                 q_accuracy = g ''accuracy'', q_lat = g ''lat'', q_lng = g ''lng'', q_repo = g ''repo'',
                 q_item = g ''item'', q_id = ''null'', q_params = reqParams\<rparr>
        in if atoi (q_type q) = 2 then
             (case map_of m ''id'' of
                None \<Rightarrow> Inl (OTHERERR, ''1100'')
              | Some v \<Rightarrow> Inr (q\<lparr>q_id := v\<rparr>))
           else Inr q
      else Inl (OTHERERR, ''1100''))"

text \<open>
  Read the packet, decode it and find the parameters. 8192 bytes without a NUL leave the buffer
  without a terminator. A packet of at most nine bytes is a broken link.
\<close>

definition read_request ::
  "('c, 'w, 'j) Ext \<Rightarrow> CTcpSocket \<Rightarrow> ('c, 'w) TaskState \<Rightarrow> (Query, 'c, 'w) phase" where
  "read_request X sock s =
     (case TcpRead (x_net X) sock 8192 (t_world s) of
        (iRes, d, w) \<Rightarrow>
          let s = s\<lparr>t_world := w, m_httpType := 0\<rparr> in
          if length d = 8192 \<and> NUL \<notin> set d then None
          else
            let ssContent = url_decode (cstr d) in
            if iRes \<le> 9 then fail LINKERROR ''1101'' s
            else if \<not> is_GET ssContent then fail OTHERERR ''1101'' s
            else
              let s = s\<lparr>m_httpType := 1\<rparr> in
              (case query_string ssContent of
                 None \<Rightarrow> None
               | Some (Inl e) \<Rightarrow> Some (Inl e, s)
               | Some (Inr q) \<Rightarrow>
                   map_option (\<lambda>m. (get_query q m, s)) (parse_params q)))"

section \<open>Tokens\<close>

definition user_token_key :: "Query \<Rightarrow> string" where
  "user_token_key q = q_user q @ ''#'' @ ''token''"

definition check_user_token :: "('c, 'w, 'j) Ext \<Rightarrow> Query \<Rightarrow> ('c, 'w) TaskState \<Rightarrow> (string, 'c, 'w) phase" where
  "check_user_token X q s =
     do {
       ((_, ssmoidValue), s) \<leftarrow> on_redis (UserGet (x_redis X) (user_token_key q) []) s;
       if q_token q \<noteq> cstr ssmoidValue then
         do {
           (ok, s) \<leftarrow> on_hub (BdxVerifyDataHubToken (x_net X) (x_junk X) (q_user q) (q_token q)) s;
           if ok = 1 then
             do {
               (_, s) \<leftarrow> on_redis (UserPutExpire (x_redis X) (user_token_key q) (q_token q) (3 * 3600)) s;
               Some (Inr ssmoidValue, s)
             }
           else fail OTHERERR ''8001'' s
         }
       else Some (Inr ssmoidValue, s)
     }"

definition gateway_token_key :: string where
  "gateway_token_key = ''chenyg@asiainfo.com'' @ ''#'' @ ''token''"

definition gateway_token ::
  "('c, 'w, 'j) Ext \<Rightarrow> string \<Rightarrow> ('c, 'w) TaskState \<Rightarrow> (string, 'c, 'w) phase" where
  "gateway_token X ssmoidValue s =
     do {
       ((found, v), s) \<leftarrow> on_redis (UserGet (x_redis X) gateway_token_key ssmoidValue) s;
       if found then Some (Inr v, s\<lparr>g_strDataHubToken := v\<rparr>)
       else
         do {
           (tok, s) \<leftarrow> on_hub (BdxApiGateWayGetDataHubToken (x_net X) (x_junk X)) s;
           if tok = [] then fail OTHERERR ''8002'' s
           else
             do {
               (_, s) \<leftarrow> on_redis (UserPutExpire (x_redis X) gateway_token_key tok (3 * 3600)) s;
               Some (Inr tok, s\<lparr>g_strDataHubToken := tok\<rparr>)
             }
         }
     }"

section \<open>Well-formed requests\<close>

text \<open>A query string as a client writes it.\<close>

fun query_text :: "(string \<times> string) list \<Rightarrow> string" where
  "query_text [] = []"
| "query_text [(k, v)] = k @ ''='' @ v"
| "query_text ((k, v) # e # ps) = k @ ''='' @ v @ ''&'' @ query_text (e # ps)"

definition plain :: "string \<Rightarrow> bool" where
  "plain t \<longleftrightarrow> t \<noteq> [] \<and> list_all (\<lambda>c. c \<noteq> CHR ''&'' \<and> c \<noteq> CHR ''='' \<and> c \<noteq> CHR '' '' \<and> c \<noteq> LF) t"

definition plain_query :: "(string \<times> string) list \<Rightarrow> bool" where
  "plain_query ps \<longleftrightarrow> list_all (\<lambda>(k, v). plain k \<and> plain v) ps \<and> length (query_text ps) < 1024"

lemma plain_notin: "plain t \<Longrightarrow> c \<in> {CHR ''&'', CHR ''='', CHR '' '', LF} \<Longrightarrow> c \<notin> set t"
  by (auto simp: plain_def list_all_iff)

lemma strtok_pair: "plain k \<Longrightarrow> plain v \<Longrightarrow> strtok CHR ''='' (k @ ''='' @ v) = [k, v]"
  using strtok_at [of "CHR ''=''" k v] strtok_word [of "CHR ''=''" k] strtok_word [of "CHR ''=''" v]
  by (simp add: plain_notin) (simp add: plain_def)

lemma strtok_query:
  "list_all (\<lambda>(k, v). plain k \<and> plain v) ps \<Longrightarrow>
     strtok CHR ''&'' (query_text ps) = map (\<lambda>(k, v). k @ ''='' @ v) ps"
proof (induction ps rule: query_text.induct)
  case (3 k v e ps)
  have "CHR ''&'' \<notin> set (k @ ''='' @ v)" using "3.prems" by (auto simp: plain_notin)
  from strtok_word [OF this] strtok_at [of "CHR ''&''" "k @ ''='' @ v" "query_text (e # ps)"] 3
  show ?case by simp
next
  case (2 k v)
  then have "CHR ''&'' \<notin> set (k @ ''='' @ v)" by (auto simp: plain_notin)
  from strtok_word [OF this] show ?case by simp
qed (simp add: strtok_def)

lemma words_of_query:
  "list_all (\<lambda>(k, v). plain k \<and> plain v) ps \<Longrightarrow>
     concat (map (strtok CHR ''='' \<circ> (\<lambda>(k, v). k @ CHR ''='' # v)) ps) = concat (map (\<lambda>(k, v). [k, v]) ps)"
  by (induction ps) (auto simp: strtok_pair [simplified])

lemma pair_up_pairs: "map_of (pair_up (concat (map (\<lambda>(k, v). [k, v]) ps)) m) = map_of m ++ map_of (rev ps)"
  by (induction ps arbitrary: m) (auto simp: map_add_def fun_eq_iff split: option.split)

lemma parse_plain:
  assumes "plain_query ps" obtains m where "parse_params (query_text ps) = Some m" "map_of m = map_of (rev ps)"
  using assms pair_up_pairs [of ps "[]"]
  by (simp add: plain_query_def parse_params_def strtok_query words_of_query)

lemma query_text_chars: "list_all (\<lambda>(k, v). plain k \<and> plain v) ps \<Longrightarrow> CHR '' '' \<notin> set (query_text ps) \<and> LF \<notin> set (query_text ps)"
  by (induction ps rule: query_text.induct) (auto simp: plain_notin)

section \<open>The request line\<close>

lemma u32_find_Some: "str_find s p 0 = Some k \<Longrightarrow> k < 2 ^ 32 \<Longrightarrow> uint (u32_find s p) = int k"
  by (simp add: u32_find_def unsigned_of_nat take_bit_nat_eq_self)

lemma find_char: "c \<notin> set u \<Longrightarrow> str_find (u @ c # t) [c] 0 = Some (length u)"
  using find_from_word [of c u 0 "[]" t] by (simp add: str_find_def)

lemma is_GET_always: "is_GET c"
proof -
  have "uint (u32_find c ''GET'') < 2 ^ 32" using uint_bounded [of "u32_find c ''GET''"] by simp
  then show ?thesis by (simp add: is_GET_def)
qed

lemma query_string_target:
  assumes "request_target c = Some (''/query?'' @ q @ '' '')" "CHR '' '' \<notin> set q"
  shows "query_string c = Some (Inr q)"
proof -
  let ?t = "''/query?'' @ q @ '' ''"
  have b: "str_find_z ?t ''?'' 0 = 6" by (simp add: str_find_z_def str_find_def)
  have "str_find ((''/query?'' @ q) @ CHR '' '' # []) '' '' 0 = Some (length (''/query?'' @ q))"
    by (rule find_char) (use assms(2) in auto)
  then have e: "str_find_z ?t '' '' 0 = 7 + int (length q)" by (simp add: str_find_z_def)
  have "strcasecmp_eq ''/query'' ''/query''" by code_simp
  with b e show ?thesis
    by (simp add: query_string_def assms(1) str_substr_z_def)
qed

lemma request_line_target:
  assumes "LF \<notin> set q" "length q < 8192"
  shows "request_target (''GET /query?'' @ q @ '' HTTP/1.1'' @ CRLF @ hs) = Some (''/query?'' @ q @ '' '')"
proof -
  let ?c = "''GET /query?'' @ q @ '' HTTP/1.1'' @ CRLF @ hs" and ?u = "''GET /query?'' @ q @ '' HTTP/1.1'' @ [CR]"
  have "str_find (?u @ LF # hs) [LF] 0 = Some (length ?u)" by (rule find_char) (use assms in auto)
  then have i: "uint (u32_find ?c [LF]) = 21 + int (length q)" using assms(2) u32_find_Some [of ?c "[LF]" "length ?u"] by simp
  have j: "u32_find ?c ''GET'' = 0" by (simp add: u32_find_def str_find_def)
  from str_substr_z_append [of "''GET ''" "''/query?'' @ q @ '' ''" "''HTTP/1.1'' @ CRLF @ hs"]
  have "str_substr_z ?c 4 (8 + int (length q)) = Some (''/query?'' @ q @ '' '')" by simp
  then show ?thesis unfolding request_target_def Let_def i j by simp
qed

lemma get_query_cong: "map_of m = map_of m' \<Longrightarrow> get_query q m = get_query q m'"
  by (simp add: get_query_def Let_def)

text \<open>A packet that holds the request for the parameters \<open>ps\<close>, before URL decoding.\<close>

definition packet_for :: "(string \<times> string) list \<Rightarrow> string \<Rightarrow> bool" where
  "packet_for ps d \<longleftrightarrow> 9 < length d \<and> length d < 8192
     \<and> (\<exists>hs. url_decode (cstr d) = ''GET /query?'' @ query_text ps @ '' HTTP/1.1'' @ CRLF @ hs)"

lemma read_plain_request:
  assumes "plain_query ps" "packet_for ps d" "TcpRead (x_net X) sock 8192 (t_world s) = (int (length d), d, w)"
  shows "read_request X sock s = Some (get_query (query_text ps) (rev ps), s\<lparr>t_world := w, m_httpType := 1\<rparr>)"
proof -
  obtain hs where c: "url_decode (cstr d) = ''GET /query?'' @ query_text ps @ '' HTTP/1.1'' @ CRLF @ hs"
    and l: "9 < length d" "length d < 8192"
    using assms(2) by (auto simp: packet_for_def)
  have "query_string (url_decode (cstr d)) = Some (Inr (query_text ps))"
    using assms(1) query_text_chars [of ps] unfolding c plain_query_def
    by (intro query_string_target request_line_target) auto
  moreover obtain m where m: "parse_params (query_text ps) = Some m" "map_of m = map_of (rev ps)"
    by (rule parse_plain [OF assms(1)])
  ultimately show ?thesis
    using l get_query_cong [OF m(2), of "query_text ps"] by (simp add: read_request_def assms(3) is_GET_always)
qed

section \<open>A small environment for the examples\<close>

text \<open>
  A Redis that answers from a fixed table, a network that delivers one packet, and a JSON reader
  that accepts everything.
\<close>

definition table_value :: "string \<Rightarrow> string" where
  "table_value k =
     (if prefix ''order_count'' k then ''3'' else if prefix ''order_limit'' k then ''10''
      else if suffix ''token'' k then ''tok'' else ''{}'')"

definition table_redis :: "(unit, unit) hiredis" where
  "table_redis = \<lparr>redisConnectWithTimeout = (\<lambda>h p t w. (Some ((), False), w)),
     redisCommand = (\<lambda>c fmt args w.
       (Some (case args of
                S k # _ \<Rightarrow> if fmt = ''GET %s'' then REPLY_STRING (table_value k)
                           else if fmt = ''ZRANGE %s 0 0'' then REPLY_ARRAY [REPLY_STRING ''7''] else REPLY_STATUS ''OK''
              | _ \<Rightarrow> REPLY_STATUS ''OK''), w)),
     redisFree = (\<lambda>c w. w)\<rparr>"

definition packet_net :: "string \<Rightarrow> unit net" where
  "packet_net d = refusing_net\<lparr>os_setsockopt := (\<lambda>fd w. (True, w)), os_recv := (\<lambda>fd n w. (Recv d, w)), os_send := (\<lambda>fd b w. (int (length b), w))\<rparr>"

definition demo_ext :: "string \<Rightarrow> (unit, unit, unit) Ext" where
  "demo_ext d = \<lparr>x_redis = table_redis, x_net = packet_net d,
     x_json = \<lparr>jparse = (\<lambda>s. Some ()), jmember = (\<lambda>j k. j), jindex = (\<lambda>j i. j), jsize = (\<lambda>j. 0), jstyled = (\<lambda>j. [])\<rparr>,
     x_localtime = demo_lt, x_time = (\<lambda>w. 0), x_apis = [], x_junk = 0\<rparr>"

definition demo_sock :: CTcpSocket where "demo_sock = CTcpSocket_of_fd 5 300000"

definition demo_state :: "(unit, unit) TaskState" where
  "demo_state = \<lparr>m_pDataRedis = \<lparr>servers = [new_CDataRedis], m_clMd5 = blank_md5\<rparr>, t_md5 = blank_md5, t_report = [],
     t_hive = [], t_res = \<lparr>mResValue = [], ssUserCountKeyReq = [], ssUserCountKeyRes = [], ssUserCountKeyEmptyRes = [],
       ssUserCountKeyUserLimitReq = [], ssUserName = [], ssOperatorName = [], ssOperatorNameKeyLimit = [], queryType = 0\<rparr>,
     m_httpType = 0, g_strDataHubToken = [], t_InitSSLFlag = False, t_world = ()\<rparr>"

definition demo_params :: "(string \<times> string) list" where
  "demo_params = [(''authuser'', ''u''), (''token'', ''tok''), (''ctype'', ''1''), (''cst'', ''c''), (''accuracy'', ''a''),
     (''lat'', ''1''), (''lng'', ''2''), (''repo'', ''r''), (''item'', ''i'')]"

definition demo_packet :: "(string \<times> string) list \<Rightarrow> string" where
  "demo_packet ps = ''GET /query?'' @ query_text ps @ '' HTTP/1.1'' @ CRLF"

lemma demo_recv:
  "length d < 8192 \<Longrightarrow> TcpRead (x_net (demo_ext d)) demo_sock 8192 (t_world demo_state) = (int (length d), d, ())"
  by (simp add: demo_ext_def packet_net_def refusing_net_def demo_sock_def CTcpSocket_of_fd_def TcpRead_def)

section \<open>Properties of the request line\<close>

text \<open>
  C16. A well-formed request is read back: for a URL-encoded packet with the request line
  \<^verbatim>\<open>GET /query?k1=v1&k2=v2...\<close>, the request that goes on carries the value of every parameter, the
  last one where a name occurs twice; \<^verbatim>\<open>id\<close> is \<^verbatim>\<open>null\<close> unless the type is 2.
\<close>

theorem request_round_trip:
  assumes "plain_query ps" "packet_for ps d" "TcpRead (x_net X) sock 8192 (t_world s) = (int (length d), d, w)"
    and "map_of (rev ps) ''authuser'' = Some u" "map_of (rev ps) ''token'' = Some t"
    "map_of (rev ps) ''ctype'' = Some ty" "map_of (rev ps) ''cst'' = Some c" "map_of (rev ps) ''accuracy'' = Some a"
    "map_of (rev ps) ''lat'' = Some la" "map_of (rev ps) ''lng'' = Some ln" "map_of (rev ps) ''repo'' = Some r"
    "map_of (rev ps) ''item'' = Some i"
    and "if atoi ty = 2 then map_of (rev ps) ''id'' = Some j else j = ''null''"
  shows "read_request X sock s =
    Some (Inr \<lparr>q_user = u, q_token = t, q_type = ty, q_cst = c, q_accuracy = a, q_lat = la, q_lng = ln, q_repo = r,
               q_item = i, q_id = j, q_params = query_text ps\<rparr>, s\<lparr>t_world := w, m_httpType := 1\<rparr>)"
  using assms(4-) by (simp add: read_plain_request [OF assms(1-3)] get_query_def required_keys_def split: if_splits)

lemma atoi_one: "atoi ''1'' = 1"
  by code_simp

lemma demo_request:
  "plain_query demo_params" "packet_for demo_params (demo_packet demo_params)" "length (demo_packet demo_params) < 8192"
proof -
  have "url_decode (cstr (demo_packet demo_params)) = ''GET /query?'' @ query_text demo_params @ '' HTTP/1.1'' @ CRLF @ []"
    "9 < length (demo_packet demo_params)" "length (demo_packet demo_params) < 8192" by code_simp+
  then show "packet_for demo_params (demo_packet demo_params)" "length (demo_packet demo_params) < 8192"
    unfolding packet_for_def by blast+
  show "plain_query demo_params" by code_simp
qed

definition demo_query :: Query where
  "demo_query = \<lparr>q_user = ''u'', q_token = ''tok'', q_type = ''1'', q_cst = ''c'', q_accuracy = ''a'', q_lat = ''1'', q_lng = ''2'',
     q_repo = ''r'', q_item = ''i'', q_id = ''null'', q_params = query_text demo_params\<rparr>"

theorem request_round_trip_witness:
  "read_request (demo_ext (demo_packet demo_params)) demo_sock demo_state =
     Some (Inr demo_query, demo_state\<lparr>t_world := (), m_httpType := 1\<rparr>)"
  unfolding demo_query_def
  by (rule request_round_trip [OF demo_request(1,2) demo_recv [OF demo_request(3)]])
    (simp_all add: demo_params_def atoi_one)

text \<open>
  A well-formed request that lacks one of the nine required parameters, or the identifier
  for type 2, is refused with 1100.
\<close>

theorem missing_parameter_refused:
  assumes "plain_query ps" "packet_for ps d" "TcpRead (x_net X) sock 8192 (t_world s) = (int (length d), d, w)"
    and "(\<exists>k \<in> set required_keys. map_of (rev ps) k = None)
         \<or> map_of (rev ps) ''ctype'' = Some ''2'' \<and> map_of (rev ps) ''id'' = None"
  shows "read_request X sock s = Some (Inl (OTHERERR, ''1100''), s\<lparr>t_world := w, m_httpType := 1\<rparr>)"
proof -
  have "atoi ''2'' = 2" by code_simp
  then have "get_query (query_text ps) (rev ps) = Inl (OTHERERR, ''1100'')"
    using assms(4) by (auto simp: get_query_def list_all_iff Let_def split: option.splits)
  then show ?thesis by (simp add: read_plain_request [OF assms(1-3)])
qed

theorem missing_parameter_refused_witness:
  "read_request (demo_ext (demo_packet [(''authuser'', ''u'')])) demo_sock demo_state =
     Some (Inl (OTHERERR, ''1100''), demo_state\<lparr>t_world := (), m_httpType := 1\<rparr>)"
proof -
  let ?ps = "[(''authuser'', ''u'')]"
  have 1: "url_decode (cstr (demo_packet ?ps)) = ''GET /query?'' @ query_text ?ps @ '' HTTP/1.1'' @ CRLF @ []"
    "9 < length (demo_packet ?ps)" "length (demo_packet ?ps) < 8192" "plain_query ?ps" by code_simp+
  then have 2: "packet_for ?ps (demo_packet ?ps)" unfolding packet_for_def by blast
  have "\<exists>k \<in> set required_keys. map_of (rev ?ps) k = None" by (rule bexI [of _ "''item''"]) (simp_all add: required_keys_def)
  then show ?thesis using missing_parameter_refused [OF 1(4) 2 demo_recv [OF 1(3)]] by blast
qed

text \<open>
  C38. The check of the method is dead, and the missing check matters: \<^verbatim>\<open>find\<close>'s 64-bit \<^verbatim>\<open>npos\<close>
  is cut to 32 bits before it is compared, so every packet counts as a \<^verbatim>\<open>GET\<close>. A packet
  without \<^verbatim>\<open>GET\<close> is served when its target follows any three characters, and one that
  ends in \<^verbatim>\<open>GET\<close> raises an exception that nobody catches.
\<close>

theorem method_check_is_dead:
  assumes "length a = 3" "LF \<notin> set (a @ q)" "CHR '' '' \<notin> set q" "length q < 1024"
    and "str_find (a @ ''/query?'' @ q @ '' HTTP/1.1'' @ CRLF) ''GET'' 0 = None"
    and "length p < 8192" "str_find (p @ ''GET'') ''GET'' 0 = Some (length p)"
  shows "is_GET c \<and> query_string (a @ ''/query?'' @ q @ '' HTTP/1.1'' @ CRLF) = Some (Inr q)
    \<and> query_string (p @ ''GET'') = None"
proof -
  let ?c = "a @ ''/query?'' @ q @ '' HTTP/1.1'' @ CRLF" and ?u = "a @ ''/query?'' @ q @ '' HTTP/1.1'' @ [CR]"
  have "str_find (?u @ LF # []) [LF] 0 = Some (length ?u)" by (rule find_char) (use assms in auto)
  then have i: "uint (u32_find ?c [LF]) = 20 + int (length q)"
    using assms(1,4) u32_find_Some [of ?c "[LF]" "length ?u"] by simp
  have j: "u32_find ?c ''GET'' = - 1" using assms(5) by (simp add: u32_find_def)
  have "str_substr_z ?c 3 (8 + int (length q)) = Some (''/query?'' @ q @ '' '')"
    using str_substr_z_append [of a "''/query?'' @ q @ '' ''" "''HTTP/1.1'' @ CRLF"] by (simp add: assms(1))
  then have "request_target ?c = Some (''/query?'' @ q @ '' '')" unfolding request_target_def Let_def i j by simp
  then have 1: "query_string ?c = Some (Inr q)" using assms(3) by (rule query_string_target)
  have "uint (u32_find (p @ ''GET'') ''GET'' + 4) = int (length p) + 4"
  proof -
    have "u32_find (p @ ''GET'') ''GET'' + 4 = word_of_nat (length p + 4)" by (simp add: u32_find_def assms(7))
    then show ?thesis using assms(6) by (simp only: unsigned_of_nat) (simp add: take_bit_nat_eq_self)
  qed
  then have 2: "query_string (p @ ''GET'') = None"
    by (simp add: query_string_def request_target_def Let_def str_substr_z_def)
  show ?thesis using is_GET_always 1 2 by blast
qed

theorem method_check_is_dead_witness:
  "query_string (''XYZ/query?a=b HTTP/1.1'' @ CRLF) = Some (Inr ''a=b'') \<and> query_string ''0123456789GET'' = None"
  using method_check_is_dead [of "''XYZ''" "''a=b''" "''0123456789''"] by (simp add: str_find_def)

text \<open>
  A query string of 1024 characters or more, which a packet of 8191 bytes can hold, is copied
  past the end of \<^verbatim>\<open>bufTemp\<close>.
\<close>

theorem long_query_overruns:
  assumes "TcpRead (x_net X) sock 8192 (t_world s) = (int (length d), d, w)" "9 < length d" "length d < 8192"
    and "url_decode (cstr d) = ''GET /query?'' @ q @ '' HTTP/1.1'' @ CRLF @ hs"
    and "LF \<notin> set q" "CHR '' '' \<notin> set q" "1024 \<le> length q" "length q < 8192"
  shows "read_request X sock s = None"
proof -
  have "query_string (url_decode (cstr d)) = Some (Inr q)"
    unfolding assms(4) using assms(5-8) by (intro query_string_target request_line_target) auto
  then show ?thesis using assms(2,3,7) by (simp add: read_request_def assms(1) is_GET_always parse_params_def)
qed

lemma url_decode_plain:
  assumes "NUL \<notin> set t" "CHR ''%'' \<notin> set t" "CHR ''+'' \<notin> set t" shows "url_decode (cstr t) = t"
proof -
  have "url_decode_loop t = t" using assms by (induction t) auto
  moreover have "cstr t = t" using assms(1) by simp
  ultimately show ?thesis by (simp add: url_decode_def)
qed

theorem long_query_overruns_witness:
  "read_request (demo_ext (''GET /query?'' @ replicate 1024 CHR ''x'' @ '' HTTP/1.1'' @ CRLF)) demo_sock demo_state = None"
proof -
  let ?d = "''GET /query?'' @ replicate 1024 CHR ''x'' @ '' HTTP/1.1'' @ CRLF"
  have 1: "url_decode (cstr ?d) = ''GET /query?'' @ replicate 1024 CHR ''x'' @ '' HTTP/1.1'' @ CRLF @ []"
    unfolding append_Nil2 by (rule url_decode_plain) simp_all
  have 2: "length ?d < 8192" "9 < length ?d" by simp_all
  show ?thesis by (rule long_query_overruns [OF demo_recv [OF 2(1)] 2(2,1) 1]) simp_all
qed

end
