(* ===== verification/TaskOrders.thy ===== *)
theory TaskOrders
  imports TaskMain
begin

text \<open>
  The middle of \<^verbatim>\<open>BdxGetHttpPacket\<close> (\<^verbatim>\<open>TaskMain.cpp\<close>, lines 427 to 572): find the order that
  pays for the request, fetch the orders of the user from DataHub when there is none, count the
  request, and refuse it when the order is used up or has expired.
\<close>

section \<open>Keys of an order\<close>

definition strUserOrderId :: "Query \<Rightarrow> string" where
  "strUserOrderId q = q_user q @ ''#'' @ ''orderid''"

definition startUserRepoItemSubid :: "Query \<Rightarrow> string" where
  "startUserRepoItemSubid q = q_user q @ ''#'' @ q_repo q @ ''#'' @ q_item q @ ''#''"

definition order_key :: "string \<Rightarrow> Query \<Rightarrow> string \<Rightarrow> string" where
  "order_key start q subid = start @ ''#'' @ startUserRepoItemSubid q @ subid"

abbreviation strCountOrderId where "strCountOrderId \<equiv> order_key ''order_count''"
abbreviation strLimitOrderId where "strLimitOrderId \<equiv> order_key ''order_limit''"
abbreviation strStatusOrderId where "strStatusOrderId \<equiv> order_key ''order_status''"
abbreviation strExpireOrderId where "strExpireOrderId \<equiv> order_key ''order_expire''"

abbreviation needUpdateOrder :: string where "needUpdateOrder \<equiv> ''need_updated_datahub_order''"
abbreviation alreadyUpdateOrder :: string where "alreadyUpdateOrder \<equiv> ''already_updated_datahub_order''"

section \<open>Finding an order\<close>

text \<open>\<^verbatim>\<open>atol(..) * 86400\<close>, passed as an \<^verbatim>\<open>int32_t\<close>.\<close>

definition expire_seconds :: "string \<Rightarrow> int" where
  "expire_seconds t = sint (word_of_int (atol (cstr t) * 86400) :: u32)"

text \<open>
  Store one order. When DataHub does not confirm it, the member of lowest rank is removed from
  the sorted set, whichever that is; \<open>v\<close> is \<^verbatim>\<open>ssmoidValue\<close>.
\<close>

definition store_order ::
  "('c, 'w, 'j) Ext \<Rightarrow> Query \<Rightarrow> string \<Rightarrow> DATAHUB_ORDER_INFO_S \<Rightarrow> string \<Rightarrow> ('c, 'w) TaskState
     \<Rightarrow> (string \<times> ('c, 'w) TaskState) option" where
  "store_order X q tok ord v s =
     (let sid = m_subscriptionID ord in
      do {
        (_, s) \<leftarrow> on_redis (UserPutOrderSet (x_redis X) (strUserOrderId q) sid sid) s;
        (_, s) \<leftarrow> on_redis (UserSadd (x_redis X) needUpdateOrder (startUserRepoItemSubid q @ sid)) s;
        (_, s) \<leftarrow> on_redis (UserPut (x_redis X) (strCountOrderId q sid) ''0'') s;
        (_, s) \<leftarrow> on_redis (UserPutExpire (x_redis X) (strExpireOrderId q sid) sid (expire_seconds (m_expireTime ord))) s;
        (_, s) \<leftarrow> on_redis (UserPut (x_redis X) (strLimitOrderId q sid) (m_units ord)) s;
        (_, s) \<leftarrow> on_redis (UserPut (x_redis X) (strStatusOrderId q sid) ''0'') s;
        (ok, s) \<leftarrow> on_hub (BdxApiSetUserOrderStatus (x_net X) (x_junk X) (q_user q) sid (q_repo q) (q_item q) tok) s;
        if ok then Some (v, s)
        else do {
          ((_, v), s) \<leftarrow> on_redis (UserRemoveSortedSet (x_redis X) (strUserOrderId q) v) s;
          Some (v, s)
        }
      })"

fun store_orders ::
  "('c, 'w, 'j) Ext \<Rightarrow> Query \<Rightarrow> string \<Rightarrow> DATAHUB_ORDER_INFO_S list \<Rightarrow> string \<Rightarrow> ('c, 'w) TaskState
     \<Rightarrow> ('c, 'w) TaskState option" where
  "store_orders X q tok [] v s = Some s"
| "store_orders X q tok (ord # ords) v s =
     do { (v, s) \<leftarrow> store_order X q tok ord v s; store_orders X q tok ords v s }"

text \<open>The result is \<^verbatim>\<open>strTempSubID\<close>, empty when there is no order.\<close>

definition find_order ::
  "('c, 'w, 'j) Ext \<Rightarrow> Query \<Rightarrow> string \<Rightarrow> ('c, 'w) TaskState \<Rightarrow> (string, 'c, 'w) phase" where
  "find_order X q tok s =
     do {
       ((found, v), s) \<leftarrow> on_redis (UserGetSortedSet (x_redis X) (strUserOrderId q) []) s;
       if found then Some (Inr v, s)
       else do {
         (vecDataHubOrder, s) \<leftarrow>
           on_hub (BdxApiGetUserOrder (x_net X) (x_json X) (x_junk X) (q_repo q) (q_item q) (q_user q) tok) s;
         s \<leftarrow> store_orders X q tok vecDataHubOrder v s;
         ((_, v), s) \<leftarrow> on_redis (UserGetSortedSet (x_redis X) (strUserOrderId q) []) s;
         Some (Inr v, s)
       }
     }"

section \<open>Counting the request\<close>

definition task_time :: "('c, 'w, 'j) Ext \<Rightarrow> ('c, 'w) TaskState \<Rightarrow> string option" where
  "task_time X s = BdxTaskMainGetTime (x_localtime X) (x_time X (t_world s)) 0"

definition count_request ::
  "('c, 'w, 'j) Ext \<Rightarrow> Query \<Rightarrow> ('c, 'w) TaskState \<Rightarrow> (unit, 'c, 'w) phase" where
  "count_request X q s =
     do {
       t \<leftarrow> task_time X s;
       let r = (t_res s)\<lparr>ssUserName := q_user q @ ''_'' @ q_type q,
                 ssUserCountKeyUserLimitReq := ''Limit_'' @ q_user q,
                 ssOperatorNameKeyLimit := ''Limit_'' @ t @ ''_'' @ q_user q,
                 ssUserCountKeyReq := ''Req_'' @ t @ ''_'' @ q_user q,
                 ssUserCountKeyRes := ''Res_'' @ t @ ''_'' @ q_user q,
                 ssUserCountKeyEmptyRes := ''EmptyRes_'' @ t @ ''_'' @ q_user q\<rparr>;
           s = s\<lparr>t_res := r\<rparr>
       in do {
         (_, s) \<leftarrow> on_redis (UserIncr (x_redis X) (ssUserCountKeyReq r) 0) s;
         let s = bump inc_Req (ssUserName r) s in do {
           (_, s) \<leftarrow> on_redis (UserIncr (x_redis X) (ssUserCountKeyUserLimitReq r) 0) s;
           Some (Inr (), bump inc_ResTag (ssUserName r) s)
         }
       }
     }"

section \<open>The quota\<close>

text \<open>An order that is used up or expired: drop the order of lowest rank and report it once.\<close>

definition retire_order ::
  "('c, 'w, 'j) Ext \<Rightarrow> Query \<Rightarrow> string \<Rightarrow> string \<Rightarrow> int \<Rightarrow> ('c, 'w) TaskState \<Rightarrow> ('c, 'w) TaskState option" where
  "retire_order X q tok sid iCountOrderId s =
     do {
       (_, s) \<leftarrow> on_redis (UserRemoveSortedSet (x_redis X) (strUserOrderId q) []) s;
       ((found, v), s) \<leftarrow> on_redis (UserGet (x_redis X) (strStatusOrderId q sid) []) s;
       if found \<and> atoi (cstr v) = 0 then do {
         (_, s) \<leftarrow> on_hub (BdxApiUpdateUserOrder (x_net X) (x_junk X) (q_user q) sid (q_repo q) (q_item q) tok iCountOrderId) s;
         (_, s) \<leftarrow> on_redis (UserSmove (x_redis X) needUpdateOrder alreadyUpdateOrder (startUserRepoItemSubid q @ sid)) s;
         (_, s) \<leftarrow> on_redis (UserPut (x_redis X) (strStatusOrderId q sid) ''1'') s;
         Some s
       }
       else Some s
     }"

definition check_quota ::
  "('c, 'w, 'j) Ext \<Rightarrow> Query \<Rightarrow> string \<Rightarrow> string \<Rightarrow> ('c, 'w) TaskState \<Rightarrow> (unit, 'c, 'w) phase" where
  "check_quota X q tok sid s =
     do {
       ((b1, v1), s) \<leftarrow> on_redis (UserGet (x_redis X) (strCountOrderId q sid) []) s;
       if \<not> b1 then fail OTHERERR ''8004'' s
       else do {
         ((b2, v2), s) \<leftarrow> on_redis (UserGet (x_redis X) (strLimitOrderId q sid) []) s;
         if \<not> b2 then fail OTHERERR ''8004'' s
         else
           let iCountOrderId = atoi (cstr v1); iLimitOrderId = atoi (cstr v2) in
           do {
             (over, s) \<leftarrow>
               (if iLimitOrderId \<le> iCountOrderId then Some (True, s)
                else do {
                  ((b3, _), s) \<leftarrow> on_redis (UserGet (x_redis X) (strExpireOrderId q sid) v1) s;
                  Some (\<not> b3, s)
                });
             if over then do { s \<leftarrow> retire_order X q tok sid iCountOrderId s; fail OTHERERR ''8003'' s }
             else Some (Inr (), s)
           }
       }
     }"

end
