(* ===== verification/TaskRun.thy ===== *)
theory TaskRun
  imports TaskOrders
begin

text \<open>
  The end of \<^verbatim>\<open>BdxGetHttpPacket\<close> (cache, remote API, result, bookkeeping), the two functions
  that send the answer, and \<^verbatim>\<open>BdxRunTask\<close>, in
  \<^verbatim>\<open>src/src/UserQueryTask/TaskMain/TaskMain.cpp\<close>. Two readings of the clock with no other outside
  call between them are equal. The stop watch \<^verbatim>\<open>m_clEmTime\<close> is set and never read; it is left
  out.
\<close>

section \<open>Cache key and remote target\<close>

abbreviation strPrivateKey :: string where "strPrivateKey \<equiv> ''a1b2c3''"

text \<open>\<^verbatim>\<open>strKey\<close>, the target of the remote request, and \<^verbatim>\<open>strMd5Key\<close>, the name of its answer.\<close>

definition query_keys :: "Query \<Rightarrow> string \<times> string" where
  "query_keys q =
     (let place = ''&accuracy='' @ q_accuracy q @ ''&lat='' @ q_lat q @ ''&lng='' @ q_lng q @ ''&cst='' @ q_cst q;
          name = q_accuracy q @ ''_'' @ q_cst q @ ''_'' @ q_lat q @ ''_'' @ q_lng q;
          t = atoi (q_type q)
      in if t = 1 then (''/api/landmark/here?appkey='' @ strPrivateKey @ place, name)
         else if t = 2 then (''/api/landmark/info?appkey='' @ strPrivateKey @ ''&id='' @ q_id q, name @ ''_'' @ q_id q)
         else if t = 3 then (''/api/landmark/nearby?appkey='' @ strPrivateKey @ place, name)
         else ([], []))"

definition task_sign :: "string \<Rightarrow> ('c, 'w) TaskState \<Rightarrow> string \<times> ('c, 'w) TaskState" where
  "task_sign k s = (case BdxGetParamSign k [] (t_md5 s) of (h, m) \<Rightarrow> (h, s\<lparr>t_md5 := m\<rparr>))"

text \<open>True when the answer was in the cache.\<close>

definition cache_lookup ::
  "('c, 'w, 'j) Ext \<Rightarrow> Query \<Rightarrow> ('c, 'w) TaskState \<Rightarrow> (bool, 'c, 'w) phase" where
  "cache_lookup X q s =
     (case task_sign (snd (query_keys q)) s of
        (k, s) \<Rightarrow>
          do {
            ((found, v), s) \<leftarrow> on_redis (UserGet (x_redis X) k []) s;
            if found then
              let s = s\<lparr>t_res := (t_res s)\<lparr>mResValue := v\<rparr>\<rparr> in
              do {
                (_, s) \<leftarrow> on_redis (UserIncr (x_redis X) (ssUserCountKeyRes (t_res s)) 0) s;
                Some (Inr True, bump inc_Res (ssUserName (t_res s)) s)
              }
            else
              Some (Inr False, s\<lparr>t_res := (t_res s)\<lparr>ssOperatorName := q_user q @ ''_Remote_'' @ ''9999'' @ ''_''\<rparr>\<rparr>)
          })"

section \<open>The remote API\<close>

text \<open>
  The first configured API whose parameter is 9999; without one, \<^verbatim>\<open>remoteSocket\<close> is never
  set.
\<close>

definition remote_api :: "(string, QUERYAPIINFO_S) smap \<Rightarrow> string option" where
  "remote_api apis = map_option fst (List.find (\<lambda>(k, i). atoi (mParam i) = 9999) apis)"

definition remote_endpoint :: "string \<Rightarrow> 16 word \<times> string" where
  "remote_endpoint k =
     (case str_find k '':'' 0 of
        None \<Rightarrow> (word_of_int (atoi k), k)
      | Some i \<Rightarrow> (word_of_int (atoi (drop (i + 1) k)), take i k))"

definition remote_request :: "string \<Rightarrow> string option" where
  "remote_request strKey =
     into_buffer 8192 (''GET '' @ cstr strKey @ '' HTTP/1.1'' @ CRLF @ ''Host: bapi.caiyun001.net'' @ CRLF
       @ ''Accept-Encoding: identity'' @ CRLF @ CRLF)"

text \<open>
  Connect, send and read once. A failed connection keeps the socket; after a failed send the
  deleted socket is still used, which is undefined.
\<close>

definition query_remote ::
  "('c, 'w, 'j) Ext \<Rightarrow> Query \<Rightarrow> ('c, 'w) TaskState \<Rightarrow> (string, 'c, 'w) phase" where
  "query_remote X q s =
     do {
       k \<leftarrow> remote_api (x_apis X);
       (case new_CTcpSocket (x_net X) (fst (remote_endpoint k)) (snd (remote_endpoint k)) 300000 (t_world s) of
          (None, _) \<Rightarrow> None
        | (Some sk, w) \<Rightarrow>
            (case TcpConnect (x_net X) sk w of
               (r, sk, w) \<Rightarrow>
                 if r \<noteq> 0 then fail OTHERERR ''2001'' (s\<lparr>t_world := w\<rparr>)
                 else do {
                   req \<leftarrow> remote_request (fst (query_keys q));
                   case TcpWrite (x_net X) sk req w of
                     (sent, w) \<Rightarrow>
                       if \<not> sent then None
                       else
                         let s = bump inc_Req (ssOperatorName (t_res s)) s in
                         (case TcpRead (x_net X) sk 8192 w of
                            (_, d, w) \<Rightarrow>
                              if length d = 8192 \<and> NUL \<notin> set d then None
                              else
                                (case TcpClose (x_net X) sk w of
                                   (sk, w) \<Rightarrow>
                                     let s = s\<lparr>t_world := delete_CTcpSocket (x_net X) sk w\<rparr> in
                                     if cstr d = [] then fail OTHERERR ''2003'' s
                                     else Some (Inr (cstr d), s\<lparr>t_res := (t_res s)\<lparr>mResValue := cstr d\<rparr>\<rparr>)))
                 }))
     }"

text \<open>The object in the answer: from the first opening to the last closing brace of the body.\<close>

definition remote_body :: "string \<Rightarrow> string" where
  "remote_body r = (case str_find r (CRLF @ CRLF) 0 of None \<Rightarrow> r | Some i \<Rightarrow> drop (i + 4) r)"

definition extract_result :: "string \<Rightarrow> ('c, 'w) TaskState \<Rightarrow> (unit, 'c, 'w) phase" where
  "extract_result r s =
     (if r = [] then fail OTHERERR ''5000'' s
      else
        let v = remote_body r;
            s = s\<lparr>t_res := (t_res s)\<lparr>mResValue := v\<rparr>\<rparr>;
            ipos1 = str_find_z v ''{'' 0;
            ipos2 = (case str_rfind_char v CHR ''}'' of None \<Rightarrow> - 1 | Some i \<Rightarrow> int i)
        in if ipos1 < 0 \<or> ipos2 \<le> 0 then fail OTHERERR ''5000'' s
           else do {
             ob \<leftarrow> str_substr_z v ipos1 (ipos2 - ipos1 + 1);
             Some (Inr (), s\<lparr>t_res := (t_res s)\<lparr>mResValue := ob\<rparr>\<rparr>)
           })"

section \<open>Bookkeeping\<close>

definition full_time :: "('c, 'w, 'j) Ext \<Rightarrow> ('c, 'w) TaskState \<Rightarrow> string option" where
  "full_time X s = BdxTaskMainGetFullTime (x_localtime X) (x_time X (t_world s)) 0"

definition task_date :: "('c, 'w, 'j) Ext \<Rightarrow> ('c, 'w) TaskState \<Rightarrow> string option" where
  "task_date X s = BdxTaskMainGetDate (x_localtime X) (x_time X (t_world s)) 0"

definition hive_record ::
  "('c, 'w, 'j) Ext \<Rightarrow> Query \<Rightarrow> bool \<Rightarrow> ('c, 'w) TaskState \<Rightarrow> HIVELOCALLOG_S option" where
  "hive_record X q cached s =
     do {
       t \<leftarrow> full_time X s;
       d \<leftarrow> task_date X s;
       h \<leftarrow> str_substr t 8 2;
       Some \<lparr>strAccessKeyId = q_user q, iSource = (if cached then 0 else 1), strTelNo = q_type q, strTimeStamp = [],
         strLiveTime = [], strSinature = q_token q, strAuthId = q_cst q, strCustName = q_lat q, strAction = q_lng q,
         strMd5Key = snd (query_keys q), strReqParams = q_params q, strValue = mResValue (t_res s),
         strQuerytime = t, strDayId = d, strHourId = h\<rparr>
     }"

definition log_query ::
  "('c, 'w, 'j) Ext \<Rightarrow> Query \<Rightarrow> bool \<Rightarrow> ('c, 'w) TaskState \<Rightarrow> (unit, 'c, 'w) phase" where
  "log_query X q cached s =
     do { l \<leftarrow> hive_record X q cached s; Some (Inr (), s\<lparr>t_hive := t_hive s @ [l]\<rparr>) }"

definition store_result ::
  "('c, 'w, 'j) Ext \<Rightarrow> Query \<Rightarrow> bool \<Rightarrow> ('c, 'w) TaskState \<Rightarrow> (unit, 'c, 'w) phase" where
  "store_result X q cached s =
     (case jparse (x_json X) (mResValue (t_res s)) of
        None \<Rightarrow> fail OTHERERR ''5000'' s
      | Some _ \<Rightarrow>
          if cached then Some (Inr (), s)
          else do {
            (_, s) \<leftarrow> on_redis (UserIncr (x_redis X) (ssUserCountKeyRes (t_res s)) 0) s;
            let s = bump inc_Res (ssOperatorName (t_res s)) (bump inc_Res (ssUserName (t_res s)) s) in
            case task_sign (snd (query_keys q)) s of
              (k, s) \<Rightarrow> do {
                (_, s) \<leftarrow> on_redis (UserPutExpire (x_redis X) k (mResValue (t_res s)) (1825 * 86400)) s;
                Some (Inr (), s)
              }
          })"

definition charge_order ::
  "('c, 'w, 'j) Ext \<Rightarrow> Query \<Rightarrow> string \<Rightarrow> ('c, 'w) TaskState \<Rightarrow> (unit, 'c, 'w) phase" where
  "charge_order X q sid s =
     do { (_, s) \<leftarrow> on_redis (UserIncr (x_redis X) (strCountOrderId q sid) 0) s; Some (Inr (), s) }"

section \<open>The whole request\<close>

definition find_answer ::
  "('c, 'w, 'j) Ext \<Rightarrow> Query \<Rightarrow> ('c, 'w) TaskState \<Rightarrow> (bool, 'c, 'w) phase" where
  "find_answer X q s =
     and_then (cache_lookup X q s) (\<lambda>cached s.
       if cached then Some (Inr True, s)
       else and_then (query_remote X q s) (\<lambda>r s.
              and_then (extract_result r s) (\<lambda>_ s. Some (Inr False, s))))"

definition BdxGetHttpPacket ::
  "('c, 'w, 'j) Ext \<Rightarrow> CTcpSocket \<Rightarrow> ('c, 'w) TaskState \<Rightarrow> (unit, 'c, 'w) phase" where
  "BdxGetHttpPacket X sock s =
     and_then (read_request X sock s) (\<lambda>q s.
     and_then (check_user_token X q s) (\<lambda>v s.
     and_then (gateway_token X v s) (\<lambda>tok s.
     and_then (find_order X q tok s) (\<lambda>sid s.
     and_then (count_request X q s) (\<lambda>_ s.
     and_then (check_quota X q tok sid s) (\<lambda>_ s.
     and_then (find_answer X q s) (\<lambda>cached s.
     and_then (log_query X q cached s) (\<lambda>_ s.
     and_then (store_result X q cached s) (\<lambda>_ s.
     charge_order X q sid s)))))))))"

section \<open>Answering\<close>

definition http200ok :: string where
  "http200ok = ''HTTP/1.1 200 OK'' @ CRLF @ ''Server: Bdx DMP/0.1.0'' @ CRLF @ ''Cache-Control: must-revalidate'' @ CRLF
     @ ''Expires: Thu, 01 Jan 1970 00:00:00 GMT'' @ CRLF @ ''Pragma: no-cache'' @ CRLF @ ''Connection: Keep-Alive'' @ CRLF
     @ ''Content-Type: application/json;charset=UTF-8'' @ CRLF @ ''Date: ''"

definition http_head :: "('c, 'w, 'j) Ext \<Rightarrow> nat \<Rightarrow> ('c, 'w) TaskState \<Rightarrow> string" where
  "http_head X len s =
     http200ok @ BdxGetHttpDate (x_localtime X) (x_time X (t_world s)) @ ''Content-Length: '' @ show_nat len @ CRLF @ CRLF"

text \<open>Copying head and body past the end of the buffer of 8192 or 65536 bytes is undefined.\<close>

definition BdxSendEmpyRespones ::
  "('c, 'w, 'j) Ext \<Rightarrow> CTcpSocket \<Rightarrow> string \<Rightarrow> ('c, 'w) TaskState \<Rightarrow> (int \<times> ('c, 'w) TaskState) option" where
  "BdxSendEmpyRespones X sock errorMsg s =
     (let data = http_head X (length errorMsg) s @ errorMsg in
      if 8192 < length data then None
      else case TcpWrite (x_net X) sock data (t_world s) of
             (ok, w) \<Rightarrow> Some (if ok then 0 else LINKERROR, s\<lparr>t_world := w\<rparr>))"

definition response_text :: "('c, 'w, 'j) Ext \<Rightarrow> ('c, 'w) TaskState \<Rightarrow> string option" where
  "response_text X s =
     (let v = mResValue (t_res s);
          text = (if m_httpType s \<noteq> 0 then http_head X (length v) s @ v else cstr v)
      in if 65536 \<le> length text then None else Some (cstr text))"

definition BdxSendRespones ::
  "('c, 'w, 'j) Ext \<Rightarrow> CTcpSocket \<Rightarrow> ('c, 'w) TaskState \<Rightarrow> (int \<times> ('c, 'w) TaskState) option" where
  "BdxSendRespones X sock s =
     do {
       text \<leftarrow> response_text X s;
       case TcpWrite (x_net X) sock text (t_world s) of
         (ok, w) \<Rightarrow>
           let s = s\<lparr>t_world := w\<rparr>;
               s = (if ok then s
                    else bump inc_TotalEmptyRes (ssUserName (t_res s)) (bump inc_EmptyRes (ssUserName (t_res s)) s))
           in do {
             (_, s) \<leftarrow> (if queryType (t_res s) = 1
                         then on_redis (UserIncr (x_redis X) (ssUserCountKeyRes (t_res s)) 0) s
                         else Some (True, s));
             Some (if ok then 0 else LINKERROR, s)
           }
     }"

abbreviation or_Empty :: "string \<Rightarrow> string" where "or_Empty x \<equiv> (if x = [] then ''Empty'' else x)"

text \<open>The log record of a refused request; \<open>BdxGetHttpPacket\<close> never sets the four strings.\<close>

definition empty_record ::
  "('c, 'w, 'j) Ext \<Rightarrow> string \<Rightarrow> string \<Rightarrow> string \<Rightarrow> string \<Rightarrow> string \<Rightarrow> ('c, 'w) TaskState \<Rightarrow> HIVELOCALLOG_S option" where
  "empty_record X retAccessKeyID retKey retKeyType retUser errorMsg s =
     do {
       t \<leftarrow> full_time X s;
       d \<leftarrow> task_date X s;
       h \<leftarrow> str_substr t 8 2;
       Some \<lparr>strAccessKeyId = or_Empty retAccessKeyID, iSource = - 1, strTelNo = or_Empty retKey, strTimeStamp = [],
         strLiveTime = [], strSinature = ''Empty'', strAuthId = ''Empty'', strCustName = ''Empty'',
         strAction = or_Empty retKeyType, strMd5Key = [], strReqParams = or_Empty retUser,
         strValue = (if mResValue (t_res s) = [] then errorMsg else mResValue (t_res s)),
         strQuerytime = t, strDayId = d, strHourId = h\<rparr>
     }"

definition error_body :: "string \<Rightarrow> string" where
  \<open>error_body errorMsg = ''{'' @ CRLF @ ''"code":"'' @ errorMsg @ ''",'' @ CRLF @ ''"msg":"search data failure",'' @ CRLF
     @ ''"data":""'' @ CRLF @ ''}''\<close>

definition count_empty :: "('c, 'w, 'j) Ext \<Rightarrow> ('c, 'w) TaskState \<Rightarrow> ('c, 'w) TaskState option" where
  "count_empty X s =
     (let name = ssUserName (t_res s); oname = ssOperatorName (t_res s) in
      do {
        s \<leftarrow> (if map_of (t_report s) name \<noteq> None then do {
                (_, s) \<leftarrow> on_redis (UserIncr (x_redis X) (ssUserCountKeyEmptyRes (t_res s)) 0) s;
                Some (bump inc_EmptyRes name s)
              }
              else Some s);
        Some (if oname \<noteq> [] then bump inc_EmptyRes oname s else s)
      })"

definition refuse ::
  "('c, 'w, 'j) Ext \<Rightarrow> CTcpSocket \<Rightarrow> string \<Rightarrow> ('c, 'w) TaskState \<Rightarrow> (int \<times> ('c, 'w) TaskState) option" where
  "refuse X sock errorMsg s =
     do {
       l \<leftarrow> empty_record X [] [] [] [] errorMsg s;
       s \<leftarrow> count_empty X (if strTelNo l \<noteq> ''Empty'' then s\<lparr>t_hive := t_hive s @ [l]\<rparr> else s);
       BdxSendEmpyRespones X sock (error_body errorMsg) s
     }"

definition BdxRunTask ::
  "('c, 'w, 'j) Ext \<Rightarrow> CTcpSocket option \<Rightarrow> ('c, 'w) TaskState \<Rightarrow> (int \<times> ('c, 'w) TaskState) option" where
  "BdxRunTask X m_pclSock s =
     do {
       _ \<leftarrow> task_time X s;
       case m_pclSock of
         None \<Rightarrow> Some (LINKERROR, s)
       | Some sock \<Rightarrow>
           do {
             (r, s) \<leftarrow> BdxGetHttpPacket X sock s;
             case r of
               Inr _ \<Rightarrow> BdxSendRespones X sock s
             | Inl (iRes, errorMsg) \<Rightarrow>
                 if iRes \<noteq> LINKERROR then refuse X sock errorMsg s
                 else BdxSendEmpyRespones X sock errorMsg s
           }
     }"

text \<open>Two members that the request path does not call.\<close>

definition BdxParseHttpPacket :: "string \<Rightarrow> int + string" where
  "BdxParseHttpPacket m_pszAdxBuf =
     (let p = cstr m_pszAdxBuf in
      if take 3 p \<noteq> ''GET'' then Inl (- 3)
      else case str_find p (CRLF @ CRLF) 0 of None \<Rightarrow> Inl (- 3) | Some k \<Rightarrow> Inr (drop (k + 4) p))"

definition BdxParseBody :: "string \<Rightarrow> int" where "BdxParseBody pszBody = 0"

end
