(* ===== verification/Outcome.thy ===== *)
theory Outcome
  imports Main "HOL-Library.Monad_Syntax"
begin

text \<open>
  Partial correctness of computations that may end the process: \<open>outcome Q m\<close> says that \<open>Q\<close>
  holds of the result and the state of \<open>m\<close> whenever it has them. The rules in \<open>outcome\<close> take a
  computation apart along its text.
\<close>

named_theorems outcome \<open>introduction rules for outcomes\<close>

definition outcome :: "('r \<Rightarrow> 's \<Rightarrow> bool) \<Rightarrow> ('r \<times> 's) option \<Rightarrow> bool" where
  "outcome Q m \<longleftrightarrow> (case m of None \<Rightarrow> True | Some (r, s) \<Rightarrow> Q r s)"

lemma outcomeI: "(\<And>r s. m = Some (r, s) \<Longrightarrow> Q r s) \<Longrightarrow> outcome Q m"
  by (auto simp: outcome_def split: option.split)

lemma outcomeD: "outcome Q m \<Longrightarrow> m = Some (r, s) \<Longrightarrow> Q r s"
  by (simp add: outcome_def)

lemma outcome_None [simp, outcome]: "outcome Q None"
  by (simp add: outcome_def)

lemma outcome_Some [simp]: "outcome Q (Some (r, s)) \<longleftrightarrow> Q r s"
  by (simp add: outcome_def)

lemma outcome_SomeI [outcome]: "Q r s \<Longrightarrow> outcome Q (Some (r, s))"
  by simp

lemma outcome_mono: "outcome P m \<Longrightarrow> (\<And>r s. P r s \<Longrightarrow> Q r s) \<Longrightarrow> outcome Q m"
  by (auto simp: outcome_def split: option.splits)

lemma outcome_conj: "outcome P m \<Longrightarrow> outcome Q m \<Longrightarrow> outcome (\<lambda>r s. P r s \<and> Q r s) m"
  by (auto simp: outcome_def split: option.splits)

lemma outcome_bind:
  "outcome P m \<Longrightarrow> (\<And>r s. P r s \<Longrightarrow> outcome Q (f (r, s))) \<Longrightarrow> outcome Q (Option.bind m f)"
  by (cases m) (auto simp: outcome_def)

lemma outcome_bind_pair [outcome]:
  "outcome P m \<Longrightarrow> (\<And>r s. P r s \<Longrightarrow> outcome Q (f r s)) \<Longrightarrow> outcome Q (Option.bind m (\<lambda>(r, s). f r s))"
  by (cases m) (auto simp: outcome_def)

text \<open>A pure part that may fail says nothing of the state.\<close>

lemma outcome_bind_pure [outcome]: "(\<And>x. m = Some x \<Longrightarrow> outcome Q (f x)) \<Longrightarrow> outcome Q (Option.bind m f)"
  by (cases m) auto

lemma outcome_if [outcome]:
  "(b \<Longrightarrow> outcome Q m) \<Longrightarrow> (\<not> b \<Longrightarrow> outcome Q m') \<Longrightarrow> outcome Q (if b then m else m')"
  by simp

lemma outcome_let [outcome]: "(\<And>x. x = a \<Longrightarrow> outcome Q (f x)) \<Longrightarrow> outcome Q (let x = a in f x)"
  by simp

lemma outcome_case_prod [outcome]: "(\<And>x y. p = (x, y) \<Longrightarrow> outcome Q (f x y)) \<Longrightarrow> outcome Q (case p of (x, y) \<Rightarrow> f x y)"
  by (cases p) simp

lemma outcome_case_option [outcome]:
  "(x = None \<Longrightarrow> outcome Q m) \<Longrightarrow> (\<And>y. x = Some y \<Longrightarrow> outcome Q (f y)) \<Longrightarrow> outcome Q (case x of None \<Rightarrow> m | Some y \<Rightarrow> f y)"
  by (cases x) simp_all

lemma outcome_case_sum [outcome]:
  "(\<And>y. x = Inl y \<Longrightarrow> outcome Q (f y)) \<Longrightarrow> (\<And>y. x = Inr y \<Longrightarrow> outcome Q (g y)) \<Longrightarrow>
     outcome Q (case x of Inl y \<Rightarrow> f y | Inr y \<Rightarrow> g y)"
  by (cases x) simp_all

end
