(* ===== verification/TaskProps.thy ===== *)
theory TaskProps
  imports TaskRun Outcome
begin

text \<open>
  What a request does to the books of its worker: the report, the queue of the query log, the
  response and the return codes. Every phase of \<open>BdxGetHttpPacket\<close> has a lemma in the form of an
  \<open>outcome\<close>; the properties of the whole request combine them with \<open>outcome_and_then\<close>.
\<close>

section \<open>Outside calls leave the books alone\<close>

definition same_books :: "('c, 'w) TaskState \<Rightarrow> ('c, 'w) TaskState \<Rightarrow> bool" where
  "same_books s s' \<longleftrightarrow> t_report s' = t_report s \<and> t_hive s' = t_hive s \<and> t_res s' = t_res s \<and> m_httpType s' = m_httpType s"

lemma same_books_refl [simp]: "same_books s s"
  by (simp add: same_books_def)

lemma same_books_trans: "same_books s s' \<Longrightarrow> same_books s' s'' \<Longrightarrow> same_books s s''"
  by (simp add: same_books_def)

lemma same_booksD:
  assumes "same_books s s'"
  shows "t_report s' = t_report s" "t_hive s' = t_hive s" "t_res s' = t_res s" "m_httpType s' = m_httpType s"
  using assms by (simp_all add: same_books_def)

text \<open>
  What the phases rely on in a call of Redis or DataHub: whatever it does outside, the books stay.
  Both ways of calling out satisfy it.
\<close>

locale outside_call =
  fixes run :: "'f \<Rightarrow> ('c, 'w) TaskState \<Rightarrow> ('r \<times> ('c, 'w) TaskState) option"
  assumes books: "run f s = Some (r, s') \<Longrightarrow> same_books s s'"
begin

lemma keeps: "outcome (\<lambda>r s'. same_books s s') (run f s)"
  by (rule outcomeI) (rule books)

lemma before: "(\<And>r s'. same_books s s' \<Longrightarrow> outcome Q (g r s')) \<Longrightarrow> outcome Q (Option.bind (run f s) (\<lambda>(r, s'). g r s'))"
  by (rule outcome_bind_pair [OF keeps])

end

interpretation redis_call: outside_call on_redis
  by unfold_locales (auto simp: on_redis_def same_books_def split: option.splits)

interpretation datahub_call: outside_call on_hub
  by unfold_locales (auto simp: on_hub_def same_books_def split: option.splits)

lemmas books = redis_call.books datahub_call.books

lemma outcome_and_then:
  assumes "outcome P m" "\<And>e s. P (Inl e) s \<Longrightarrow> Q (Inl e) s" "\<And>a s. P (Inr a) s \<Longrightarrow> outcome Q (f a s)"
  shows "outcome Q (and_then m f)"
  using assms unfolding and_then_def by (cases m) (auto split: sum.split)

section \<open>Phase by phase\<close>

text \<open>The outcome of a phase that keeps the books and fails only with a code in \<open>C\<close>.\<close>

definition quiet :: "(int \<times> string) set \<Rightarrow> ('c, 'w) TaskState \<Rightarrow> (int \<times> string) + 'a \<Rightarrow> ('c, 'w) TaskState \<Rightarrow> bool" where
  "quiet C s r s' \<longleftrightarrow> same_books s s' \<and> (\<forall>e. r = Inl e \<longrightarrow> e \<in> C)"

lemma quietI: "same_books s s' \<Longrightarrow> quiet C s (Inr a) s'" "same_books s s' \<Longrightarrow> e \<in> C \<Longrightarrow> quiet C s (Inl e) s'"
  by (simp_all add: quiet_def)

lemma check_user_token_quiet: "outcome (quiet {(OTHERERR, ''8001'')} s) (check_user_token X q s)"
  by (rule outcomeI)
     (auto simp: check_user_token_def fail_def quiet_def bind_eq_Some_conv split: if_splits prod.splits
        intro: same_books_trans dest!: books)

lemma gateway_token_quiet: "outcome (quiet {(OTHERERR, ''8002'')} s) (gateway_token X v s)"
  by (rule outcomeI)
     (auto simp: gateway_token_def fail_def quiet_def same_books_def bind_eq_Some_conv split: if_splits prod.splits
        dest!: books)

lemma store_order_books: "store_order X q tok ord v s = Some (v', s') \<Longrightarrow> same_books s s'"
  by (auto simp: store_order_def Let_def same_books_def bind_eq_Some_conv split: if_splits prod.splits dest!: books)

lemma store_orders_books: "store_orders X q tok ords v s = Some s' \<Longrightarrow> same_books s s'"
  by (induction ords arbitrary: v s)
     (auto simp: bind_eq_Some_conv dest!: store_order_books intro: same_books_trans)

lemma find_order_quiet: "outcome (quiet {} s) (find_order X q tok s)"
  by (rule outcomeI)
     (auto simp: find_order_def quiet_def same_books_def bind_eq_Some_conv split: if_splits prod.splits
        dest!: books store_orders_books)

lemma retire_order_books: "retire_order X q tok sid n s = Some s' \<Longrightarrow> same_books s s'"
  by (auto simp: retire_order_def same_books_def bind_eq_Some_conv split: if_splits prod.splits dest!: books)

lemma check_quota_quiet: "outcome (quiet {(OTHERERR, ''8003''), (OTHERERR, ''8004'')} s) (check_quota X q tok sid s)"
  by (rule outcomeI)
     (auto simp: check_quota_def fail_def quiet_def Let_def same_books_def bind_eq_Some_conv split: if_splits prod.splits
        dest!: books retire_order_books)

lemma charge_order_quiet: "outcome (quiet {} s) (charge_order X q sid s)"
  unfolding charge_order_def by (rule redis_call.before) (simp add: quiet_def)

text \<open>Reading the packet sets only \<^verbatim>\<open>m_httpType\<close>.\<close>

lemma query_string_codes: "query_string c = Some (Inl e) \<Longrightarrow> e \<in> {(LINKERROR, ''1101''), (OTHERERR, ''1100'')}"
  by (auto simp: query_string_def Let_def bind_eq_Some_conv split: if_splits)

lemma get_query_codes: "get_query q m = Inl e \<Longrightarrow> e = (OTHERERR, ''1100'')"
  by (auto simp: get_query_def Let_def split: if_splits option.splits)

lemma read_request_outcome:
  "outcome (\<lambda>r s'. same_books (s\<lparr>m_httpType := m_httpType s'\<rparr>) s' \<and> (\<forall>q. r = Inr q \<longrightarrow> m_httpType s' = 1)
      \<and> (\<forall>e. r = Inl e \<longrightarrow> e \<in> {(LINKERROR, ''1101''), (OTHERERR, ''1100'')})) (read_request X sock s)"
  by (rule outcomeI)
     (auto simp: read_request_def fail_def Let_def same_books_def is_GET_always
        split: prod.splits if_splits option.splits sum.splits dest: query_string_codes get_query_codes)

section \<open>The counters\<close>

abbreviation count_of :: "string \<Rightarrow> ('c, 'w) TaskState \<Rightarrow> USERINFO_S" where
  "count_of k s \<equiv> map_at zero_USERINFO k (t_report s)"

lemma count_of_bump: "count_of k (bump f j s) = (if k = j then f (count_of k s) else count_of k s)"
  by (simp add: bump_def map_at_def)

lemma bump_others [simp]:
  "t_hive (bump f j s) = t_hive s" "t_res (bump f j s) = t_res s" "m_httpType (bump f j s) = m_httpType s"
  "m_pDataRedis (bump f j s) = m_pDataRedis s" "t_world (bump f j s) = t_world s"
  by (simp_all add: bump_def)

text \<open>
  One answered request: the counters of \<open>name\<close> go up, those of \<open>oname\<close> may change, the others
  stay.
\<close>

definition counts :: "(USERINFO_S \<Rightarrow> USERINFO_S) \<Rightarrow> string \<Rightarrow> string \<Rightarrow> ('c, 'w) TaskState \<Rightarrow> ('c, 'w) TaskState \<Rightarrow> bool" where
  "counts f name oname s s' \<longleftrightarrow>
     (\<forall>k. k \<noteq> oname \<longrightarrow> count_of k s' = (if k = name then f (count_of k s) else count_of k s))"

lemma snd_task_sign [simp]:
  "t_report (snd (task_sign k s)) = t_report s" "t_hive (snd (task_sign k s)) = t_hive s"
  "t_res (snd (task_sign k s)) = t_res s" "m_httpType (snd (task_sign k s)) = m_httpType s"
  by (simp_all add: task_sign_def split_beta)

lemma count_request_outcome:
  "outcome (\<lambda>r s'. r = Inr () \<and> t_hive s' = t_hive s \<and> m_httpType s' = m_httpType s
      \<and> ssUserName (t_res s') = q_user q @ ''_'' @ q_type q \<and> ssOperatorName (t_res s') = ssOperatorName (t_res s)
      \<and> queryType (t_res s') = queryType (t_res s)
      \<and> (\<forall>k. count_of k s' = (if k = ssUserName (t_res s') then inc_ResTag (inc_Req (count_of k s)) else count_of k s)))
     (count_request X q s)"
  by (rule outcomeI)
     (auto simp: count_request_def Let_def bind_eq_Some_conv count_of_bump same_books_def dest!: books)

lemma cache_lookup_outcome:
  "outcome (\<lambda>r s'. (\<forall>e. r \<noteq> Inl e) \<and> t_hive s' = t_hive s \<and> m_httpType s' = m_httpType s
      \<and> ssUserName (t_res s') = ssUserName (t_res s) \<and> queryType (t_res s') = queryType (t_res s)
      \<and> (\<forall>b. r = Inr b \<longrightarrow> counts (if b then inc_Res else id) (ssUserName (t_res s)) (ssOperatorName (t_res s')) s s'))
     (cache_lookup X q s)"
  by (rule outcomeI)
     (auto simp: cache_lookup_def Let_def bind_eq_Some_conv counts_def count_of_bump same_books_def split_beta
        split: if_splits dest!: books)

text \<open>The remote part touches only the entry of \<^verbatim>\<open>ssOperatorName\<close> and the result.\<close>

definition remote_books :: "('c, 'w) TaskState \<Rightarrow> ('c, 'w) TaskState \<Rightarrow> bool" where
  "remote_books s s' \<longleftrightarrow> t_hive s' = t_hive s \<and> m_httpType s' = m_httpType s
     \<and> ssUserName (t_res s') = ssUserName (t_res s) \<and> ssOperatorName (t_res s') = ssOperatorName (t_res s)
     \<and> queryType (t_res s') = queryType (t_res s)
     \<and> counts id (ssUserName (t_res s)) (ssOperatorName (t_res s)) s s'"

lemma query_remote_outcome:
  "outcome (\<lambda>r s'. remote_books s s' \<and> (\<forall>e. r = Inl e \<longrightarrow> e \<in> {(OTHERERR, ''2001''), (OTHERERR, ''2003'')}))
     (query_remote X q s)"
  unfolding query_remote_def fail_def Let_def
  by (intro outcome_bind_pure outcome_case_prod outcome_case_option outcome_if outcome_None outcome_SomeI)
     (simp_all add: remote_books_def counts_def count_of_bump) 

lemma extract_result_outcome:
  "outcome (\<lambda>r s'. remote_books s s' \<and> t_report s' = t_report s \<and> (\<forall>e. r = Inl e \<longrightarrow> e = (OTHERERR, ''5000'')))
     (extract_result r s)"
  by (rule outcomeI)
     (auto simp: extract_result_def fail_def remote_books_def Let_def bind_eq_Some_conv counts_def
        split: prod.splits if_splits option.splits)

lemma find_answer_outcome:
  "outcome (\<lambda>r s'. t_hive s' = t_hive s \<and> m_httpType s' = m_httpType s
      \<and> ssUserName (t_res s') = ssUserName (t_res s) \<and> queryType (t_res s') = queryType (t_res s)
      \<and> (\<forall>e. r = Inl e \<longrightarrow> e \<in> {(OTHERERR, ''2001''), (OTHERERR, ''2003''), (OTHERERR, ''5000'')})
      \<and> (\<forall>b. r = Inr b \<longrightarrow> counts (if b then inc_Res else id) (ssUserName (t_res s)) (ssOperatorName (t_res s')) s s'))
     (find_answer X q s)"
  unfolding find_answer_def
  apply (rule outcome_and_then [OF cache_lookup_outcome])
   apply simp
  apply (rule outcome_if)
   apply clarsimp
  apply (rule outcome_and_then [OF query_remote_outcome])
   apply (force simp: remote_books_def)
  apply (rule outcome_and_then [OF extract_result_outcome])
   apply (force simp: remote_books_def)
  apply (rule outcome_SomeI)
  apply (simp add: remote_books_def counts_def)
  done

lemma log_query_outcome:
  "outcome (\<lambda>r s'. r = Inr () \<and> t_report s' = t_report s \<and> t_res s' = t_res s \<and> m_httpType s' = m_httpType s
      \<and> (\<exists>l. t_hive s' = t_hive s @ [l] \<and> iSource l \<in> {0, 1} \<and> strValue l = mResValue (t_res s)))
     (log_query X q cached s)"
  by (rule outcomeI) (auto simp: log_query_def hive_record_def bind_eq_Some_conv)

lemma store_result_outcome:
  "outcome (\<lambda>r s'. t_hive s' = t_hive s \<and> t_res s' = t_res s \<and> m_httpType s' = m_httpType s
      \<and> (\<forall>e. r = Inl e \<longrightarrow> e = (OTHERERR, ''5000''))
      \<and> (\<forall>u. r = Inr u \<longrightarrow> counts (if cached then id else inc_Res) (ssUserName (t_res s)) (ssOperatorName (t_res s)) s s'))
     (store_result X q cached s)"
  by (rule outcomeI)
     (auto simp: store_result_def fail_def Let_def bind_eq_Some_conv counts_def count_of_bump same_books_def split_beta
        split: if_splits option.splits dest!: books)


section \<open>The whole request\<close>

definition task_codes :: "(int \<times> string) set" where
  "task_codes = {(LINKERROR, ''1101''), (OTHERERR, ''1100''), (OTHERERR, ''8001''), (OTHERERR, ''8002''), (OTHERERR, ''8003''),
     (OTHERERR, ''8004''), (OTHERERR, ''2001''), (OTHERERR, ''2003''), (OTHERERR, ''5000'')}"

abbreviation answered :: "USERINFO_S \<Rightarrow> USERINFO_S" where "answered i \<equiv> inc_Res (inc_ResTag (inc_Req i))"

definition packet_post :: "('c, 'w) TaskState \<Rightarrow> (int \<times> string) + unit \<Rightarrow> ('c, 'w) TaskState \<Rightarrow> bool" where
  "packet_post s r s' \<longleftrightarrow>
     (case r of
        Inl e \<Rightarrow> e \<in> task_codes \<and> (t_hive s' = t_hive s \<or> (\<exists>l. t_hive s' = t_hive s @ [l] \<and> iSource l \<in> {0, 1}))
      | Inr _ \<Rightarrow> m_httpType s' = 1 \<and> queryType (t_res s') = queryType (t_res s)
          \<and> (\<exists>l. t_hive s' = t_hive s @ [l] \<and> iSource l \<in> {0, 1} \<and> strValue l = mResValue (t_res s'))
          \<and> counts answered (ssUserName (t_res s')) (ssOperatorName (t_res s')) s s')"

lemmas posts = packet_post_def task_codes_def quiet_def same_books_def

lemma packet_outcome: "outcome (packet_post s) (BdxGetHttpPacket X sock s)"
  unfolding BdxGetHttpPacket_def
  apply (rule outcome_and_then [OF read_request_outcome], force simp: posts)
  apply (rule outcome_and_then [OF check_user_token_quiet], force simp: posts)
  apply (rule outcome_and_then [OF gateway_token_quiet], force simp: posts)
  apply (rule outcome_and_then [OF find_order_quiet], force simp: posts)
  apply (rule outcome_and_then [OF count_request_outcome], force simp: posts)
  apply (rule outcome_and_then [OF check_quota_quiet], force simp: posts)
  apply (rule outcome_and_then [OF find_answer_outcome], force simp: posts)
  apply (rule outcome_and_then [OF log_query_outcome], force simp: posts)
  apply (rule outcome_and_then [OF store_result_outcome], force simp: posts)
  apply (rule outcome_mono [OF charge_order_quiet])
  apply (auto simp: packet_post_def quiet_def same_books_def counts_def split: sum.split)
  done



text \<open>
  C15. An answered request is counted once: request, response and quota counters of
  \<^verbatim>\<open>user_type\<close> grow by one, no other entry but that of the remote operator changes, and one
  record with the answer goes to the query log.
\<close>

theorem answered_request_is_counted:
  assumes "BdxGetHttpPacket X sock s = Some (Inr u, s')" "ssUserName (t_res s') \<noteq> ssOperatorName (t_res s')"
  shows "count_of (ssUserName (t_res s')) s' = answered (count_of (ssUserName (t_res s')) s)
    \<and> (\<forall>k. k \<noteq> ssUserName (t_res s') \<longrightarrow> k \<noteq> ssOperatorName (t_res s') \<longrightarrow> count_of k s' = count_of k s)
    \<and> (\<exists>l. t_hive s' = t_hive s @ [l] \<and> strValue l = mResValue (t_res s'))"
  using outcomeD [OF packet_outcome assms(1)] assms(2) by (auto simp: packet_post_def counts_def)

section \<open>The query log\<close>

lemma BdxSendEmpyRespones_books: "BdxSendEmpyRespones X sock e s = Some (r, s') \<Longrightarrow> same_books s s'"
  by (auto simp: BdxSendEmpyRespones_def Let_def same_books_def split: if_splits prod.splits)

lemma BdxSendRespones_hive: "BdxSendRespones X sock s = Some (r, s') \<Longrightarrow> t_hive s' = t_hive s"
  by (auto simp: BdxSendRespones_def Let_def bind_eq_Some_conv same_books_def split_beta split: if_splits dest!: books)

lemma empty_record_TelNo: "empty_record X acc [] ty u e s = Some l \<Longrightarrow> strTelNo l = ''Empty''"
  by (auto simp: empty_record_def bind_eq_Some_conv)

lemma count_empty_hive: "count_empty X s = Some s' \<Longrightarrow> t_hive s' = t_hive s"
  by (auto simp: count_empty_def Let_def bind_eq_Some_conv same_books_def split: if_splits dest!: books)

lemma refuse_hive: "refuse X sock e s = Some (r, s') \<Longrightarrow> t_hive s' = t_hive s"
  by (auto simp: refuse_def bind_eq_Some_conv same_books_def empty_record_TelNo
      dest!: count_empty_hive BdxSendEmpyRespones_books)


section \<open>Who may ask\<close>

lemma and_thenE:
  assumes "and_then m f = Some (Inr b, s')"
  obtains a s where "m = Some (Inr a, s)" "f a s = Some (Inr b, s')"
proof -
  from assms obtain r s where m: "m = Some (r, s)" "(case r of Inl e \<Rightarrow> Some (Inl e, s) | Inr a \<Rightarrow> f a s) = Some (Inr b, s')"
    by (auto simp: and_then_def bind_eq_Some_conv)
  then show ?thesis using that by (cases r) auto
qed

text \<open>The token is the cached one, or DataHub has just confirmed it.\<close>

definition token_checked :: "('c, 'w, 'j) Ext \<Rightarrow> Query \<Rightarrow> ('c, 'w) TaskState \<Rightarrow> bool" where
  "token_checked X q s \<longleftrightarrow>
     (\<exists>b v s1. on_redis (UserGet (x_redis X) (user_token_key q) []) s = Some ((b, v), s1)
        \<and> (q_token q = cstr v
           \<or> (\<exists>s2. on_hub (BdxVerifyDataHubToken (x_net X) (x_junk X) (q_user q) (q_token q)) s1 = Some (1, s2))))"

text \<open>The order \<open>sid\<close> is below its limit and has not expired.\<close>

definition order_open :: "('c, 'w, 'j) Ext \<Rightarrow> Query \<Rightarrow> string \<Rightarrow> ('c, 'w) TaskState \<Rightarrow> bool" where
  "order_open X q sid s \<longleftrightarrow>
     (\<exists>c s1 l s2 v s3. on_redis (UserGet (x_redis X) (strCountOrderId q sid) []) s = Some ((True, c), s1)
        \<and> on_redis (UserGet (x_redis X) (strLimitOrderId q sid) []) s1 = Some ((True, l), s2)
        \<and> atoi (cstr c) < atoi (cstr l)
        \<and> on_redis (UserGet (x_redis X) (strExpireOrderId q sid) c) s2 = Some ((True, v), s3))"

lemma check_user_token_Inr: "check_user_token X q s = Some (Inr v, s') \<Longrightarrow> token_checked X q s"
  by (fastforce simp: check_user_token_def token_checked_def fail_def bind_eq_Some_conv split: if_splits)

lemma check_quota_Inr: "check_quota X q tok sid s = Some (Inr u, s') \<Longrightarrow> order_open X q sid s"
  by (fastforce simp: check_quota_def order_open_def fail_def Let_def bind_eq_Some_conv split: if_splits)



section \<open>A request that succeeds\<close>

text \<open>An adapter with one server that is connected, or about to connect, to the table.\<close>

definition at_table :: "(unit, unit) TaskState \<Rightarrow> bool" where
  "at_table s \<longleftrightarrow> (\<exists>d. servers (m_pDataRedis s) = [d] \<and> r_idx d = 0) \<and> md5_ready (m_clMd5 (m_pDataRedis s))"

lemma table_call:
  assumes "r_idx d = 0"
  shows "\<exists>d'. call table_redis fmt args d () = (fst (redisCommand table_redis () fmt args ()), d', ()) \<and> r_idx d' = 0"
  using assms by (cases "r_context d") (auto simp: call_def KeepConnect_def checked_command_def table_redis_def Let_def
      split: list.split redis_arg.split)

lemma at_table_step:
  assumes "at_table s" "length uid < 2 ^ 32"
    and "\<And>d. r_idx d = 0 \<Longrightarrow> \<exists>d'. oper d () = Some (r, d', ()) \<and> r_idx d' = 0"
  shows "\<exists>a. on_redis (on_shard uid oper) s = Some (r, s\<lparr>m_pDataRedis := a\<rparr>) \<and> at_table (s\<lparr>m_pDataRedis := a\<rparr>)"
proof -
  obtain d where d: "servers (m_pDataRedis s) = [d]" "r_idx d = 0" "md5_ready (m_clMd5 (m_pDataRedis s))"
    using assms(1) by (auto simp: at_table_def)
  obtain d' where d': "oper d () = Some (r, d', ())" "r_idx d' = 0" using assms(3) [OF d(2)] by blast
  have ne: "servers (m_pDataRedis s) \<noteq> []" and
    op: "oper (servers (m_pDataRedis s) ! shard_of uid (length (servers (m_pDataRedis s)))) () = Some (r, d', ())"
    using d d' by (simp_all add: shard_of_def)
  obtain m where m: "on_shard uid oper (m_pDataRedis s) () =
      Some (r, (m_pDataRedis s)\<lparr>servers := [d'], m_clMd5 := m\<rparr>, ())" "md5_ready m"
    using on_shard_eq [where oper = oper and w = "()" and r = r and d = d' and w' = "()", OF d(3) assms(2) ne op]
    by (auto simp: d(1) shard_of_def)
  show ?thesis
    by (rule exI [of _ "(m_pDataRedis s)\<lparr>servers := [d'], m_clMd5 := m\<rparr>"]) (simp add: on_redis_def m at_table_def d')
qed

lemma at_table_get:
  assumes "at_table s" "length k < 2 ^ 32"
  shows "\<exists>a. on_redis (UserGet table_redis k v) s = Some ((True, table_value (cstr k)), s\<lparr>m_pDataRedis := a\<rparr>)
    \<and> at_table (s\<lparr>m_pDataRedis := a\<rparr>)"
  unfolding UserGet_def [abs_def]
proof (rule at_table_step [OF assms])
  fix d :: "unit CDataRedis" assume "r_idx d = 0"
  from table_call [OF this, of "''GET %s''" "[S (cstr k)]"]
  show "\<exists>d'. value_result (GetValue table_redis (cstr k) v d ()) = Some ((True, table_value (cstr k)), d', ()) \<and> r_idx d' = 0"
    by (auto simp: GetValue_def table_redis_def reply_len_def reply_text_def table_value_def)
qed

lemma at_table_incr:
  assumes "at_table s" "length k < 2 ^ 32"
  shows "\<exists>a. on_redis (UserIncr table_redis k 0) s = Some (True, s\<lparr>m_pDataRedis := a\<rparr>) \<and> at_table (s\<lparr>m_pDataRedis := a\<rparr>)"
  unfolding UserIncr_def [abs_def]
proof (rule at_table_step [OF assms])
  fix d :: "unit CDataRedis" assume "r_idx d = 0"
  from table_call [OF this, of "''incr %s''" "[S (cstr k)]"]
  show "\<exists>d'. Some (IncrValue table_redis (cstr k) 0 d ()) = Some (True, d', ()) \<and> r_idx d' = 0"
    by (auto simp: IncrValue_def table_redis_def)
qed

lemma at_table_order:
  assumes "at_table s" "length k < 2 ^ 32"
  shows "\<exists>a. on_redis (UserGetSortedSet table_redis k v) s = Some ((True, ''7''), s\<lparr>m_pDataRedis := a\<rparr>)
    \<and> at_table (s\<lparr>m_pDataRedis := a\<rparr>)"
  unfolding UserGetSortedSet_def [abs_def]
proof (rule at_table_step [OF assms])
  fix d :: "unit CDataRedis" assume "r_idx d = 0"
  then show "\<exists>d'. opt_value_result (GetValueSortedSet table_redis (cstr k) v d ()) = Some ((True, ''7''), d', ()) \<and> r_idx d' = 0"
    by (cases "r_context d")
       (auto simp: GetValueSortedSet_def KeepConnect_def checked_command_def table_redis_def Let_def)
qed


lemma demo_state_at_table: "at_table (demo_state\<lparr>t_world := (), m_httpType := 1\<rparr>)"
  by (simp add: at_table_def demo_state_def md5_ready_def blank_md5_def new_CDataRedis_def)

lemma demo_state_sel [simp]: "ssOperatorName (t_res demo_state) = []" "t_hive demo_state = []"
  by (simp_all add: demo_state_def)

lemma demo_ext_sel [simp]:
  "x_redis (demo_ext d) = table_redis" "x_localtime (demo_ext d) = demo_lt" "x_time (demo_ext d) = (\<lambda>w. 0)"
  "jparse (x_json (demo_ext d)) t = Some ()"
  by (simp_all add: demo_ext_def)

lemma at_table_other [simp]:
  "at_table (s\<lparr>g_strDataHubToken := v\<rparr>) = at_table s" "at_table (s\<lparr>t_res := r\<rparr>) = at_table s"
  "at_table (s\<lparr>t_hive := h\<rparr>) = at_table s" "at_table (s\<lparr>t_md5 := m\<rparr>) = at_table s" "at_table (bump f k s) = at_table s"
  by (simp_all add: at_table_def bump_def)

lemma demo_token:
  assumes "at_table s"
  shows "\<exists>s'. check_user_token (demo_ext d) demo_query s = Some (Inr ''tok'', s') \<and> at_table s' \<and> same_books s s'"
proof -
  obtain a where "on_redis (UserGet table_redis (user_token_key demo_query) []) s =
      Some ((True, table_value (cstr (user_token_key demo_query))), s\<lparr>m_pDataRedis := a\<rparr>)" "at_table (s\<lparr>m_pDataRedis := a\<rparr>)"
    using at_table_get [OF assms, of "user_token_key demo_query" "[]"] by (auto simp: user_token_key_def demo_query_def)
  moreover have "table_value (cstr (user_token_key demo_query)) = ''tok''" "q_token demo_query = ''tok''" by code_simp+
  ultimately show ?thesis by (auto simp: check_user_token_def same_books_def)
qed

lemma demo_gateway:
  assumes "at_table s"
  shows "\<exists>s'. gateway_token (demo_ext d) v s = Some (Inr ''tok'', s') \<and> at_table s' \<and> same_books s s'"
proof -
  obtain a where "on_redis (UserGet table_redis gateway_token_key v) s =
      Some ((True, table_value (cstr gateway_token_key)), s\<lparr>m_pDataRedis := a\<rparr>)" "at_table (s\<lparr>m_pDataRedis := a\<rparr>)"
    using at_table_get [OF assms, of gateway_token_key v] by (auto simp: gateway_token_key_def)
  moreover have "table_value (cstr gateway_token_key) = ''tok''" by code_simp
  ultimately show ?thesis by (auto simp: gateway_token_def same_books_def)
qed

lemma demo_find_order:
  assumes "at_table s"
  shows "\<exists>s'. find_order (demo_ext d) demo_query tok s = Some (Inr ''7'', s') \<and> at_table s' \<and> same_books s s'"
  using at_table_order [OF assms, of "strUserOrderId demo_query" "[]"]
  by (auto simp: find_order_def same_books_def strUserOrderId_def demo_query_def)

lemma demo_time: "at_table s \<Longrightarrow> task_time (demo_ext d) s = Some ''2024022812''"
proof -
  have "BdxTaskMainGetTime demo_lt 0 0 = Some ''2024022812''" by code_simp
  then show ?thesis by (simp add: task_time_def)
qed

lemma demo_count:
  assumes "at_table s"
  shows "\<exists>s'. count_request (demo_ext d) demo_query s = Some (Inr (), s') \<and> at_table s'
    \<and> ssOperatorName (t_res s') = ssOperatorName (t_res s) \<and> ssUserName (t_res s') = ''u_1''
    \<and> ssUserCountKeyRes (t_res s') = ''Res_2024022812_u''"
proof -
  let ?s = "s\<lparr>t_res := (t_res s)\<lparr>ssUserName := ''u_1'', ssUserCountKeyUserLimitReq := ''Limit_u'',
      ssOperatorNameKeyLimit := ''Limit_2024022812_u'', ssUserCountKeyReq := ''Req_2024022812_u'',
      ssUserCountKeyRes := ''Res_2024022812_u'', ssUserCountKeyEmptyRes := ''EmptyRes_2024022812_u''\<rparr>\<rparr>"
  have 0: "at_table ?s" using assms by simp
  obtain a where a: "on_redis (UserIncr table_redis ''Req_2024022812_u'' 0) ?s = Some (True, ?s\<lparr>m_pDataRedis := a\<rparr>)"
      "at_table (?s\<lparr>m_pDataRedis := a\<rparr>)"
    using at_table_incr [OF 0, of "''Req_2024022812_u''"] by auto
  let ?s2 = "bump inc_Req ''u_1'' (?s\<lparr>m_pDataRedis := a\<rparr>)"
  have "at_table ?s2" using a(2) by simp
  from at_table_incr [OF this, of "''Limit_u''"]
  obtain b where b: "on_redis (UserIncr table_redis ''Limit_u'' 0) ?s2 = Some (True, ?s2\<lparr>m_pDataRedis := b\<rparr>)"
      "at_table (?s2\<lparr>m_pDataRedis := b\<rparr>)" by auto
  show ?thesis
    using a(1) b by (simp add: count_request_def demo_time [OF assms] demo_query_def Let_def)
qed


lemma demo_quota:
  assumes "at_table s"
  shows "\<exists>s'. check_quota (demo_ext d) demo_query tok ''7'' s = Some (Inr (), s') \<and> at_table s' \<and> same_books s s'"
proof -
  have v: "table_value (cstr (strCountOrderId demo_query ''7'')) = ''3''" "table_value (cstr (strLimitOrderId demo_query ''7'')) = ''10''"
    "atoi (cstr ''3'') = 3" "atoi (cstr ''10'') = 10" by code_simp+
  have l: "length (strCountOrderId demo_query ''7'') < 2 ^ 32" "length (strLimitOrderId demo_query ''7'') < 2 ^ 32"
    "length (strExpireOrderId demo_query ''7'') < 2 ^ 32" by (simp_all add: order_key_def startUserRepoItemSubid_def demo_query_def)
  obtain a where a: "on_redis (UserGet table_redis (strCountOrderId demo_query ''7'') []) s = Some ((True, ''3''), s\<lparr>m_pDataRedis := a\<rparr>)"
      "at_table (s\<lparr>m_pDataRedis := a\<rparr>)" using at_table_get [OF assms l(1), of "[]"] v by auto
  obtain b where b: "on_redis (UserGet table_redis (strLimitOrderId demo_query ''7'') []) (s\<lparr>m_pDataRedis := a\<rparr>) =
      Some ((True, ''10''), s\<lparr>m_pDataRedis := b\<rparr>)" "at_table (s\<lparr>m_pDataRedis := b\<rparr>)"
    using at_table_get [OF a(2) l(2), of "[]"] v by auto
  obtain c w where c: "on_redis (UserGet table_redis (strExpireOrderId demo_query ''7'') ''3'') (s\<lparr>m_pDataRedis := b\<rparr>) =
      Some ((True, w), s\<lparr>m_pDataRedis := c\<rparr>)" "at_table (s\<lparr>m_pDataRedis := c\<rparr>)"
    using at_table_get [OF b(2) l(3), of "''3''"] by auto
  show ?thesis using a b c v by (simp add: check_quota_def same_books_def)
qed

lemma hex_digits_length: "length (hex_digits bs) = 2 * length bs"
  by (induction bs) (simp_all add: hex_digits_def)

lemma sign_length: "length (fst (BdxGetParamSign k [] m)) < 2 ^ 32"
proof -
  have "length (snd (Md5Final x)) \<le> 16" for x by (simp add: Md5Final_def Let_def split: prod.split)
  from this [of "Md5Update (Md5Init m) (bytes_of k)"] show ?thesis
    by (simp add: BdxGetParamSign_def hex_digits_length split_beta)
qed

lemma table_value_short: "length (table_value k) \<le> 3"
  by (simp add: table_value_def)

lemma demo_answer:
  assumes "at_table s" "ssUserCountKeyRes (t_res s) = ''Res_2024022812_u''"
  shows "\<exists>s'. find_answer (demo_ext d) demo_query s = Some (Inr True, s') \<and> at_table s'
    \<and> ssUserName (t_res s') = ssUserName (t_res s) \<and> ssOperatorName (t_res s') = ssOperatorName (t_res s)
    \<and> length (mResValue (t_res s')) \<le> 3"
proof -
  obtain h m where h: "task_sign (snd (query_keys demo_query)) s = (h, s\<lparr>t_md5 := m\<rparr>)" "length h < 2 ^ 32"
    using sign_length [of "snd (query_keys demo_query)" "t_md5 s"]
    by (cases "BdxGetParamSign (snd (query_keys demo_query)) [] (t_md5 s)") (auto simp: task_sign_def)
  have "at_table (s\<lparr>t_md5 := m\<rparr>)" using assms by simp
  from at_table_get [OF this h(2), of "[]"] obtain a where
    a: "on_redis (UserGet table_redis h []) (s\<lparr>t_md5 := m\<rparr>) = Some ((True, table_value (cstr h)), s\<lparr>t_md5 := m, m_pDataRedis := a\<rparr>)"
      "at_table (s\<lparr>t_md5 := m, m_pDataRedis := a\<rparr>)" by auto
  let ?s = "s\<lparr>t_md5 := m, m_pDataRedis := a, t_res := (t_res s)\<lparr>mResValue := table_value (cstr h)\<rparr>\<rparr>"
  have "at_table ?s" using a(2) by simp
  from at_table_incr [OF this, of "''Res_2024022812_u''"] obtain b where
    "on_redis (UserIncr table_redis ''Res_2024022812_u'' 0) ?s = Some (True, ?s\<lparr>m_pDataRedis := b\<rparr>)"
    "at_table (?s\<lparr>m_pDataRedis := b\<rparr>)" by auto
  then show ?thesis
    using a(1) h(1) assms(2) by (simp add: find_answer_def and_then_def cache_lookup_def Let_def table_value_short)
qed

lemma demo_log:
  assumes "at_table s"
  shows "\<exists>s'. log_query (demo_ext d) q c s = Some (Inr (), s') \<and> at_table s' \<and> t_res s' = t_res s"
proof -
  have "BdxTaskMainGetFullTime demo_lt 0 0 = Some ''20240228120509''" "BdxTaskMainGetDate demo_lt 0 0 = Some ''20240228''"
    by code_simp+
  then show ?thesis using assms by (simp add: log_query_def hive_record_def full_time_def task_date_def str_substr_def)
qed

lemma demo_run:
  "\<exists>s'. BdxGetHttpPacket (demo_ext (demo_packet demo_params)) demo_sock demo_state = Some (Inr (), s')
     \<and> ssUserName (t_res s') = ''u_1'' \<and> ssOperatorName (t_res s') = [] \<and> length (mResValue (t_res s')) \<le> 3"
proof -
  let ?X = "demo_ext (demo_packet demo_params)"
  have "get_query (query_text demo_params) (rev demo_params) = Inr demo_query" by code_simp
  then have 0: "read_request ?X demo_sock demo_state = Some (Inr demo_query, demo_state\<lparr>t_world := (), m_httpType := 1\<rparr>)"
    using read_plain_request [OF demo_request(1,2) demo_recv [OF demo_request(3)]] by simp
  obtain s1 where 1: "check_user_token ?X demo_query (demo_state\<lparr>t_world := (), m_httpType := 1\<rparr>) = Some (Inr ''tok'', s1)" "at_table s1"
      "ssOperatorName (t_res s1) = []"
    using demo_token [OF demo_state_at_table, of "demo_packet demo_params"] by (auto simp: same_books_def)
  obtain s2 where 2: "gateway_token ?X ''tok'' s1 = Some (Inr ''tok'', s2)" "at_table s2" "ssOperatorName (t_res s2) = []"
    using demo_gateway [OF 1(2), of "demo_packet demo_params" "''tok''"] 1(3) by (auto simp: same_books_def)
  obtain s3 where 3: "find_order ?X demo_query ''tok'' s2 = Some (Inr ''7'', s3)" "at_table s3" "ssOperatorName (t_res s3) = []"
    using demo_find_order [OF 2(2), of "demo_packet demo_params" "''tok''"] 2(3) by (auto simp: same_books_def)
  obtain s4 where 4: "count_request ?X demo_query s3 = Some (Inr (), s4)" "at_table s4" "ssOperatorName (t_res s4) = []"
      "ssUserName (t_res s4) = ''u_1''" "ssUserCountKeyRes (t_res s4) = ''Res_2024022812_u''"
    using demo_count [OF 3(2), of "demo_packet demo_params"] 3(3) by auto
  obtain s5 where 5: "check_quota ?X demo_query ''tok'' ''7'' s4 = Some (Inr (), s5)" "at_table s5" "t_res s5 = t_res s4"
    using demo_quota [OF 4(2), of "demo_packet demo_params" "''tok''"] by (auto simp: same_books_def)
  obtain s6 where 6: "find_answer ?X demo_query s5 = Some (Inr True, s6)" "at_table s6"
      "ssUserName (t_res s6) = ''u_1''" "ssOperatorName (t_res s6) = []" "length (mResValue (t_res s6)) \<le> 3"
    using demo_answer [OF 5(2), of "demo_packet demo_params"] 4 5(3) by auto
  obtain s7 where 7: "log_query ?X demo_query True s6 = Some (Inr (), s7)" "at_table s7" "t_res s7 = t_res s6"
    using demo_log [OF 6(2), of "demo_packet demo_params" demo_query True] by auto
  obtain a where 8: "on_redis (UserIncr table_redis (strCountOrderId demo_query ''7'') 0) s7 = Some (True, s7\<lparr>m_pDataRedis := a\<rparr>)"
    using at_table_incr [OF 7(2), of "strCountOrderId demo_query ''7''"]
    by (auto simp: order_key_def startUserRepoItemSubid_def demo_query_def)
  have "BdxGetHttpPacket ?X demo_sock demo_state = Some (Inr (), s7\<lparr>m_pDataRedis := a\<rparr>)"
    using 0 1(1) 2(1) 3(1) 4(1) 5(1) 6(1) 7(1) 8
    by (simp add: BdxGetHttpPacket_def and_then_def store_result_def charge_order_def)
  then show ?thesis using 6(3-5) 7(3) by simp
qed


theorem answered_request_is_counted_witness:
  "\<exists>s'. BdxGetHttpPacket (demo_ext (demo_packet demo_params)) demo_sock demo_state = Some (Inr (), s')
     \<and> count_of ''u_1'' s' = answered (count_of ''u_1'' demo_state) \<and> length (t_hive s') = 1"
proof -
  obtain s' where r: "BdxGetHttpPacket (demo_ext (demo_packet demo_params)) demo_sock demo_state = Some (Inr (), s')"
      "ssUserName (t_res s') = ''u_1''" "ssOperatorName (t_res s') = []" using demo_run by blast
  have "ssUserName (t_res s') \<noteq> ssOperatorName (t_res s')" using r by simp
  from answered_request_is_counted [OF r(1) this]
  have "count_of ''u_1'' s' = answered (count_of ''u_1'' demo_state) \<and> length (t_hive s') = 1"
    unfolding r(2) by auto
  then show ?thesis using r(1) by blast
qed

lemma demo_missing:
  "BdxGetHttpPacket (demo_ext (demo_packet [(''authuser'', ''u'')])) demo_sock demo_state =
     Some (Inl (OTHERERR, ''1100''), demo_state\<lparr>t_world := (), m_httpType := 1\<rparr>)"
proof -
  let ?ps = "[(''authuser'', ''u'')]"
  have 1: "url_decode (cstr (demo_packet ?ps)) = ''GET /query?'' @ query_text ?ps @ '' HTTP/1.1'' @ CRLF @ []"
    "9 < length (demo_packet ?ps)" "length (demo_packet ?ps) < 8192" "plain_query ?ps" by code_simp+
  then have 2: "packet_for ?ps (demo_packet ?ps)" unfolding packet_for_def by blast
  have "get_query (query_text ?ps) (rev ?ps) = Inl (OTHERERR, ''1100'')" by code_simp
  then show ?thesis
    using read_plain_request [OF 1(4) 2 demo_recv [OF 1(3)]] by (simp add: BdxGetHttpPacket_def and_then_def)
qed


lemma demo_refused:
  "\<exists>r s'. BdxRunTask (demo_ext (demo_packet [(''authuser'', ''u'')])) (Some demo_sock) demo_state = Some (r, s')"
proof -
  let ?X = "demo_ext (demo_packet [(''authuser'', ''u'')])" and ?s = "demo_state\<lparr>t_world := (), m_httpType := 1\<rparr>"
  have t: "BdxTaskMainGetFullTime demo_lt 0 0 = Some ''20240228120509''" "BdxTaskMainGetDate demo_lt 0 0 = Some ''20240228''"
    "BdxTaskMainGetTime demo_lt 0 0 = Some ''2024022812''" by code_simp+
  then obtain l where "empty_record ?X [] [] [] [] ''1100'' ?s = Some l" "strTelNo l = ''Empty''"
    by (auto simp: empty_record_def full_time_def task_date_def str_substr_def)
  moreover have "count_empty ?X ?s = Some ?s" by (simp add: count_empty_def demo_state_def)
  moreover have "length (http_head ?X (length (error_body ''1100'')) ?s @ error_body ''1100'') \<le> 8192" by code_simp
  ultimately show ?thesis
    by (auto simp: BdxRunTask_def demo_missing task_time_def t refuse_def BdxSendEmpyRespones_def Let_def split: prod.split)
qed


end
