(* ===== verification/TaskAnswers.thy ===== *)
theory TaskAnswers
  imports TaskProps
begin

text \<open>
  Data properties of a request: the keys of the cache, the expiry of a stored order, and the framing
  of the HTTP answer.
\<close>

section \<open>Cache keys\<close>

text \<open>
  The cache does not distinguish what was asked. A query of type 3 (what is nearby) is looked up
  under the same key as one of type 1 (what is here) at the same place although the two ask the
  remote API for different pages, and all queries of an unknown type share one key whatever they ask.
\<close>

theorem cache_key_collision:
  assumes "atoi t1 = 1" "atoi t3 = 3" "atoi t0 \<notin> {1, 2, 3}" "atoi t0' \<notin> {1, 2, 3}"
  shows "cache_lookup X (q\<lparr>q_type := t3\<rparr>) s = cache_lookup X (q\<lparr>q_type := t1\<rparr>) s
    \<and> fst (query_keys (q\<lparr>q_type := t3\<rparr>)) \<noteq> fst (query_keys (q\<lparr>q_type := t1\<rparr>))
    \<and> query_keys (q\<lparr>q_type := t0\<rparr>) = query_keys (q'\<lparr>q_type := t0'\<rparr>)"
proof -
  have k: "snd (query_keys (q\<lparr>q_type := t3\<rparr>)) = snd (query_keys (q\<lparr>q_type := t1\<rparr>))"
    "fst (query_keys (q\<lparr>q_type := t3\<rparr>)) \<noteq> fst (query_keys (q\<lparr>q_type := t1\<rparr>))"
    "query_keys (q\<lparr>q_type := t0\<rparr>) = query_keys (q'\<lparr>q_type := t0'\<rparr>)"
    using assms by (auto simp: query_keys_def Let_def)
  moreover have "cache_lookup X (q\<lparr>q_type := t3\<rparr>) s = cache_lookup X (q\<lparr>q_type := t1\<rparr>) s"
  proof -
    have u: "q_user (q\<lparr>q_type := t3\<rparr>) = q_user q" "q_user (q\<lparr>q_type := t1\<rparr>) = q_user q" by simp_all
    show ?thesis unfolding cache_lookup_def k(1) u by (rule refl)
  qed
  ultimately show ?thesis by blast
qed

theorem cache_key_collision_witness:
  "snd (query_keys (demo_query\<lparr>q_type := ''3''\<rparr>)) = snd (query_keys (demo_query\<lparr>q_type := ''1''\<rparr>))
   \<and> query_keys (demo_query\<lparr>q_type := ''4''\<rparr>) = query_keys (demo_query\<lparr>q_type := ''x''\<rparr>)"
proof -
  have "atoi ''1'' = 1" "atoi ''3'' = 3" "atoi ''4'' = 4" "atoi ''x'' = 0" by code_simp+
  then have "query_keys (demo_query\<lparr>q_type := ''4''\<rparr>) = query_keys (demo_query\<lparr>q_type := ''x''\<rparr>)"
    using cache_key_collision [of "''1''" "''3''" "''4''" "''x''" "demo_ext []" demo_query demo_state demo_query] by simp
  moreover have "snd (query_keys (demo_query\<lparr>q_type := ''3''\<rparr>)) = snd (query_keys (demo_query\<lparr>q_type := ''1''\<rparr>))" by code_simp
  ultimately show ?thesis by blast
qed

section \<open>Expiry of orders\<close>

text \<open>
  C40. The expiry of an order is its days in seconds up to 24855 days. From 24856 to 49710 days the
  product wraps to a negative number, and a key that is stored with a negative expiry never expires.
\<close>

theorem expire_seconds_wrap:
  assumes "0 \<le> days" "days \<le> 49710"
  shows "expire_seconds (show_int days) = (if days \<le> 24855 then days * 86400 else days * 86400 - 2 ^ 32)
    \<and> (24856 \<le> days \<longrightarrow>
         SetValue hi k v (expire_seconds (show_int days)) d w = SetValue hi k v (- 1) d w)"
proof -
  have "NUL \<notin> set (show_nat (nat days))" using show_nat_digits [of "nat days"] by (auto simp: is_digit_def)
  then have "cstr (show_int days) = show_int days" using assms by (simp add: show_int_def)
  then have a: "atol (cstr (show_int days)) = days" using assms by (simp add: atol_show_int)
  have "word_of_int (2 ^ 32) = (0 :: u32)" by simp
  then have w: "word_of_int (days * 86400) = (word_of_int (days * 86400 - 2 ^ 32) :: u32)" by (simp add: of_int_diff)
  have e: "expire_seconds (show_int days) = (if days \<le> 24855 then days * 86400 else days * 86400 - 2 ^ 32)"
  proof (cases "days \<le> 24855")
    case False
    then have "sint (word_of_int (days * 86400 - 2 ^ 32) :: u32) = days * 86400 - 2 ^ 32"
      using assms by (intro sint_word_of_int_32) auto
    then show ?thesis using False unfolding expire_seconds_def a w by simp
  next
    case True
    then have "sint (word_of_int (days * 86400) :: u32) = days * 86400"
      using assms by (intro sint_word_of_int_32) auto
    then show ?thesis using True unfolding expire_seconds_def a by simp
  qed
  then show ?thesis using assms by (simp add: SetValue_def)
qed

theorem expire_seconds_wrap_witness: "expire_seconds (show_int 30000) = 30000 * 86400 - 2 ^ 32"
  using expire_seconds_wrap [of 30000 kv_redis "[]" "[]" new_CDataRedis "[]"] by simp


section \<open>Framing of answers\<close>

lemma find_skip: "c \<notin> set l \<Longrightarrow> find_from i (c # p) (l @ t) = find_from (i + length l) (c # p) t"
  by (induction l arbitrary: i) auto

definition http_lines :: "string list \<Rightarrow> string" where
  "http_lines ls = concat (map (\<lambda>l. l @ CRLF) ls)"

lemma find_blank_line:
  assumes "ls \<noteq> []" "\<forall>l \<in> set ls. l \<noteq> [] \<and> CR \<notin> set l"
  shows "find_from i (CRLF @ CRLF) (http_lines ls @ CRLF @ v) = Some (i + length (http_lines ls) - 2)"
  using assms
proof (induction ls arbitrary: i rule: induct_list012)
  case (2 l)
  then show ?case using find_skip [of CR l i "[LF, CR, LF]" "CRLF @ CRLF @ v"] by (simp add: http_lines_def)
next
  case (3 l l' ls)
  then obtain c cs where c: "l' = c # cs" "c \<noteq> CR" by (cases l') auto
  have "find_from i (CRLF @ CRLF) (http_lines (l # l' # ls) @ CRLF @ v)
      = find_from (i + length l) (CRLF @ CRLF) (CRLF @ http_lines (l' # ls) @ CRLF @ v)"
    using "3.prems" find_skip [of CR l i "[LF, CR, LF]" "CRLF @ http_lines (l' # ls) @ CRLF @ v"] by (simp add: http_lines_def)
  also have "\<dots> = find_from (i + length l + 2) (CRLF @ CRLF) (http_lines (l' # ls) @ CRLF @ v)"
    using c by (simp add: http_lines_def)
  also have "\<dots> = Some (i + length l + 2 + length (http_lines (l' # ls)) - 2)"
    using "3.IH"(2) [of "i + length l + 2"] "3.prems" by simp
  finally show ?case by (simp add: http_lines_def)
qed simp

lemma show_int_chars: "c \<in> {CR, NUL} \<Longrightarrow> c \<notin> set (show_int i)"
  using show_nat_digits [of "nat (- i)"] show_nat_digits [of "nat i"] by (auto simp: show_int_def is_digit_def)

lemma show_nat_chars: "c \<in> {CR, NUL} \<Longrightarrow> c \<notin> set (show_nat n)"
  using show_nat_digits [of n] by (auto simp: is_digit_def)

lemma pad_chars: "c \<in> {CR, NUL} \<Longrightarrow> c \<notin> set (pad_left CHR ''0'' n (show_int i))"
  using show_int_chars [of c i] by (auto simp: pad_left_def)

definition http_date :: "tm \<Rightarrow> string" where
  "http_date t = g_week ! nat (tm_wday t) @ '', '' @ d02 (tm_mday t) @ '' '' @ g_month ! nat (tm_mon t) @ '' ''
      @ d04 (tm_year t + 1900) @ '' '' @ d02 (tm_hour t) @ '':'' @ d02 (tm_min t) @ '':'' @ d02 (tm_sec t) @ '' GMT''"

lemma http_date_chars:
  assumes "tm_ok t" "c \<in> {CR, NUL}" shows "c \<notin> set (http_date t)"
proof -
  have "nat (tm_wday t) < length g_week" "nat (tm_mon t) < length g_month"
    using assms(1) by (auto simp: tm_ok_def g_week_def g_month_def)
  then have "g_week ! nat (tm_wday t) \<in> set g_week" "g_month ! nat (tm_mon t) \<in> set g_month" by simp_all
  moreover have "\<forall>x \<in> set g_week \<union> set g_month. CR \<notin> set x \<and> NUL \<notin> set x" by (simp add: g_week_def g_month_def)
  ultimately show ?thesis using assms(2) pad_chars [OF assms(2)] by (auto simp: http_date_def)
qed

definition head_lines :: "tm \<Rightarrow> nat \<Rightarrow> string list" where
  "head_lines t n = [''HTTP/1.1 200 OK'', ''Server: Bdx DMP/0.1.0'', ''Cache-Control: must-revalidate'',
     ''Expires: Thu, 01 Jan 1970 00:00:00 GMT'', ''Pragma: no-cache'', ''Connection: Keep-Alive'',
     ''Content-Type: application/json;charset=UTF-8'', ''Date: '' @ http_date t, ''Content-Length: '' @ show_nat n]"

lemma http_head_lines: "http_head X n s = http_lines (head_lines (x_localtime X (x_time X (t_world s))) n) @ CRLF"
  by (simp add: http_head_def http_lines_def head_lines_def http200ok_def BdxGetHttpDate_def http_date_def Let_def)

lemma head_lines_chars:
  assumes "tm_ok t" shows "\<forall>l \<in> set (head_lines t n). l \<noteq> [] \<and> CR \<notin> set l \<and> NUL \<notin> set l"
  using http_date_chars [OF assms] show_nat_chars [of _ n] by (auto simp: head_lines_def)

lemma http_lines_NUL: "\<forall>l \<in> set ls. NUL \<notin> set l \<Longrightarrow> NUL \<notin> set (http_lines ls)"
  by (auto simp: http_lines_def)

text \<open>
  C17. The client can cut the answer out of what it gets: on a good calendar date, the bytes that
  \<open>BdxSendRespones\<close> writes for a NUL-free result that fits have exactly one head, which ends at the
  first blank line, is followed by the result and nothing else, and announces its length.
\<close>

theorem answer_is_framed:
  assumes "tm_ok (x_localtime X (x_time X (t_world s)))" "m_httpType s \<noteq> 0" "NUL \<notin> set (mResValue (t_res s))"
    and "length (http_head X (length (mResValue (t_res s))) s) + length (mResValue (t_res s)) < 65536"
  shows "\<exists>text k. response_text X s = Some text \<and> str_find text (CRLF @ CRLF) 0 = Some k
    \<and> drop (k + 4) text = mResValue (t_res s)
    \<and> suffix (CRLF @ ''Content-Length: '' @ show_nat (length (mResValue (t_res s)))) (take k text)"
proof -
  let ?v = "mResValue (t_res s)" and ?t = "x_localtime X (x_time X (t_world s))"
  let ?ls = "head_lines ?t (length ?v)" and ?text = "http_head X (length ?v) s @ ?v"
  have ls: "\<forall>l \<in> set ?ls. l \<noteq> [] \<and> CR \<notin> set l \<and> NUL \<notin> set l" "?ls \<noteq> []"
    using head_lines_chars [OF assms(1)] by (auto simp: head_lines_def)
  have tx: "?text = http_lines ?ls @ CRLF @ ?v" by (simp add: http_head_lines)
  have "NUL \<notin> set ?text" using ls(1) http_lines_NUL [of ?ls] assms(3) unfolding tx by auto
  then have r: "response_text X s = Some ?text" using assms(2,4) by (simp add: response_text_def Let_def)
  have f: "str_find ?text (CRLF @ CRLF) 0 = Some (length (http_lines ?ls) - 2)"
    unfolding tx using find_blank_line [of ?ls 0 ?v] ls by (simp add: str_find_def)
  let ?c = "CRLF @ ''Content-Length: '' @ show_nat (length ?v)"
  obtain g where g: "http_lines ?ls = g @ CRLF" "suffix ?c g"
  proof
    show "http_lines ?ls = (http_lines (butlast ?ls) @ drop 2 ?c) @ CRLF" by (simp add: http_lines_def head_lines_def)
    show "suffix ?c (http_lines (butlast ?ls) @ drop 2 ?c)" by (simp add: http_lines_def head_lines_def suffix_def)
  qed
  have "drop (length (http_lines ?ls) - 2 + 4) ?text = ?v" "suffix ?c (take (length (http_lines ?ls) - 2) ?text)"
    unfolding tx g(1) using g(2) by simp_all
  then show ?thesis using r f by blast
qed


theorem answer_is_framed_witness:
  "\<exists>text k. response_text (demo_ext []) (demo_state\<lparr>t_res := (t_res demo_state)\<lparr>mResValue := ''{}''\<rparr>, m_httpType := 1\<rparr>) = Some text
     \<and> str_find text (CRLF @ CRLF) 0 = Some k \<and> drop (k + 4) text = ''{}''"
proof -
  let ?s = "demo_state\<lparr>t_res := (t_res demo_state)\<lparr>mResValue := ''{}''\<rparr>, m_httpType := 1\<rparr>"
  have 1: "tm_ok (demo_lt 0)" and h: "length (http_head (demo_ext []) (Suc (Suc 0)) ?s) < 400" by code_simp+
  from h have "length (http_head (demo_ext []) (Suc (Suc 0)) ?s) < 65534" by linarith
  then show ?thesis using 1 answer_is_framed [of "demo_ext []" ?s] by auto
qed

end
