(* ===== verification/Locks.thy ===== *)
theory Locks
  imports Prelude
begin

text \<open>
  Locks: \<^verbatim>\<open>src/src/CommonTools/Lock/Lock.cpp\<close> and \<^verbatim>\<open>Lock.h\<close>, with the part of POSIX
  threads they are written over. A mutex is free or held by a thread; a condition is the list of
  the threads that sleep on it. An operation that has to block is \<open>None\<close>: the calling thread
  stays where it is. So is unlocking or waiting without holding the lock, which is undefined.
  The threads are a type parameter.
\<close>

section \<open>POSIX mutexes\<close>

datatype 't mutex = Free | HeldBy 't

abbreviation EBUSY :: int where "EBUSY \<equiv> 16"

definition pthread_mutex_lock :: "'t \<Rightarrow> 't mutex \<Rightarrow> 't mutex option" where
  "pthread_mutex_lock t m = (case m of Free \<Rightarrow> Some (HeldBy t) | HeldBy _ \<Rightarrow> None)"

definition pthread_mutex_trylock :: "'t \<Rightarrow> 't mutex \<Rightarrow> int \<times> 't mutex" where
  "pthread_mutex_trylock t m = (case m of Free \<Rightarrow> (0, HeldBy t) | HeldBy _ \<Rightarrow> (EBUSY, m))"

definition pthread_mutex_unlock :: "'t \<Rightarrow> 't mutex \<Rightarrow> 't mutex option" where
  "pthread_mutex_unlock t m = (if m = HeldBy t then Some Free else None)"

section \<open>CMutexLock\<close>

text \<open>
  \<^verbatim>\<open>m_pLock\<close> and \<^verbatim>\<open>m_pstAttr\<close> are pointers (\<open>None\<close> is null); of the attribute only the
  sharing between processes matters.
\<close>

record 't CMutexLock =
  m_pLock :: "'t mutex option"
  m_pstAttr :: "bool option"
  m_stCond :: "'t list"

datatype lock_error = runtime_error string

definition MutexInitAttr :: "int \<Rightarrow> 't CMutexLock \<Rightarrow> bool \<times> 't CMutexLock" where
  "MutexInitAttr r l =
     (case m_pstAttr l of
        None \<Rightarrow> (False, l)
      | Some _ \<Rightarrow> if r = 0 then (True, l\<lparr>m_pstAttr := Some False\<rparr>) else (False, l))"

definition MutexDestroyAttr :: "int \<Rightarrow> 't CMutexLock \<Rightarrow> bool" where
  "MutexDestroyAttr r l = (m_pstAttr l \<noteq> None \<and> r = 0)"

definition MutexSetProcessShare :: "int \<Rightarrow> 't CMutexLock \<Rightarrow> bool \<times> 't CMutexLock" where
  "MutexSetProcessShare r l =
     (case m_pstAttr l of
        None \<Rightarrow> (False, l)
      | Some _ \<Rightarrow> if r = 0 then (True, l\<lparr>m_pstAttr := Some True\<rparr>) else (False, l))"

definition MUtexDestroyLock :: "int \<Rightarrow> 't CMutexLock \<Rightarrow> bool" where
  "MUtexDestroyLock r l = (m_pLock l \<noteq> None \<and> r = 0)"

definition MutexInitLock :: "int \<Rightarrow> 't CMutexLock \<Rightarrow> bool \<times> 't CMutexLock" where
  "MutexInitLock r l = (if r = 0 then (True, l\<lparr>m_pLock := Some Free\<rparr>) else (False, l))"

text \<open>
  The constructors of \<^verbatim>\<open>CLock\<close> and \<^verbatim>\<open>CMutexLock\<close>; the arguments are the results of the
  three initialisations. That of the mutex is not looked at: the mutex is taken to be usable.
\<close>

definition new_CMutexLock :: "int \<Rightarrow> int \<Rightarrow> int \<Rightarrow> lock_error + 't CMutexLock" where
  "new_CMutexLock rCond rAttr rLock =
     (if rCond \<noteq> 0 then Inl (runtime_error ''pthread_cond_init error.'')
      else case MutexInitAttr rAttr \<lparr>m_pLock = None, m_pstAttr = Some False, m_stCond = []\<rparr> of
             (False, _) \<Rightarrow> Inl (runtime_error ''MutexInitAttr error.'')
           | (True, l) \<Rightarrow> Inr (l\<lparr>m_pLock := Some Free\<rparr>))"

definition delete_CMutexLock :: "'t CMutexLock \<Rightarrow> 't CMutexLock" where
  "delete_CMutexLock l = l\<lparr>m_pLock := None, m_pstAttr := None\<rparr>"

text \<open>On a null pointer the operations print a message and return.\<close>

definition MutexLock :: "'t \<Rightarrow> 't CMutexLock \<Rightarrow> 't CMutexLock option" where
  "MutexLock t l =
     (case m_pLock l of
        None \<Rightarrow> Some l
      | Some m \<Rightarrow> map_option (\<lambda>m. l\<lparr>m_pLock := Some m\<rparr>) (pthread_mutex_lock t m))"

definition MutexUnlock :: "'t \<Rightarrow> 't CMutexLock \<Rightarrow> 't CMutexLock option" where
  "MutexUnlock t l =
     (case m_pLock l of
        None \<Rightarrow> Some l
      | Some m \<Rightarrow> map_option (\<lambda>m. l\<lparr>m_pLock := Some m\<rparr>) (pthread_mutex_unlock t m))"

text \<open>
  \<^verbatim>\<open>pthread_cond_wait\<close> in two parts: going to sleep releases the mutex in the same instant;
  returning, once the thread is no longer asleep, takes it again.
\<close>

definition MutexWait :: "'t \<Rightarrow> 't CMutexLock \<Rightarrow> 't CMutexLock option" where
  "MutexWait t l =
     (case m_pLock l of
        None \<Rightarrow> Some l
      | Some m \<Rightarrow>
          map_option (\<lambda>m. l\<lparr>m_pLock := Some m, m_stCond := m_stCond l @ [t]\<rparr>) (pthread_mutex_unlock t m))"

definition MutexWaitReturn :: "'t \<Rightarrow> 't CMutexLock \<Rightarrow> 't CMutexLock option" where
  "MutexWaitReturn t l =
     (case m_pLock l of
        None \<Rightarrow> Some l
      | Some m \<Rightarrow>
          if t \<in> set (m_stCond l) then None
          else map_option (\<lambda>m. l\<lparr>m_pLock := Some m\<rparr>) (pthread_mutex_lock t m))"

text \<open>The signal wakes one sleeping thread, which one is up to the system (\<open>k\<close>).\<close>

definition MutexNotify :: "nat \<Rightarrow> 't CMutexLock \<Rightarrow> 't CMutexLock" where
  "MutexNotify k l =
     (if m_stCond l = [] then l
      else l\<lparr>m_stCond := (let j = k mod length (m_stCond l) in take j (m_stCond l) @ drop (Suc j) (m_stCond l))\<rparr>)"

text \<open>A thread may also wake up without a signal.\<close>

definition spurious_wakeup :: "'t \<Rightarrow> 't CMutexLock \<Rightarrow> 't CMutexLock" where
  "spurious_wakeup t l = l\<lparr>m_stCond := remove1 t (m_stCond l)\<rparr>"

text \<open>1: busy, 0: taken, anything else an error.\<close>

definition MutexTryLock :: "'t \<Rightarrow> 't CMutexLock \<Rightarrow> int \<times> 't CMutexLock" where
  "MutexTryLock t l =
     (case m_pLock l of
        None \<Rightarrow> (- 1, l)
      | Some m \<Rightarrow>
          (case pthread_mutex_trylock t m of
             (iRes, m) \<Rightarrow> if iRes = EBUSY then (1, l\<lparr>m_pLock := Some m\<rparr>) else (iRes, l\<lparr>m_pLock := Some m\<rparr>)))"

section \<open>What the operations do\<close>

lemma MutexLock_simps [simp]:
  "m_pLock l = Some Free \<Longrightarrow> MutexLock t l = Some (l\<lparr>m_pLock := Some (HeldBy t)\<rparr>)"
  "m_pLock l = Some (HeldBy u) \<Longrightarrow> MutexLock t l = None"
  by (simp_all add: MutexLock_def pthread_mutex_lock_def)

lemma MutexUnlock_simps [simp]:
  "m_pLock l = Some (HeldBy t) \<Longrightarrow> MutexUnlock t l = Some (l\<lparr>m_pLock := Some Free\<rparr>)"
  "m_pLock l = Some m \<Longrightarrow> m \<noteq> HeldBy t \<Longrightarrow> MutexUnlock t l = None"
  by (simp_all add: MutexUnlock_def pthread_mutex_unlock_def)

lemma MutexWait_simps [simp]:
  "m_pLock l = Some (HeldBy t) \<Longrightarrow> MutexWait t l = Some (l\<lparr>m_pLock := Some Free, m_stCond := m_stCond l @ [t]\<rparr>)"
  by (simp add: MutexWait_def pthread_mutex_unlock_def)

lemma MutexWaitReturn_simps [simp]:
  "m_pLock l = Some Free \<Longrightarrow> t \<notin> set (m_stCond l) \<Longrightarrow> MutexWaitReturn t l = Some (l\<lparr>m_pLock := Some (HeldBy t)\<rparr>)"
  "m_pLock l = Some (HeldBy u) \<Longrightarrow> MutexWaitReturn t l = None"
  "m_pLock l = Some m \<Longrightarrow> t \<in> set (m_stCond l) \<Longrightarrow> MutexWaitReturn t l = None"
  by (simp_all add: MutexWaitReturn_def pthread_mutex_lock_def)

lemma MutexTryLock_simps [simp]:
  "m_pLock l = Some Free \<Longrightarrow> MutexTryLock t l = (0, l\<lparr>m_pLock := Some (HeldBy t)\<rparr>)"
  "m_pLock l = Some (HeldBy u) \<Longrightarrow> MutexTryLock t l = (1, l)"
  "m_pLock l = None \<Longrightarrow> MutexTryLock t l = (- 1, l)"
  by (simp_all add: MutexTryLock_def pthread_mutex_trylock_def)

lemma MutexNotify_simps [simp]:
  "m_stCond l = [] \<Longrightarrow> MutexNotify k l = l"
  "m_stCond l = [t] \<Longrightarrow> MutexNotify k l = l\<lparr>m_stCond := []\<rparr>"
  by (simp_all add: MutexNotify_def Let_def)

text \<open>A lock that was made can be taken.\<close>

lemma new_lock_is_free:
  "new_CMutexLock a b c = Inr l \<Longrightarrow> m_pLock l = Some Free \<and> m_stCond l = []"
  by (auto simp: new_CMutexLock_def MutexInitAttr_def split: if_splits)

section \<open>Critical sections\<close>

text \<open>
  The guard class \<^verbatim>\<open>MutexLock\<close> of \<^verbatim>\<open>Lock.h\<close>, and the pairs of \<^verbatim>\<open>MutexLock\<close> and
  \<^verbatim>\<open>MutexUnlock\<close> around a few lines, have one shape: take, run the body, release. It is stated
  over the two operations.
\<close>

definition guarded :: "('t \<Rightarrow> 'l \<Rightarrow> 'l option) \<Rightarrow> ('t \<Rightarrow> 'l \<Rightarrow> 'l option) \<Rightarrow> 't \<Rightarrow> ('s \<Rightarrow> 'a \<times> 's) \<Rightarrow> 'l \<times> 's \<Rightarrow> ('a \<times> 'l \<times> 's) option" where
  "guarded lock unlock t body ls =
     (case lock t (fst ls) of
        None \<Rightarrow> None
      | Some l \<Rightarrow> (case body (snd ls) of (a, s) \<Rightarrow> map_option (\<lambda>l. (a, l, s)) (unlock t l)))"

text \<open>The promises a lock makes: \<open>is_free\<close> and \<open>held_by\<close> read its state.\<close>

locale mutual_exclusion =
  fixes lock unlock :: "'t \<Rightarrow> 'l \<Rightarrow> 'l option" and is_free :: "'l \<Rightarrow> bool" and held_by :: "'t \<Rightarrow> 'l \<Rightarrow> bool"
  assumes lock_free: "is_free l \<Longrightarrow> \<exists>l'. lock t l = Some l' \<and> held_by t l'"
    and lock_held: "held_by u l \<Longrightarrow> lock t l = None"
    and unlock_held: "held_by t l \<Longrightarrow> \<exists>l'. unlock t l = Some l' \<and> is_free l'"
    and one_holder: "held_by t l \<Longrightarrow> held_by u l \<Longrightarrow> t = u"
begin

lemma held_is_not_free: "held_by u l \<Longrightarrow> \<not> is_free l"
  using lock_free [of l u] lock_held [of u l u] by auto

lemma guarded_free:
  assumes "is_free l"
  shows "\<exists>l'. guarded lock unlock t body (l, s) = Some (fst (body s), l', snd (body s)) \<and> is_free l'"
proof -
  obtain l1 where 1: "lock t l = Some l1" "held_by t l1" using lock_free [OF assms] by blast
  obtain l2 where "unlock t l1 = Some l2" "is_free l2" using unlock_held [OF 1(2)] by blast
  with 1 show ?thesis by (auto simp: guarded_def split: prod.split)
qed

lemma guarded_blocks: "held_by u l \<Longrightarrow> guarded lock unlock t body (l, s) = None"
  by (simp add: guarded_def lock_held)

end

interpretation pthread_mutex: mutual_exclusion pthread_mutex_lock pthread_mutex_unlock "\<lambda>m. m = Free" "\<lambda>t m. m = HeldBy t"
  by unfold_locales (auto simp: pthread_mutex_lock_def pthread_mutex_unlock_def)

interpretation cmutex: mutual_exclusion MutexLock MutexUnlock "\<lambda>l. m_pLock l = Some Free" "\<lambda>t l. m_pLock l = Some (HeldBy t)"
  by unfold_locales auto

text \<open>The pass counter of the worker class; the 32-bit counter is returned as an \<open>int\<close>.\<close>

definition AdWorkAdd :: "'t \<Rightarrow> 't CMutexLock \<times> u32 \<Rightarrow> (int \<times> 't CMutexLock \<times> u32) option" where
  "AdWorkAdd t = guarded MutexLock MutexUnlock t (\<lambda>m_uiPassCtr. (sint (m_uiPassCtr + 1), m_uiPassCtr + 1))"

definition AdWorkSet :: "'t \<Rightarrow> 't CMutexLock \<times> u32 \<Rightarrow> (unit \<times> 't CMutexLock \<times> u32) option" where
  "AdWorkSet t = guarded MutexLock MutexUnlock t (\<lambda>m_uiPassCtr. ((), 0))"

fun work_adds :: "'t list \<Rightarrow> 't CMutexLock \<times> u32 \<Rightarrow> (int list \<times> 't CMutexLock \<times> u32) option" where
  "work_adds [] s = Some ([], s)"
| "work_adds (t # ts) s =
     (case AdWorkAdd t s of
        None \<Rightarrow> None
      | Some (n, s) \<Rightarrow> map_option (\<lambda>(ns, s). (n # ns, s)) (work_adds ts s))"

text \<open>
  Whatever threads count, in whatever order, the counter after \<open>k\<close> passes is \<open>k\<close> higher
  modulo \<open>2 ^ 32\<close>, and the lock is free again.
\<close>

lemma work_adds_count:
  "m_pLock l = Some Free \<Longrightarrow> \<exists>ns l'. work_adds ts (l, c) = Some (ns, l', c + of_nat (length ts))
     \<and> m_pLock l' = Some Free \<and> length ns = length ts"
proof (induction ts arbitrary: l c)
  case (Cons t ts)
  obtain l1 where l1: "AdWorkAdd t (l, c) = Some (sint (c + 1), l1, c + 1)" "m_pLock l1 = Some Free"
    using cmutex.guarded_free [OF Cons.prems, of t "\<lambda>c. (sint (c + 1), c + 1)" c] by (auto simp: AdWorkAdd_def)
  obtain ns l2 where 2: "work_adds ts (l1, c + 1) = Some (ns, l2, c + 1 + of_nat (length ts))"
    "m_pLock l2 = Some Free" "length ns = length ts"
    using Cons.IH [OF l1(2)] by blast
  have "c + 1 + of_nat (length ts) = c + of_nat (length (t # ts))" by simp
  then show ?case using l1(1) 2 by simp
qed simp

end
