(* ===== verification/ThreadRefine.thy ===== *)
theory ThreadRefine
  imports Server Locks
begin

text \<open>
  The server thread and the worker threads, line by line: \<open>Core\<close>, \<open>BdxServerGetFreeTask\<close>,
  \<open>BdxServerReadEvent\<close> and \<open>BdxServerPutTask\<close> of
  \<^verbatim>\<open>src/src/UserQueryServer/UserQueryServer.cpp\<close> and \<open>Core\<close> of
  \<^verbatim>\<open>src/src/UserQueryWorkThreads/UserQueryWorkThreads.cpp\<close>, with the queue locks of
  \<^verbatim>\<open>Locks\<close>. Every line that touches what two threads share is a step of its own, and the
  steps of the threads interleave in any order.

  The data is that of \<^verbatim>\<open>Server\<close> (\<open>running\<close> is the worker's variable \<^verbatim>\<open>pclTask\<close>
  from the pop to the report); added are the locks, where each worker is, and where the server
  is. The result: every state of the threads corresponds to a reachable state of \<^verbatim>\<open>Server\<close>,
  whose steps are whole handlers. So what is proved there of the handlers holds of the threads.
\<close>

section \<open>State\<close>

datatype thread = ServerThread | WorkThread nat

text \<open>The lines of the worker's loop.\<close>

datatype worker_pc = AtLock | AtEmpty | AtWait | InWait | AtPop | AtRun | AtReport int | AtUnlock | AtNotify

text \<open>
  The places of the server thread: draining the status queue of worker \<open>i\<close>; at
  \<^verbatim>\<open>BdxEpollWait\<close>; with the events still to handle (descriptor, and whether \<^verbatim>\<open>EPOLLIN\<close>
  is set); and in \<open>BdxServerPutTask\<close>, with the descriptor, its task and the index of its loop.
\<close>

type_synonym events = "(int \<times> bool) list"

datatype server_pc =
    Drain nat
  | Poll
  | Events events
  | TryLock int Task nat events
  | Push int Task nat events
  | Signal nat events
  | Release nat events

record ThreadState =
  srv :: ServerState
  locks :: "thread CMutexLock list"
  wpcs :: "worker_pc list"
  spc :: server_pc

section \<open>A worker\<close>

definition set_worker :: "nat \<Rightarrow> worker_pc \<Rightarrow> thread CMutexLock \<Rightarrow> Worker \<Rightarrow> ThreadState \<Rightarrow> ThreadState" where
  "set_worker i pc l x c =
     c\<lparr>srv := (srv c)\<lparr>workers := (workers (srv c))[i := x]\<rparr>, locks := (locks c)[i := l], wpcs := (wpcs c)[i := pc]\<rparr>"

text \<open>
  One line of worker \<open>i\<close> on its own queue, lock and place; \<open>None\<close> when it is blocked.
  \<open>iRes\<close> is what \<^verbatim>\<open>BdxRunTask\<close> returns. The wait is in a loop, so a worker that wakes
  tests the queue again.
\<close>

definition worker_line ::
  "nat \<Rightarrow> int \<Rightarrow> worker_pc \<times> thread CMutexLock \<times> Worker \<Rightarrow> (worker_pc \<times> thread CMutexLock \<times> Worker) option" where
  "worker_line i iRes w =
     (case w of (pc, l, x) \<Rightarrow>
        (case pc of
           AtLock \<Rightarrow> map_option (\<lambda>l. (AtEmpty, l, x)) (MutexLock (WorkThread i) l)
         | AtEmpty \<Rightarrow> Some (if m_queUserQueryTask x = [] then AtWait else AtPop, l, x)
         | AtWait \<Rightarrow> map_option (\<lambda>l. (InWait, l, x)) (MutexWait (WorkThread i) l)
         | InWait \<Rightarrow> map_option (\<lambda>l. (AtEmpty, l, x)) (MutexWaitReturn (WorkThread i) l)
         | AtPop \<Rightarrow> Some (AtRun, l, worker_start x)
         | AtRun \<Rightarrow> Some (AtReport iRes, l, x)
         | AtReport r \<Rightarrow> Some (AtUnlock, l, worker_finish r x)
         | AtUnlock \<Rightarrow> map_option (\<lambda>l. (AtNotify, l, x)) (MutexUnlock (WorkThread i) l)
         | AtNotify \<Rightarrow> Some (AtLock, MutexNotify 0 l, x)))"

definition worker_exec :: "nat \<Rightarrow> int \<Rightarrow> ThreadState \<Rightarrow> ThreadState option" where
  "worker_exec i iRes c =
     map_option (\<lambda>(pc, l, x). set_worker i pc l x c) (worker_line i iRes (wpcs c ! i, locks c ! i, workers (srv c) ! i))"

definition wake_exec :: "nat \<Rightarrow> ThreadState \<Rightarrow> ThreadState" where
  "wake_exec i c = c\<lparr>locks := (locks c)[i := spurious_wakeup (WorkThread i) (locks c ! i)]\<rparr>"

section \<open>The server\<close>

text \<open>
  What the system decides: the result of a registration, the events it reports, and what
  \<^verbatim>\<open>accept\<close> returns. \<open>lfd\<close> is the listening socket.
\<close>

record Env =
  env_ok :: bool
  env_events :: events
  env_accept :: "int option"

definition put_fails :: "int \<Rightarrow> Task \<Rightarrow> ServerState \<Rightarrow> ServerState" where
  "put_fails fd t s = (delete_task t s)\<lparr>m_mpSocketTask := map_erase fd (m_mpSocketTask s)\<rparr>"

definition server_exec :: "string \<Rightarrow> int \<Rightarrow> Env \<Rightarrow> ThreadState \<Rightarrow> ThreadState option" where
  "server_exec name lfd e c =
     (let s = srv c; n = length (workers s) in
      case spc c of
        Drain i \<Rightarrow>
          Some (if i < n then
                  (case m_vecTaskStauts (workers s ! i) of
                     [] \<Rightarrow> c\<lparr>spc := Drain (i + 1)\<rparr>
                   | st # sts \<Rightarrow>
                       c\<lparr>srv := free_one (\<lambda>_. env_ok e) st
                          (s\<lparr>workers := (workers s)[i := (workers s ! i)\<lparr>m_vecTaskStauts := sts\<rparr>]\<rparr>), spc := Drain i\<rparr>)
                else c\<lparr>spc := Poll\<rparr>)
      | Poll \<Rightarrow> Some (c\<lparr>spc := Events (env_events e)\<rparr>)
      | Events [] \<Rightarrow> Some (c\<lparr>spc := Drain 0\<rparr>)
      | Events ((fd, epollin) # evs) \<Rightarrow>
          Some (if fd = lfd then
                  c\<lparr>srv := handle_event name (Accept (env_accept e) (env_ok e)) s, spc := Events evs\<rparr>
                else if epollin then
                  (case map_of (m_mpSocketTask s) fd of
                     None \<Rightarrow> c\<lparr>srv := close_fd fd s, spc := Events evs\<rparr>
                   | Some t \<Rightarrow> c\<lparr>srv := snd (BdxEpollCtr True EPOLL_CTL_DEL fd s), spc := TryLock fd t 0 evs\<rparr>)
                else c\<lparr>spc := Events evs\<rparr>)
      | TryLock fd t i evs \<Rightarrow>
          Some (if i < n then
                  (case MutexTryLock ServerThread (locks c ! i) of
                     (iRes, l) \<Rightarrow>
                       if iRes = 1 then c\<lparr>spc := TryLock fd t (i + 1) evs\<rparr>
                       else if iRes = 0 then c\<lparr>locks := (locks c)[i := l], spc := Push fd t i evs\<rparr>
                       else c\<lparr>srv := put_fails fd t s, spc := Events evs\<rparr>)
                else c\<lparr>srv := put_fails fd t s, spc := Events evs\<rparr>)
      | Push fd t i evs \<Rightarrow>
          Some (c\<lparr>srv := s\<lparr>workers := (workers s)[i := (workers s ! i)\<lparr>m_queUserQueryTask := m_queUserQueryTask (workers s ! i) @ [t]\<rparr>]\<rparr>,
                  spc := Signal i evs\<rparr>)
      | Signal i evs \<Rightarrow> Some (c\<lparr>locks := (locks c)[i := MutexNotify 0 (locks c ! i)], spc := Release i evs\<rparr>)
      | Release i evs \<Rightarrow>
          map_option (\<lambda>l. c\<lparr>locks := (locks c)[i := l], spc := Events evs\<rparr>) (MutexUnlock ServerThread (locks c ! i)))"

section \<open>Interleaving\<close>

text \<open>
  The system reports each registered descriptor at most once in a call of \<^verbatim>\<open>epoll_wait\<close>, and
  \<^verbatim>\<open>accept\<close> returns a descriptor that is not in use.
\<close>

definition env_guard :: "int \<Rightarrow> Env \<Rightarrow> ThreadState \<Rightarrow> bool" where
  "env_guard lfd e c \<longleftrightarrow>
     distinct (map fst (env_events e))
     \<and> (\<forall>(fd, _) \<in> set (env_events e). fd = lfd \<or> fd \<in> set (registered (srv c)))
     \<and> (case env_accept e of None \<Rightarrow> True | Some fd \<Rightarrow> fd \<notin> set (open_fds (srv c)) \<and> fd \<noteq> lfd)"

datatype action = Server Env | Work nat int | Wake nat

definition act :: "string \<Rightarrow> int \<Rightarrow> action \<Rightarrow> ThreadState \<Rightarrow> ThreadState option" where
  "act name lfd a c =
     (case a of
        Server e \<Rightarrow> if env_guard lfd e c then server_exec name lfd e c else None
      | Work i iRes \<Rightarrow> if i < length (workers (srv c)) then worker_exec i iRes c else None
      | Wake i \<Rightarrow> if i < length (workers (srv c)) then Some (wake_exec i c) else None)"

definition init_threads :: "nat \<Rightarrow> ThreadState" where
  "init_threads n =
     \<lparr>srv = init_server n,
      locks = replicate n \<lparr>m_pLock = Some Free, m_pstAttr = Some False, m_stCond = []\<rparr>,
      wpcs = replicate n AtLock, spc = Drain 0\<rparr>"

inductive threads_reach :: "string \<Rightarrow> int \<Rightarrow> nat \<Rightarrow> ThreadState \<Rightarrow> bool" for name lfd n where
  threads_init: "threads_reach name lfd n (init_threads n)"
| threads_act: "threads_reach name lfd n c \<Longrightarrow> act name lfd a c = Some c' \<Longrightarrow> threads_reach name lfd n c'"

text \<open>A schedule of actions, for concrete runs.\<close>

fun run_schedule :: "string \<Rightarrow> int \<Rightarrow> action list \<Rightarrow> ThreadState \<Rightarrow> ThreadState option" where
  "run_schedule name lfd [] c = Some c"
| "run_schedule name lfd (a # as) c = (case act name lfd a c of None \<Rightarrow> None | Some c \<Rightarrow> run_schedule name lfd as c)"

lemma run_schedule_reach:
  "threads_reach name lfd n c \<Longrightarrow> run_schedule name lfd as c = Some c' \<Longrightarrow> threads_reach name lfd n c'"
  by (induction as arbitrary: c) (auto split: option.splits intro: threads_act)

section \<open>The lock invariant\<close>

fun holding :: "worker_pc \<Rightarrow> bool" where
  "holding AtLock = False"
| "holding InWait = False"
| "holding AtNotify = False"
| "holding _ = True"

text \<open>The queue the server has locked.\<close>

fun server_at :: "server_pc \<Rightarrow> nat option" where
  "server_at (Push fd t i evs) = Some i"
| "server_at (Signal i evs) = Some i"
| "server_at (Release i evs) = Some i"
| "server_at _ = None"

text \<open>
  Worker \<open>i\<close>, its lock and its queue, where \<open>at\<close> says that the server has the lock and
  \<open>sig\<close> that it is about to signal. The last clause is the wake-up: a worker asleep over a
  task will be signalled.
\<close>

definition lock_ok :: "nat \<Rightarrow> bool \<Rightarrow> bool \<Rightarrow> worker_pc \<times> thread CMutexLock \<times> Worker \<Rightarrow> bool" where
  "lock_ok i at sig w \<longleftrightarrow>
     (case w of (pc, l, x) \<Rightarrow>
        m_pLock l = Some (if holding pc then HeldBy (WorkThread i) else if at then HeldBy ServerThread else Free)
        \<and> \<not> (holding pc \<and> at)
        \<and> (m_stCond l = [] \<or> m_stCond l = [WorkThread i] \<and> pc = InWait)
        \<and> (pc = AtPop \<longrightarrow> m_queUserQueryTask x \<noteq> [])
        \<and> (pc = AtWait \<longrightarrow> m_queUserQueryTask x = [])
        \<and> (running x \<noteq> None \<longleftrightarrow> pc = AtRun \<or> (\<exists>r. pc = AtReport r))
        \<and> (m_stCond l \<noteq> [] \<and> m_queUserQueryTask x \<noteq> [] \<longrightarrow> sig))"

definition locks_inv :: "ThreadState \<Rightarrow> bool" where
  "locks_inv c \<longleftrightarrow>
     length (locks c) = length (workers (srv c)) \<and> length (wpcs c) = length (workers (srv c))
     \<and> (\<forall>i < length (workers (srv c)).
          lock_ok i (server_at (spc c) = Some i) (\<exists>evs. spc c = Signal i evs) (wpcs c ! i, locks c ! i, workers (srv c) ! i))
     \<and> (\<forall>i. server_at (spc c) = Some i \<longrightarrow> i < length (workers (srv c)))"

lemma worker_line_ok:
  assumes "lock_ok i at sig w" "worker_line i iRes w = Some w'"
  shows "lock_ok i at sig w'"
proof -
  obtain pc l x where w: "w = (pc, l, x)" by (cases w)
  show ?thesis
    using assms unfolding w worker_line_def
    by (cases pc; cases "at"; cases "m_stCond l = []")
      (auto simp: lock_ok_def worker_start_def worker_finish_def split: list.splits option.splits if_splits)
qed

lemma wake_ok: "lock_ok i at sig (pc, l, x) \<Longrightarrow> lock_ok i at sig (pc, spurious_wakeup (WorkThread i) l, x)"
  by (auto simp: lock_ok_def spurious_wakeup_def)

text \<open>The server moves while one lock at most changes.\<close>

lemma locks_invD:
  assumes "locks_inv c"
  shows "length (locks c) = length (workers (srv c))" "length (wpcs c) = length (workers (srv c))"
    "i < length (workers (srv c)) \<Longrightarrow>
       lock_ok i (server_at (spc c) = Some i) (\<exists>evs. spc c = Signal i evs) (wpcs c ! i, locks c ! i, workers (srv c) ! i)"
    "server_at (spc c) = Some i \<Longrightarrow> i < length (workers (srv c))"
  using assms by (simp_all add: locks_inv_def)

lemma lock_ok_status [simp]: "lock_ok i at sig (pc, l, x\<lparr>m_vecTaskStauts := z\<rparr>) = lock_ok i at sig (pc, l, x)"
  by (simp add: lock_ok_def)

lemma signal_at: "server_at pc \<noteq> Some i \<Longrightarrow> \<not> (\<exists>evs. pc = Signal i evs)"
  by (cases pc) auto

lemma locks_inv_private:
  assumes inv: "locks_inv c" and "server_at (spc c) = None" "server_at pc = None"
    and "length (workers s) = length (workers (srv c))"
    and "\<And>i. i < length (workers (srv c)) \<Longrightarrow> \<exists>z. workers s ! i = (workers (srv c) ! i)\<lparr>m_vecTaskStauts := z\<rparr>"
  shows "locks_inv (c\<lparr>srv := s, spc := pc\<rparr>)"
proof -
  have "lock_ok i False False (wpcs c ! i, locks c ! i, workers s ! i)" if "i < length (workers s)" for i
    using locks_invD(3) [OF inv, of i] assms(2,4) assms(5) [of i] signal_at [of "spc c" i] that by auto
  then show ?thesis using inv assms(3,4) signal_at [of pc] by (auto simp: locks_inv_def)
qed

lemma locks_inv_at:
  assumes inv: "locks_inv c" and j: "j < length (workers (srv c))"
    and "server_at (spc c) = None \<or> server_at (spc c) = Some j" "server_at pc = None \<or> server_at pc = Some j"
    and "lock_ok j (server_at pc = Some j) (\<exists>evs. pc = Signal j evs) (wpcs c ! j, l, x)"
  shows "locks_inv (c\<lparr>srv := (srv c)\<lparr>workers := (workers (srv c))[j := x]\<rparr>, locks := (locks c)[j := l], spc := pc\<rparr>)"
proof -
  have "lock_ok i False False (wpcs c ! i, locks c ! i, workers (srv c) ! i)"
    if "i < length (workers (srv c))" "i \<noteq> j" for i
  proof -
    have "server_at (spc c) \<noteq> Some i" using assms(3) that(2) by auto
    then show ?thesis using locks_invD(3) [OF inv that(1)] signal_at [of "spc c" i] by simp
  qed
  moreover have "server_at pc \<noteq> Some i" if "i \<noteq> j" for i using assms(4) that by auto
  ultimately show ?thesis
    using inv j assms(4,5) signal_at [of pc] by (auto simp: locks_inv_def nth_list_update)
qed

text \<open>The same when the worker moves.\<close>

lemma locks_inv_worker:
  assumes inv: "locks_inv c" and w: "worker_exec i iRes c = Some c'" and i: "i < length (workers (srv c))"
  shows "locks_inv c'"
proof -
  obtain pc l x where e: "worker_line i iRes (wpcs c ! i, locks c ! i, workers (srv c) ! i) = Some (pc, l, x)"
    and c': "c' = set_worker i pc l x c" using w by (auto simp: worker_exec_def)
  have "lock_ok i (server_at (spc c) = Some i) (\<exists>evs. spc c = Signal i evs) (pc, l, x)"
    using worker_line_ok [OF locks_invD(3) [OF inv i] e] .
  then show ?thesis using inv i by (auto simp: locks_inv_def c' set_worker_def nth_list_update)
qed

lemma locks_inv_wake: "locks_inv c \<Longrightarrow> i < length (workers (srv c)) \<Longrightarrow> locks_inv (wake_exec i c)"
  by (auto simp: locks_inv_def wake_exec_def nth_list_update wake_ok)

lemma accept_workers [simp]: "workers (handle_event name (Accept fd ok) s) = workers s"
  by (auto simp: handle_event_def BdxServerGetTask_def BdxEpollCtr_def close_fd_def Let_def split: option.split)

lemma put_fails_workers [simp]: "workers (put_fails fd t s) = workers s"
  by (simp add: put_fails_def delete_task_def)

lemma close_fd_workers [simp]: "workers (close_fd fd s) = workers s" by (simp add: close_fd_def)

lemma unregister_eq: "snd (BdxEpollCtr True EPOLL_CTL_DEL fd s) = s\<lparr>registered := removeAll fd (registered s)\<rparr>"
  by (simp add: BdxEpollCtr_def)

lemma same_status: "\<exists>z. (x :: Worker) = x\<lparr>m_vecTaskStauts := z\<rparr>"
  by (rule exI [of _ "m_vecTaskStauts x"]) simp

lemma locks_inv_server:
  assumes inv: "locks_inv c" and e: "server_exec name lfd e c = Some c'"
  shows "locks_inv c'"
proof (cases "spc c")
  case (Drain i)
  let ?s = "\<lambda>sts. (srv c)\<lparr>workers := (workers (srv c))[i := (workers (srv c) ! i)\<lparr>m_vecTaskStauts := sts\<rparr>]\<rparr>"
  have "locks_inv (c\<lparr>srv := srv c, spc := pc\<rparr>)" if "server_at pc = None" for pc
    using Drain that by (intro locks_inv_private [OF inv]) (auto intro: same_status)
  moreover have "locks_inv (c\<lparr>srv := free_one ok st (?s sts), spc := Drain i\<rparr>)" if "i < length (workers (srv c))" for ok st sts
    using Drain that by (intro locks_inv_private [OF inv]) (auto simp: nth_list_update intro: same_status)
  ultimately show ?thesis using e Drain by (auto simp: server_exec_def Let_def split: list.splits if_splits)
next
  case Poll
  then show ?thesis using e locks_inv_private [OF inv, of "Events (env_events e)" "srv c"]
    by (simp add: server_exec_def same_status)
next
  case (Events evs)
  have "locks_inv (c\<lparr>srv := s, spc := pc\<rparr>)" if "workers s = workers (srv c)" "server_at pc = None" for s pc
    using Events that by (intro locks_inv_private [OF inv]) (auto intro: same_status)
  from this this [of "srv c"] show ?thesis using e Events
    by (auto simp: server_exec_def Let_def unregister_eq split: list.splits if_splits option.splits prod.splits)
next
  case (TryLock fd t i evs)
  have p: "locks_inv (c\<lparr>srv := s, spc := pc\<rparr>)" if "workers s = workers (srv c)" "server_at pc = None" for s pc
    using TryLock that by (intro locks_inv_private [OF inv]) (auto intro: same_status)
  show ?thesis
  proof (cases "i < length (workers (srv c)) \<and> m_pLock (locks c ! i) = Some Free")
    case True
    have l: "lock_ok i False False (wpcs c ! i, locks c ! i, workers (srv c) ! i)"
      using locks_invD(3) [OF inv, of i] True TryLock by simp
    then have "lock_ok i True False (wpcs c ! i, (locks c ! i)\<lparr>m_pLock := Some (HeldBy ServerThread)\<rparr>, workers (srv c) ! i)"
      using True by (auto simp: lock_ok_def split: if_splits)
    then show ?thesis using e TryLock True
        locks_inv_at [OF inv, of i "Push fd t i evs" "(locks c ! i)\<lparr>m_pLock := Some (HeldBy ServerThread)\<rparr>" "workers (srv c) ! i"]
      by (auto simp: server_exec_def)
  next
    case False
    show ?thesis
    proof (cases "i < length (workers (srv c))")
      case True
      then obtain u where "m_pLock (locks c ! i) = Some (HeldBy u)"
        using locks_invD(3) [OF inv True] False by (auto simp: lock_ok_def split: if_splits)
      then show ?thesis using e TryLock True p [of "srv c" "TryLock fd t (i + 1) evs"] by (simp add: server_exec_def)
    qed (use e TryLock p [of "put_fails fd t (srv c)" "Events evs"] in \<open>simp add: server_exec_def Let_def\<close>)
  qed
next
  case (Push fd t i evs)
  let ?x = "workers (srv c) ! i"
  have i: "i < length (workers (srv c))" using locks_invD(4) [OF inv] Push by simp
  have "lock_ok i True False (wpcs c ! i, locks c ! i, ?x)" using locks_invD(3) [OF inv i] Push by simp
  then have "lock_ok i True True (wpcs c ! i, locks c ! i, ?x\<lparr>m_queUserQueryTask := m_queUserQueryTask ?x @ [t]\<rparr>)"
    by (auto simp: lock_ok_def)
  then show ?thesis
    using e Push locks_inv_at [OF inv i, of "Signal i evs" "locks c ! i" "?x\<lparr>m_queUserQueryTask := m_queUserQueryTask ?x @ [t]\<rparr>"]
    by (simp add: server_exec_def Let_def)
next
  case (Signal i evs)
  have i: "i < length (workers (srv c))" using locks_invD(4) [OF inv] Signal by simp
  have "lock_ok i True True (wpcs c ! i, locks c ! i, workers (srv c) ! i)" using locks_invD(3) [OF inv i] Signal by simp
  then have "lock_ok i True False (wpcs c ! i, MutexNotify 0 (locks c ! i), workers (srv c) ! i)"
    by (auto simp: lock_ok_def)
  then show ?thesis
    using e Signal locks_inv_at [OF inv i, of "Release i evs" "MutexNotify 0 (locks c ! i)" "workers (srv c) ! i"]
    by (simp add: server_exec_def Let_def)
next
  case (Release i evs)
  have i: "i < length (workers (srv c))" using locks_invD(4) [OF inv] Release by simp
  have l: "lock_ok i True False (wpcs c ! i, locks c ! i, workers (srv c) ! i)" using locks_invD(3) [OF inv i] Release by simp
  then have "lock_ok i False False (wpcs c ! i, (locks c ! i)\<lparr>m_pLock := Some Free\<rparr>, workers (srv c) ! i)"
    by (auto simp: lock_ok_def split: if_splits)
  moreover have "m_pLock (locks c ! i) = Some (HeldBy ServerThread)" using l by (auto simp: lock_ok_def split: if_splits)
  ultimately show ?thesis
    using e Release locks_inv_at [OF inv i, of "Events evs" "(locks c ! i)\<lparr>m_pLock := Some Free\<rparr>" "workers (srv c) ! i"]
    by (simp add: server_exec_def Let_def)
qed

lemma threads_locks: "threads_reach name lfd n c \<Longrightarrow> locks_inv c"
proof (induction rule: threads_reach.induct)
  case threads_init
  show ?case by (auto simp: locks_inv_def init_threads_def init_server_def lock_ok_def idle_worker_def)
next
  case (threads_act c a c')
  then show ?case
    by (cases a) (auto simp: act_def split: if_splits intro: locks_inv_server locks_inv_worker locks_inv_wake)
qed

section \<open>Whole handlers\<close>

text \<open>
  The threads' data is that of \<^verbatim>\<open>Server\<close>, except while the server looks for a worker: then
  it has unregistered the descriptor of a handler that, for \<^verbatim>\<open>Server\<close>, has not begun. The
  handler takes place when the task is pushed, or when it fails.
\<close>

fun pending :: "server_pc \<Rightarrow> events" where
  "pending (Events evs) = evs"
| "pending (TryLock fd t i evs) = evs"
| "pending (Push fd t i evs) = evs"
| "pending (Signal i evs) = evs"
| "pending (Release i evs) = evs"
| "pending _ = []"

fun in_hand :: "server_pc \<Rightarrow> (int \<times> Task) option" where
  "in_hand (TryLock fd t i evs) = Some (fd, t)"
| "in_hand (Push fd t i evs) = Some (fd, t)"
| "in_hand _ = None"

definition sim :: "int \<Rightarrow> server_pc \<Rightarrow> ServerState \<Rightarrow> ServerState \<Rightarrow> bool" where
  "sim lfd pc s a \<longleftrightarrow>
     distinct (map fst (pending pc))
     \<and> (\<forall>(fd, _) \<in> set (pending pc). fd = lfd \<or> fd \<in> set (registered a))
     \<and> (case in_hand pc of
          None \<Rightarrow> s = a
        | Some (fd, t) \<Rightarrow>
            s = a\<lparr>registered := removeAll fd (registered a)\<rparr> \<and> fd \<in> set (registered a)
            \<and> map_of (m_mpSocketTask a) fd = Some t \<and> fd \<notin> fst ` set (pending pc))"

lemma registered_has_task:
  assumes "server_inv {#} a" "fd \<in> set (registered a)"
  shows "\<exists>t. map_of (m_mpSocketTask a) fd = Some t" "fd \<in> set (open_fds a)"
proof -
  have "fd \<in># places a + {#}" using assms(2) by (simp add: places_def)
  then obtain t where t: "map_of (m_mpSocketTask a) fd = Some t" by (rule placed_in_map [OF assms(1)])
  then show "\<exists>t. map_of (m_mpSocketTask a) fd = Some t" by blast
  have "fd \<in> fst ` set (m_mpSocketTask a)" using t by (metis map_of_eq_None_iff option.distinct(1))
  then show "fd \<in> set (open_fds a)" using server_invD(5) [OF assms(1)] by blast
qed

lemma accept_registered:
  assumes "fd \<notin> set (registered s)" "fd' \<in> set (registered s)"
  shows "fd' \<in> set (registered (handle_event name (Accept (Some fd) ok) s))"
  using assms
  by (auto simp: handle_event_def BdxServerGetTask_def BdxEpollCtr_def close_fd_def Let_def)

lemma read_event_fails:
  assumes "map_of (m_mpSocketTask a) fd = Some t" "put_task_loop lk t 0 (workers a) = (r, ws)" "r \<noteq> 0" "ws = workers a"
  shows "handle_event name (Readable fd lk) a = put_fails fd t (a\<lparr>registered := removeAll fd (registered a)\<rparr>)"
  using assms
  by (simp add: handle_event_def BdxServerReadEvent_def BdxEpollCtr_def Let_def BdxServerPutTask_def put_fails_def delete_task_def)

lemma read_event_puts:
  assumes "map_of (m_mpSocketTask a) fd = Some t" "put_task_loop lk t 0 (workers a) = (0, ws)"
  shows "handle_event name (Readable fd lk) a = a\<lparr>registered := removeAll fd (registered a), workers := ws\<rparr>"
  using assms by (simp add: handle_event_def BdxServerReadEvent_def BdxEpollCtr_def Let_def BdxServerPutTask_def)

text \<open>The trylock results of a search that ends at worker \<open>j\<close>.\<close>

lemma put_loop_at:
  "j < length xs \<Longrightarrow> put_task_loop (\<lambda>k. if k = i + j then 0 else 1) t i xs =
     (0, xs[j := (xs ! j)\<lparr>m_queUserQueryTask := m_queUserQueryTask (xs ! j) @ [t]\<rparr>])"
proof (induction xs arbitrary: i j)
  case (Cons x xs)
  show ?case
  proof (cases j)
    case (Suc k)
    then show ?thesis using Cons.IH [of k "i + 1"] Cons.prems by simp
  qed simp
qed simp

lemma put_loop_busy: "put_task_loop (\<lambda>_. 1) t i xs = (NOFREE_THREAD, xs)"
  by (induction xs arbitrary: i) auto

text \<open>Each action of a thread is a step of \<^verbatim>\<open>Server\<close>, or none.\<close>

lemma sim_worker:
  assumes inv: "locks_inv c" and s: "sim lfd (spc c) (srv c) a"
    and w: "worker_exec i iRes c = Some c'" and i: "i < length (workers (srv c))"
  shows "\<exists>a'. (a' = a \<or> step name a a') \<and> sim lfd (spc c') (srv c') a'"
proof -
  let ?x = "workers (srv c) ! i"
  obtain pc l x where e: "worker_line i iRes (wpcs c ! i, locks c ! i, ?x) = Some (pc, l, x)"
    and c': "c' = set_worker i pc l x c" using w by (auto simp: worker_exec_def)
  have ws: "workers (srv c) = workers a" using s by (auto simp: sim_def split: option.splits)
  have sim': "sim lfd (spc c') (srv c') (a\<lparr>workers := (workers a)[i := x]\<rparr>)"
    using s unfolding c' set_worker_def by (auto simp: sim_def ws split: option.splits)
  have lo: "lock_ok i (server_at (spc c) = Some i) (\<exists>evs. spc c = Signal i evs) (wpcs c ! i, locks c ! i, ?x)"
    using locks_invD(3) [OF inv i] .
  have i': "i < length (workers a)" using i ws by simp
  consider "x = ?x" | "wpcs c ! i = AtPop" "x = worker_start ?x" | r where "wpcs c ! i = AtReport r" "x = worker_finish r ?x"
    using e by (cases "wpcs c ! i") (auto simp: worker_line_def split: if_splits)
  then show ?thesis
  proof cases
    case 1
    then have "a\<lparr>workers := (workers a)[i := x]\<rparr> = a" by (simp add: ws)
    then show ?thesis using sim' by metis
  next
    case 2
    then have "running (workers a ! i) = None" using lo ws by (auto simp: lock_ok_def)
    then have "step name a (a\<lparr>workers := (workers a)[i := x]\<rparr>)" using step.start [OF i'] 2(2) ws by simp
    then show ?thesis using sim' by blast
  next
    case 3
    have "step name a (a\<lparr>workers := (workers a)[i := x]\<rparr>)" using step.finish [OF i'] 3(2) ws by simp
    then show ?thesis using sim' by blast
  qed
qed

lemma sim_server:
  assumes inv: "locks_inv c" and si: "server_inv {#} a" and s: "sim lfd (spc c) (srv c) a"
    and g: "env_guard lfd e c" and x: "server_exec name lfd e c = Some c'"
  shows "\<exists>a'. (a' = a \<or> step name a a') \<and> sim lfd (spc c') (srv c') a'"
proof (cases "spc c")
  case (Drain i)
  then have a: "srv c = a" using s by (simp add: sim_def)
  show ?thesis
  proof (cases "i < length (workers a) \<and> m_vecTaskStauts (workers a ! i) \<noteq> []")
    case True
    then obtain st sts where st: "m_vecTaskStauts (workers a ! i) = st # sts" by (auto simp: neq_Nil_conv)
    let ?a = "free_one (\<lambda>_. env_ok e) st (a\<lparr>workers := (workers a)[i := (workers a ! i)\<lparr>m_vecTaskStauts := sts\<rparr>]\<rparr>)"
    have "step name a ?a" using step.free_status st True by blast
    moreover have "sim lfd (spc c') (srv c') ?a" using x Drain True st a by (auto simp: server_exec_def sim_def)
    ultimately show ?thesis by blast
  qed (use x Drain a in \<open>auto simp: server_exec_def sim_def Let_def split: if_splits\<close>)
next
  case Poll
  then show ?thesis using s g x by (intro exI [of _ a]) (auto simp: server_exec_def sim_def env_guard_def)
next
  case (Events evs)
  then have a: "srv c = a" using s by (simp add: sim_def)
  have p: "distinct (map fst evs)" "\<forall>(fd, _) \<in> set evs. fd = lfd \<or> fd \<in> set (registered a)"
    using s Events by (auto simp: sim_def)
  show ?thesis
  proof (cases evs)
    case (Cons ev evs')
    obtain fd epollin where ev: "ev = (fd, epollin)" by force
    show ?thesis
    proof (cases "fd = lfd")
      case True
      let ?a = "handle_event name (Accept (env_accept e) (env_ok e)) a"
      have "step name a ?a" using g by (cases "env_accept e") (auto simp: env_guard_def a intro: step.accept step.accept_fails)
      moreover have "fd' \<in> set (registered ?a)" if "fd' \<in> set (registered a)" for fd'
      proof (cases "env_accept e")
        case (Some nfd)
        then have "nfd \<notin> set (registered a)" using g registered_has_task(2) [OF si] by (auto simp: env_guard_def a)
        then show ?thesis using accept_registered that Some by metis
      qed (use that in \<open>simp add: handle_event_def\<close>)
      moreover have "spc c' = Events evs'" "srv c' = ?a" using x Events Cons ev True a by (auto simp: server_exec_def)
      ultimately show ?thesis using p Cons by (intro exI [of _ ?a]) (fastforce simp: sim_def)
    next
      case False
      then have r: "fd \<in> set (registered a)" using p(2) Cons ev by simp
      obtain t where t: "map_of (m_mpSocketTask a) fd = Some t" using registered_has_task(1) [OF si r] by blast
      have "sim lfd (TryLock fd t 0 evs') (a\<lparr>registered := removeAll fd (registered a)\<rparr>) a" "sim lfd (Events evs') a a"
        using p r t Cons ev by (auto simp: sim_def)
      moreover have "c' = c\<lparr>srv := a\<lparr>registered := removeAll fd (registered a)\<rparr>, spc := TryLock fd t 0 evs'\<rparr>
          \<or> c' = c\<lparr>spc := Events evs'\<rparr>"
        using x Events Cons ev False a t by (auto simp: server_exec_def unregister_eq split: if_splits)
      ultimately show ?thesis using a by (intro exI [of _ a]) auto
    qed
  qed (use x Events a in \<open>auto simp: server_exec_def sim_def\<close>)
next
  case (TryLock fd t i evs)
  then have s': "srv c = a\<lparr>registered := removeAll fd (registered a)\<rparr>" "fd \<in> set (registered a)"
    "map_of (m_mpSocketTask a) fd = Some t" "fd \<notin> fst ` set evs" "distinct (map fst evs)"
    "\<forall>(f, _) \<in> set evs. f = lfd \<or> f \<in> set (registered a)"
    using s by (auto simp: sim_def)
  let ?a = "handle_event name (Readable fd (\<lambda>_. 1)) a"
  have fa: "?a = put_fails fd t (srv c)" using read_event_fails [OF s'(3) put_loop_busy] by (simp add: s'(1))
  have "step name a ?a" using s'(2) by (rule step.read) simp
  moreover have "registered (put_fails fd t (srv c)) = removeAll fd (registered a)"
    by (simp add: put_fails_def delete_task_def s'(1))
  then have "sim lfd (Events evs) (put_fails fd t (srv c)) ?a" using s' fa by (force simp: sim_def)
  moreover have "sim lfd pc (srv c) a" if "pc = TryLock fd t (i + 1) evs \<or> pc = Push fd t i evs" for pc
    using s TryLock that by (auto simp: sim_def)
  ultimately show ?thesis using x TryLock by (fastforce simp: server_exec_def Let_def split: if_splits prod.splits)
next
  case (Push fd t j evs)
  then have s': "srv c = a\<lparr>registered := removeAll fd (registered a)\<rparr>" "fd \<in> set (registered a)"
    "map_of (m_mpSocketTask a) fd = Some t" "fd \<notin> fst ` set evs" "distinct (map fst evs)"
    "\<forall>(f, _) \<in> set evs. f = lfd \<or> f \<in> set (registered a)"
    using s by (auto simp: sim_def)
  have j: "j < length (workers a)" using locks_invD(4) [OF inv] Push s'(1) by simp
  let ?lk = "\<lambda>k. if k = 0 + j then 0 else 1 :: int"
  have "lock_ok j True False (wpcs c ! j, locks c ! j, workers a ! j)"
    using locks_invD(3) [OF inv, of j] j Push s'(1) by simp
  then have "running (workers a ! j) = None" by (auto simp: lock_ok_def)
  then have "step name a (handle_event name (Readable fd ?lk) a)" by (intro step.read s'(2)) (simp split: if_splits)
  moreover have "sim lfd (spc c') (srv c') (handle_event name (Readable fd ?lk) a)"
    unfolding read_event_puts [OF s'(3) put_loop_at [OF j, of 0]]
    using x Push s' by (force simp: server_exec_def sim_def Let_def)
  ultimately show ?thesis by blast
next
  case (Signal i evs)
  then show ?thesis using s x by (intro exI [of _ a]) (auto simp: server_exec_def sim_def Let_def)
next
  case (Release i evs)
  then show ?thesis using s x by (intro exI [of _ a]) (auto simp: server_exec_def sim_def Let_def)
qed

lemma threads_simulated: "threads_reach name lfd n c \<Longrightarrow> \<exists>a. reachable name n a \<and> sim lfd (spc c) (srv c) a"
proof (induction rule: threads_reach.induct)
  case threads_init
  have "sim lfd (spc (init_threads n)) (srv (init_threads n)) (init_server n)" by (simp add: sim_def init_threads_def)
  then show ?case using reachable.init by blast
next
  case (threads_act c b c')
  then obtain a where a: "reachable name n a" "sim lfd (spc c) (srv c) a" by blast
  have "\<exists>a'. (a' = a \<or> step name a a') \<and> sim lfd (spc c') (srv c') a'"
  proof (cases b)
    case (Server e)
    then show ?thesis using sim_server [OF threads_locks [OF threads_act(1)] reachable_inv [OF a(1)] a(2)] threads_act(2)
      by (auto simp: act_def split: if_splits)
  next
    case (Work i iRes)
    then show ?thesis using sim_worker [OF threads_locks [OF threads_act(1)] a(2)] threads_act(2)
      by (auto simp: act_def split: if_splits)
  next
    case (Wake i)
    then show ?thesis using a(2) threads_act(2) by (auto simp: act_def wake_exec_def split: if_splits)
  qed
  then show ?case using a(1) reachable.step by blast
qed

section \<open>No task waits for a sleeping worker\<close>

text \<open>How many lines a worker is from running the task at the head of its queue.\<close>

fun lines_to_run :: "worker_pc \<Rightarrow> nat" where
  "lines_to_run AtPop = 1"
| "lines_to_run AtEmpty = 2"
| "lines_to_run AtLock = 3"
| "lines_to_run InWait = 3"
| "lines_to_run AtNotify = 4"
| "lines_to_run AtUnlock = 5"
| "lines_to_run (AtReport _) = 6"
| "lines_to_run AtRun = 7"
| "lines_to_run AtWait = 0"

lemma lines_to_run_le: "lines_to_run pc \<le> 7" by (cases pc) auto

abbreviation queue_of :: "nat \<Rightarrow> ThreadState \<Rightarrow> Task list" where
  "queue_of i c \<equiv> m_queUserQueryTask (workers (srv c) ! i)"

definition runs_next :: "nat \<Rightarrow> Task \<Rightarrow> ThreadState \<Rightarrow> bool" where
  "runs_next i t c \<longleftrightarrow> wpcs c ! i = AtRun \<and> running (workers (srv c) ! i) = Some t"

lemma set_worker_nth [simp]:
  "length (wpcs (set_worker i pc l x c)) = length (wpcs c)" "spc (set_worker i pc l x c) = spc c"
  "i < length (wpcs c) \<Longrightarrow> wpcs (set_worker i pc l x c) ! i = pc"
  "i < length (workers (srv c)) \<Longrightarrow> workers (srv (set_worker i pc l x c)) ! i = x"
  "length (workers (srv (set_worker i pc l x c))) = length (workers (srv c))"
  by (simp_all add: set_worker_def)

text \<open>A worker with a task in its queue and the server away from its lock can go on.\<close>

lemma worker_progress:
  assumes inv: "locks_inv c" and i: "i < length (workers (srv c))"
    and at: "server_at (spc c) \<noteq> Some i" and q: "queue_of i c = t # q"
  shows "\<exists>c'. worker_exec i r c = Some c' \<and> spc c' = spc c \<and> length (workers (srv c')) = length (workers (srv c))
    \<and> (runs_next i t c'
       \<or> (queue_of i c' = t # q \<and> lines_to_run (wpcs c' ! i) < lines_to_run (wpcs c ! i)))"
proof -
  have lo: "lock_ok i False False (wpcs c ! i, locks c ! i, workers (srv c) ! i)"
    using locks_invD(3) [OF inv i] at signal_at [OF at] by simp
  have l: "i < length (wpcs c)" using locks_invD(2) [OF inv] i by simp
  from lo q have "\<exists>pc l x. worker_line i r (wpcs c ! i, locks c ! i, workers (srv c) ! i) = Some (pc, l, x)
      \<and> (pc = AtRun \<and> running x = Some t
         \<or> m_queUserQueryTask x = t # q \<and> lines_to_run pc < lines_to_run (wpcs c ! i))"
    by (cases "wpcs c ! i") (auto simp: lock_ok_def worker_line_def worker_start_def worker_finish_def split: option.split)
  then show ?thesis using i l by (auto simp: worker_exec_def runs_next_def)
qed

lemma worker_reaches:
  "locks_inv c \<Longrightarrow> i < length (workers (srv c)) \<Longrightarrow> server_at (spc c) \<noteq> Some i \<Longrightarrow> queue_of i c = t # q \<Longrightarrow>
   \<exists>k c'. k \<le> lines_to_run (wpcs c ! i) \<and> run_schedule name lfd (replicate k (Work i 0)) c = Some c' \<and> runs_next i t c'"
proof (induction "lines_to_run (wpcs c ! i)" arbitrary: c rule: less_induct)
  case less
  obtain c' where c': "worker_exec i 0 c = Some c'" "spc c' = spc c" "length (workers (srv c')) = length (workers (srv c))"
    and d: "runs_next i t c' \<or> (queue_of i c' = t # q \<and> lines_to_run (wpcs c' ! i) < lines_to_run (wpcs c ! i))"
    using worker_progress [OF less.prems, of 0] by blast
  have go: "run_schedule name lfd (Work i 0 # as) c = run_schedule name lfd as c'" for as
    using c'(1) less.prems(2) by (simp add: act_def)
  show ?case
  proof (cases "runs_next i t c'")
    case True
    have "lines_to_run (wpcs c ! i) \<noteq> 0"
    proof
      assume "lines_to_run (wpcs c ! i) = 0"
      then have "wpcs c ! i = AtWait" by (cases "wpcs c ! i") auto
      then show False using locks_invD(3) [OF less.prems(1,2)] less.prems(4) by (simp add: lock_ok_def)
    qed
    then show ?thesis using go [of "[]"] True by (intro exI [of _ 1]) auto
  next
    case False
    then have d: "queue_of i c' = t # q" "lines_to_run (wpcs c' ! i) < lines_to_run (wpcs c ! i)" using d by auto
    have "locks_inv c'" using locks_inv_worker [OF less.prems(1) c'(1) less.prems(2)] .
    then obtain k c'' where "k \<le> lines_to_run (wpcs c' ! i)" "run_schedule name lfd (replicate k (Work i 0)) c' = Some c''" "runs_next i t c''"
      using less.hyps [OF d(2)] c' less.prems d(1) by auto
    then show ?thesis using go d(2) by (intro exI [of _ "Suc k"]) (auto simp del: run_schedule.simps)
  qed
qed

text \<open>A server that has the lock gives it back in at most three lines of its own.\<close>

definition idle_env :: Env where "idle_env = \<lparr>env_ok = True, env_events = [], env_accept = None\<rparr>"

lemma act_idle: "act name lfd (Server idle_env) c = server_exec name lfd idle_env c"
  by (simp add: act_def env_guard_def idle_env_def)

lemma server_releases:
  assumes inv: "locks_inv c" and at: "server_at (spc c) = Some i" and q: "queue_of i c = t # q"
  shows "\<exists>k c' q'. k \<le> 3 \<and> run_schedule name lfd (replicate k (Server idle_env)) c = Some c' \<and> locks_inv c'
    \<and> server_at (spc c') = None \<and> length (workers (srv c')) = length (workers (srv c)) \<and> queue_of i c' = t # q'"
proof -
  have i: "i < length (workers (srv c))" using locks_invD(4) [OF inv at] .
  have l: "i < length (locks c)" using locks_invD(1) [OF inv] i by simp
  have held: "m_pLock (locks c ! i) = Some (HeldBy ServerThread)"
    using locks_invD(3) [OF inv i] at by (auto simp: lock_ok_def split: if_splits)
  have noted: "m_pLock (MutexNotify 0 (locks c ! i)) = Some (HeldBy ServerThread)"
    using held by (simp add: MutexNotify_def)
  note S = act_idle server_exec_def Let_def
  have "\<exists>k c' q'. k \<le> 3 \<and> run_schedule name lfd (replicate k (Server idle_env)) c = Some c'
    \<and> server_at (spc c') = None \<and> length (workers (srv c')) = length (workers (srv c)) \<and> queue_of i c' = t # q'"
  proof (cases "spc c")
    case (Push fd u j evs)
    then have "j = i" using at by simp
    then show ?thesis using Push i l noted q
      by (intro exI [of _ 3] exI) (auto simp: numeral_3_eq_3 S)
  next
    case (Signal j evs)
    then have "j = i" using at by simp
    then show ?thesis using Signal i l noted q
      by (intro exI [of _ 2] exI) (auto simp: numeral_2_eq_2 S)
  next
    case (Release j evs)
    then have "j = i" using at by simp
    then show ?thesis using Release i l held q
      by (intro exI [of _ 1] exI) (auto simp: S)
  qed (use at in auto)
  moreover have "locks_inv c'" if "run_schedule name lfd (replicate k (Server idle_env)) c = Some c'" for k c'
    using that inv
  proof (induction k arbitrary: c)
    case (Suc k)
    then show ?case by (auto simp: act_idle split: option.splits intro: locks_inv_server)
  qed simp
  ultimately show ?thesis by blast
qed

lemma run_schedule_append:
  "run_schedule name lfd (as @ bs) c = (case run_schedule name lfd as c of None \<Rightarrow> None | Some c \<Rightarrow> run_schedule name lfd bs c)"
  by (induction as arbitrary: c) (auto split: option.split)

section \<open>Properties\<close>

text \<open>A run: two connections, both put into the queue of the only worker before it wakes up.\<close>

definition env :: "events \<Rightarrow> int option \<Rightarrow> action" where
  "env evs fd = Server \<lparr>env_ok = True, env_events = evs, env_accept = fd\<rparr>"

definition accept_two :: "action list" where
  "accept_two = replicate 2 (env [] None) @ [env [(3, True)] None, env [] (Some 7), env [] None]
     @ replicate 2 (env [] None) @ [env [(3, True)] None, env [] (Some 8), env [] None]"

definition put_two :: "action list" where
  "put_two = accept_two @ replicate 3 (Work 0 0) @ replicate 2 (env [] None)
     @ [env [(7, True), (8, True)] None] @ replicate 8 (env [] None)"

definition after_put :: ThreadState where
  "after_put = the (run_schedule ''location'' 3 put_two (init_threads 1))"

definition demo_tasks :: "Task list" where
  "demo_tasks = [\<lparr>task_id = 0, task_fd = 7\<rparr>, \<lparr>task_id = 1, task_fd = 8\<rparr>]"

lemma after_put_runs: "run_schedule ''location'' 3 put_two (init_threads 1) = Some after_put"
  and after_put_state: "spc after_put = Signal 0 []" "wpcs after_put = [InWait]" "queue_of 0 after_put = demo_tasks"
  by code_simp+

lemma after_put_reach: "threads_reach ''location'' 3 1 after_put"
  using after_put_runs by (rule run_schedule_reach [OF threads_init])

text \<open>
  C2. The threads do what \<^verbatim>\<open>Server\<close> says: in every interleaving of the lines of the server
  thread and of the workers, with the locks as they are taken in the code, the shared data is that
  of a state \<^verbatim>\<open>Server\<close> reaches by whole handlers; only while the server is looking for a
  worker has it already unregistered the descriptor of a handler that has not taken place.
\<close>

theorem threads_refine_handlers:
  assumes "threads_reach name lfd n c"
  shows "\<exists>a. reachable name n a \<and>
    (case in_hand (spc c) of
       None \<Rightarrow> srv c = a
     | Some (fd, t) \<Rightarrow> srv c = a\<lparr>registered := removeAll fd (registered a)\<rparr> \<and> fd \<in> set (registered a)
         \<and> map_of (m_mpSocketTask a) fd = Some t)"
  using threads_simulated [OF assms] by (fastforce simp: sim_def split: option.splits)

theorem threads_refine_handlers_witness: "reachable ''location'' 1 (srv after_put)"
  using threads_refine_handlers [OF after_put_reach] by (auto simp: after_put_state)

text \<open>The connection in the server's hands is nowhere else.\<close>

lemma mset_removeAll_once: "count (mset xs) x = 1 \<Longrightarrow> mset (removeAll x xs) + {#x#} = mset xs"
proof (induction xs)
  case (Cons y ys)
  have "removeAll x ys = ys" if "x \<notin> set ys" using that by (rule removeAll_id)
  then show ?case using Cons by (auto simp: count_mset_0_iff split: if_splits)
qed simp

lemma registered_once:
  assumes "server_inv {#} a" "fd \<in> set (registered a)"
  shows "mset (removeAll fd (registered a)) + {#fd#} = mset (registered a)"
proof (rule mset_removeAll_once)
  have "count (places a) fd \<le> 1"
    using server_invD(2) [OF assms(1)] map_wf_distinct [OF server_invD(1) [OF assms(1)]]
    by (simp add: distinct_count_atmost_1)
  moreover have "count (mset (registered a)) fd \<le> count (places a) fd" by (simp add: places_def)
  moreover have "0 < count (mset (registered a)) fd" using assms(2) by (simp add: count_greater_zero_iff)
  ultimately show "count (mset (registered a)) fd = 1" by linarith
qed

text \<open>
  C8. No connection is lost between the lines: in every interleaving of the single lines of server and
  workers, the connections of the socket-task map are, each exactly once, registered, queued,
  running, reported back, or in the hands of the server while it looks for a worker; and every
  queued or running task is allocated, so no worker runs a task that the server has deleted.
\<close>

theorem lines_keep_connections:
  assumes "threads_reach name lfd n c"
  shows "mset (map fst (m_mpSocketTask (srv c))) =
      places (srv c) + (case in_hand (spc c) of Some (fd, t) \<Rightarrow> {#fd#} | None \<Rightarrow> {#})
    \<and> distinct (map fst (m_mpSocketTask (srv c)))
    \<and> (\<forall>x \<in> set (workers (srv c)). \<forall>t \<in> set (held x). t \<in> set (allocated (srv c)))"
proof -
  obtain a where a: "reachable name n a" "sim lfd (spc c) (srv c) a" using threads_simulated [OF assms] by blast
  note inv = reachable_inv [OF a(1)]
  have al: "t \<in> set (allocated a)" if "x \<in> set (workers a)" "t \<in> set (held x)" for x t
    using server_invD(4) [OF inv that] server_invD(6) [OF inv] by (force dest: map_of_SomeD)
  have k: "mset (map fst (m_mpSocketTask a)) = places a" "distinct (map fst (m_mpSocketTask a))"
    using server_invD(2) [OF inv] map_wf_distinct [OF server_invD(1) [OF inv]] by simp_all
  show ?thesis
  proof (cases "in_hand (spc c)")
    case None
    then have "srv c = a" using a(2) by (simp add: sim_def)
    then show ?thesis using None k al by auto
  next
    case (Some h)
    obtain fd t where h: "h = (fd, t)" by force
    have s: "srv c = a\<lparr>registered := removeAll fd (registered a)\<rparr>" "fd \<in> set (registered a)"
      using a(2) Some h by (auto simp: sim_def)
    have "places (srv c) + {#fd#} = places a"
      using registered_once [OF inv s(2)] by (simp add: s(1) places_def ac_simps)
    then show ?thesis using Some h k al by (auto simp: s(1))
  qed
qed

theorem lines_keep_connections_witness: "places (srv after_put) = {#7, 8#}"
proof -
  have "map fst (m_mpSocketTask (srv after_put)) = [7, 8]" by code_simp
  then show ?thesis using lines_keep_connections [OF after_put_reach] by (simp add: after_put_state)
qed

text \<open>
  C9. The lock protects the queue: no two threads are in the critical section of a queue at the same
  time, the one that is there is the holder of its lock, and while a worker runs a task the
  server's trylock on its queue is refused as busy.
\<close>

theorem queue_lock_excludes:
  assumes "threads_reach name lfd n c" "i < length (workers (srv c))"
  shows "\<not> (holding (wpcs c ! i) \<and> server_at (spc c) = Some i)
    \<and> m_pLock (locks c ! i) = Some (if holding (wpcs c ! i) then HeldBy (WorkThread i)
        else if server_at (spc c) = Some i then HeldBy ServerThread else Free)
    \<and> (if running (workers (srv c) ! i) \<noteq> None then MutexTryLock ServerThread (locks c ! i) = (1, locks c ! i) else True)"
proof -
  have lo: "lock_ok i (server_at (spc c) = Some i) (\<exists>evs. spc c = Signal i evs) (wpcs c ! i, locks c ! i, workers (srv c) ! i)"
    using locks_invD(3) [OF threads_locks [OF assms(1)] assms(2)] .
  have "holding (wpcs c ! i)" if "running (workers (srv c) ! i) \<noteq> None" using lo that by (auto simp: lock_ok_def)
  then show ?thesis using lo by (auto simp: lock_ok_def)
qed

theorem queue_lock_excludes_witness: "m_pLock (locks after_put ! 0) = Some (HeldBy ServerThread)"
proof -
  have "0 < length (workers (srv after_put))" by code_simp
  then show ?thesis using queue_lock_excludes [OF after_put_reach, of 0] by (simp add: after_put_state)
qed

text \<open>
  C10. No wake-up is lost and there is no deadlock: whenever a queue holds a task, at most three
  lines of the server followed by at most seven of the worker lead to the worker running the task
  at the head, whatever the interleaving did before.
\<close>

theorem queued_task_is_run:
  assumes "threads_reach name lfd n c" "i < length (workers (srv c))" "queue_of i c = t # q"
  shows "\<exists>k m c'. k \<le> 3 \<and> m \<le> 7 \<and> run_schedule name lfd (replicate k (Server idle_env) @ replicate m (Work i 0)) c = Some c'
    \<and> wpcs c' ! i = AtRun \<and> running (workers (srv c') ! i) = Some t"
proof -
  obtain k c1 q' where c1: "k \<le> 3" "run_schedule name lfd (replicate k (Server idle_env)) c = Some c1" "locks_inv c1"
    "server_at (spc c1) \<noteq> Some i" "length (workers (srv c1)) = length (workers (srv c))" "queue_of i c1 = t # q'"
  proof (cases "server_at (spc c) = Some i")
    case True
    then show ?thesis using that server_releases [OF threads_locks [OF assms(1)] True assms(3), of name lfd] by auto
  qed (use that [of 0 c q] threads_locks [OF assms(1)] assms(3) in auto)
  obtain m c2 where "m \<le> lines_to_run (wpcs c1 ! i)" "run_schedule name lfd (replicate m (Work i 0)) c1 = Some c2" "runs_next i t c2"
    using worker_reaches [OF c1(3) _ c1(4,6), where name = name and lfd = lfd] assms(2) c1(5) by auto
  moreover have "lines_to_run (wpcs c1 ! i) \<le> 7" by (rule lines_to_run_le)
  ultimately show ?thesis using c1(1,2) by (intro exI [of _ k] exI [of _ m] exI [of _ c2]) (simp add: run_schedule_append runs_next_def)
qed

theorem queued_task_is_run_witness:
  "\<exists>as c. run_schedule ''location'' 3 as after_put = Some c \<and> running (workers (srv c) ! 0) = Some (demo_tasks ! 0)"
proof -
  have "0 < length (workers (srv after_put))" by code_simp
  then show ?thesis
    using queued_task_is_run [OF after_put_reach, of 0 "demo_tasks ! 0" "[demo_tasks ! 1]"]
    by (auto simp: after_put_state demo_tasks_def)
qed

text \<open>
  C26. The status queues are not protected: a state is reached in which the server is about to take an
  entry from the status queue of a worker, without a lock, while that worker is about to push one.
\<close>

theorem status_queue_race:
  "\<exists>c. threads_reach ''location'' 3 1 c \<and> spc c = Drain 0 \<and> m_vecTaskStauts (workers (srv c) ! 0) \<noteq> []
     \<and> wpcs c ! 0 = AtReport 0 \<and> m_pLock (locks c ! 0) = Some (HeldBy (WorkThread 0))"
proof -
  define c where "c = the (run_schedule ''location'' 3 (replicate 3 (env [] None) @ replicate 11 (Work 0 0)) after_put)"
  have run: "run_schedule ''location'' 3 (replicate 3 (env [] None) @ replicate 11 (Work 0 0)) after_put = Some c"
    unfolding c_def by code_simp
  then have "threads_reach ''location'' 3 1 c" by (rule run_schedule_reach [OF after_put_reach])
  moreover have "spc c = Drain 0" "m_vecTaskStauts (workers (srv c) ! 0) \<noteq> []" "wpcs c ! 0 = AtReport 0"
    "m_pLock (locks c ! 0) = Some (HeldBy (WorkThread 0))"
    unfolding c_def by code_simp+
  ultimately show ?thesis by blast
qed

end
