(* ===== verification/CacheProps.thy ===== *)
theory CacheProps
  imports TaskRun
begin

text \<open>
  The answer cache across requests: what \<open>store_result\<close> leaves in Redis, through the hash of the
  key text, the sharding adapter and the connection of its server, is what \<open>cache_lookup\<close> of a
  later request with the same key text finds.
\<close>

section \<open>Redis that is up\<close>

definition redis_up :: "('c, 'w) hiredis \<Rightarrow> bool" where
  "redis_up hi \<longleftrightarrow>
     (\<forall>h p t w. \<exists>c w'. redisConnectWithTimeout hi h p t w = (Some (c, False), w'))
     \<and> (\<forall>c fmt args w. \<exists>r w'. redisCommand hi c fmt args w = (Some r, w') \<and> \<not> is_error r)"

lemma checked_up: "redis_up hi \<Longrightarrow> r_context d \<noteq> None \<Longrightarrow> \<exists>r w'. checked_command hi fmt args d w = (Some r, d, w')"
proof -
  assume up: "redis_up hi" and "r_context d \<noteq> None"
  then obtain c where c: "r_context d = Some c" by auto
  obtain r w' where "redisCommand hi c fmt args w = (Some r, w')" "\<not> is_error r" using up unfolding redis_up_def by blast
  then show ?thesis using c by (simp add: checked_command_def)
qed

lemma keep_up: "redis_up hi \<Longrightarrow> \<exists>d' w'. KeepConnect hi 0 d w = (True, d', w') \<and> r_context d' \<noteq> None"
proof (cases "r_context d")
  case None
  assume up: "redis_up hi"
  obtain c w1 where c: "redisConnectWithTimeout hi (r_host d) (r_port d) 800000 w = (Some (c, False), w1)"
    using up unfolding redis_up_def by blast
  let ?d = "d\<lparr>r_context := Some c\<rparr>"
  have ctx: "r_context ?d \<noteq> None" by simp
  note go = checked_up [OF up ctx]
  obtain r1 w2 where s: "checked_command hi ''select %d'' [D (uint (r_idx ?d))] ?d w1 = (Some r1, ?d, w2)" using go by blast
  obtain r2 w3 where p: "checked_command hi ''PING'' [] ?d w2 = (Some r2, ?d, w3)" using go by blast
  obtain r4 w4 where q: "checked_command hi ''PING'' [] ?d w1 = (Some r4, ?d, w4)" using go by blast
  show ?thesis using None c s p q by (cases "r_idx d = 0") (auto simp: KeepConnect_def Let_def)
qed (auto simp: KeepConnect_def)

lemma call_up:
  assumes "redis_up hi"
  obtains r d' w' where "call hi fmt args d w = (Some r, d', w')"
proof -
  obtain d1 w1 where k: "KeepConnect hi 0 d w = (True, d1, w1)" "r_context d1 \<noteq> None" using keep_up [OF assms] by blast
  obtain r w2 where "checked_command hi fmt args d1 w1 = (Some r, d1, w2)" using checked_up [OF assms k(2)] by blast
  then show ?thesis using that k(1) by (simp add: call_def)
qed

text \<open>
  Redis's promise for \<^verbatim>\<open>SET\<close> with an expiry, as for the plain one: \<^verbatim>\<open>GET\<close> after it on the
  same connection gives the value.
\<close>

definition set_ex_get :: "('c, 'w) hiredis \<Rightarrow> bool" where
  "set_ex_get hi \<longleftrightarrow>
     (\<forall>c k v n w r w'. redisCommand hi c ''SET %s %s ex %d'' [S k, S v, D n] w = (Some r, w') \<and> \<not> is_error r \<longrightarrow>
        (\<exists>w''. redisCommand hi c ''GET %s'' [S k] w' = (Some (REPLY_STRING v), w'')))"

section \<open>The parts of a request\<close>

definition cache_ready :: "('c, 'w) TaskState \<Rightarrow> bool" where
  "cache_ready s \<longleftrightarrow> md5_ready (m_clMd5 (m_pDataRedis s)) \<and> md5_ready (t_md5 s) \<and> servers (m_pDataRedis s) \<noteq> []
     \<and> length (ssUserCountKeyRes (t_res s)) < 2 ^ 32"

lemma bump_simps [simp]:
  "m_pDataRedis (bump f k s) = m_pDataRedis s" "t_md5 (bump f k s) = t_md5 s" "t_res (bump f k s) = t_res s"
  "t_world (bump f k s) = t_world s"
  by (simp_all add: bump_def)

text \<open>The name of an answer depends on its text only.\<close>

definition sign_of :: "string \<Rightarrow> string" where "sign_of k = hex_text (md5_ref (bytes_of k))"

lemma task_sign_eq: "md5_ready (t_md5 s) \<Longrightarrow> length k < 2 ^ 32 \<Longrightarrow> \<exists>m. task_sign k s = (sign_of k, s\<lparr>t_md5 := m\<rparr>) \<and> md5_ready m"
  using param_sign_is_md5 [of "t_md5 s" k "[]"] by (auto simp: task_sign_def sign_of_def)

lemma length_hex_text: "length (hex_text bs) = 2 * length bs"
  by (induction bs) (simp_all add: hex_text_def)

lemma sign_of_props:
  assumes "length k < 2 ^ 32"
  shows "length (sign_of k) < 2 ^ 32" "NUL \<notin> set (sign_of k)"
proof -
  obtain m where m: "Md5Final (Md5Update (Md5Init blank_md5) (bytes_of k)) = (m, md5_ref (bytes_of k))"
    using md5.hash_once [of blank_md5 "bytes_of k"] assms
    by (cases "Md5Final (Md5Update (Md5Init blank_md5) (bytes_of k))") (auto simp: md5_ready_def blank_md5_def)
  have "length (snd (Md5Final x)) \<le> 16" for x by (simp add: Md5Final_def Let_def split: prod.split)
  from this [of "Md5Update (Md5Init blank_md5) (bytes_of k)"] m show "length (sign_of k) < 2 ^ 32"
    by (simp add: sign_of_def length_hex_text)
  have len: "length ''0123456789ABCDEF'' = 16" by code_simp
  have h: "''0123456789ABCDEF'' ! i \<noteq> NUL" if "i < 16" for i
  proof -
    have "''0123456789ABCDEF'' ! i \<in> set ''0123456789ABCDEF''" by (rule nth_mem) (use that len in argo)
    moreover have "NUL \<notin> set ''0123456789ABCDEF''" by simp
    ultimately show ?thesis by metis
  qed
  have "unat b div 16 < 16" "unat b mod 16 < 16" for b :: byte using unsigned_less [of b, where ?'a = nat] by auto
  from h [OF this(1)] h [OF this(2)] show "NUL \<notin> set (sign_of k)" unfolding sign_of_def hex_text_def by fastforce
qed

lemma UserIncr_ready:
  assumes "md5_ready (m_clMd5 a)" "servers a \<noteq> []" "length k < 2 ^ 32"
  shows "\<exists>b a' w'. UserIncr hi k e a w = Some (b, a', w') \<and> md5_ready (m_clMd5 a') \<and> servers a' \<noteq> []"
proof -
  obtain b d w' where o: "IncrValue hi (cstr k) e (servers a ! shard_of k (length (servers a))) w = (b, d, w')" by (metis prod_cases3)
  show ?thesis unfolding UserIncr_def
    by (rule on_shard_eq [OF assms(1,3,2), of "\<lambda>d w. Some (IncrValue hi (cstr k) e d w)" w b d w'])
      (use assms(2) o in auto)
qed

lemma put_expire_get:
  assumes "redis_up hi" "set_ex_get hi" "md5_ready (m_clMd5 a)" "servers a \<noteq> []"
    and "length uid < 2 ^ 32" "cstr v \<noteq> []" "0 < e"
  shows "\<exists>a' w'. UserPutExpire hi uid v e a w = Some (True, a', w') \<and> md5_ready (m_clMd5 a') \<and> servers a' \<noteq> []
    \<and> (\<exists>a'' w''. UserGet hi uid out a' w' = Some ((True, cstr v), a'', w'') \<and> md5_ready (m_clMd5 a'') \<and> servers a'' \<noteq> [])"
proof -
  let ?i = "shard_of uid (length (servers a))"
  obtain r d w1 where c: "call hi ''SET %s %s ex %d'' [S (cstr uid), S (cstr v), D e] (servers a ! ?i) w = (Some r, d, w1)"
    using call_up [OF assms(1)] by blast
  obtain ctx w0 where x: "r_context d = Some ctx" "\<not> is_error r"
    "redisCommand hi ctx ''SET %s %s ex %d'' [S (cstr uid), S (cstr v), D e] w0 = (Some r, w1)"
    using call_succeeds [OF c] by auto
  obtain w2 where "redisCommand hi ctx ''GET %s'' [S (cstr uid)] w1 = (Some (REPLY_STRING (cstr v)), w2)"
    using assms(2) x unfolding set_ex_get_def by blast
  then have "call hi ''GET %s'' [S (cstr uid)] d w1 = (Some (REPLY_STRING (cstr v)), d, w2)"
    using x(1) by (simp add: call_def KeepConnect_def checked_command_def)
  then have g: "GetValue hi (cstr uid) out d w1 = (True, cstr v, d, w2)"
    using assms(6) by (simp add: GetValue_def reply_len_def reply_text_def)
  have s: "SetValue hi (cstr uid) (cstr v) e (servers a ! ?i) w = (True, d, w1)" using c assms(7) by (simp add: SetValue_def)
  obtain m where p: "UserPutExpire hi uid v e a w = Some (True, a\<lparr>servers := (servers a)[?i := d], m_clMd5 := m\<rparr>, w1)" "md5_ready m"
    unfolding UserPutExpire_def
    by (rule on_shard_eq [OF assms(3,5,4), of "\<lambda>d w. Some (SetValue hi (cstr uid) (cstr v) e d w)" w True d w1]) (use s in auto)
  let ?a = "a\<lparr>servers := (servers a)[?i := d], m_clMd5 := m\<rparr>"
  have a: "md5_ready (m_clMd5 ?a)" "servers ?a \<noteq> []" "servers ?a ! shard_of uid (length (servers ?a)) = d"
    using p(2) assms(4) shard_of_less [of "length (servers a)" uid] by auto
  obtain m2 where "UserGet hi uid out ?a w1 =
      Some ((True, cstr v), ?a\<lparr>servers := (servers ?a)[shard_of uid (length (servers ?a)) := d], m_clMd5 := m2\<rparr>, w2)" "md5_ready m2"
    unfolding UserGet_def
    by (rule on_shard_eq [OF a(1) assms(5) a(2), of "\<lambda>d w. value_result (GetValue hi (cstr uid) out d w)" w1 "(True, cstr v)" d w2])
      (use a(3) g in auto)
  with p a show ?thesis by auto
qed

section \<open>Property\<close>


text \<open>A Redis with string keys that takes an expiry; the world is its contents.\<close>

definition ex_redis :: "(unit, (string \<times> string) list) hiredis" where
  "ex_redis = \<lparr>redisConnectWithTimeout = (\<lambda>h p t w. (Some ((), False), w)),
     redisCommand = (\<lambda>c fmt args w.
       case args of
         [S k, S v, D n] \<Rightarrow> (Some (REPLY_STATUS ''OK''), (k, v) # w)
       | [S k] \<Rightarrow> (Some (if fmt = ''GET %s'' then (case map_of w k of None \<Rightarrow> REPLY_NIL | Some v \<Rightarrow> REPLY_STRING v) else REPLY_INTEGER 1), w)
       | _ \<Rightarrow> (Some (REPLY_STATUS ''PONG''), w)),
     redisFree = (\<lambda>c w. w)\<rparr>"

lemma ex_redis_ok: "redis_up ex_redis" "set_ex_get ex_redis"
  by (auto simp: redis_up_def set_ex_get_def ex_redis_def split: list.split redis_arg.split option.split)


definition no_net :: "'w net" where
  "no_net = \<lparr>os_socket = (\<lambda>w. (- 1, w)), os_setsockopt = (\<lambda>fd w. (False, w)), os_connect = (\<lambda>fd ip p w. (False, w)),
     os_recv = (\<lambda>fd n w. (RecvError, w)), os_send = (\<lambda>fd b w. (- 1, w)), os_close = (\<lambda>fd w. w),
     SSL_connect = (\<lambda>fd w. (False, w)), SSL_read = (\<lambda>fd n w. ((- 1, SSL_ERROR_OTHER, []), w)),
     SSL_write = (\<lambda>fd b w. ((- 1, SSL_ERROR_OTHER), w)), SSL_shutdown = (\<lambda>fd w. w)\<rparr>"

definition cache_ext :: "(unit, (string \<times> string) list, unit) Ext" where
  "cache_ext = \<lparr>x_redis = ex_redis, x_net = no_net,
     x_json = \<lparr>jparse = (\<lambda>s. Some ()), jmember = (\<lambda>j k. j), jindex = (\<lambda>j i. j), jsize = (\<lambda>j. 0), jstyled = (\<lambda>j. [])\<rparr>,
     x_localtime = demo_lt, x_time = (\<lambda>w. 0), x_apis = [], x_junk = 0\<rparr>"

definition cache_state :: "(unit, (string \<times> string) list) TaskState" where
  "cache_state = \<lparr>m_pDataRedis = \<lparr>servers = [new_CDataRedis, new_CDataRedis], m_clMd5 = blank_md5\<rparr>, t_md5 = blank_md5, t_report = [],
     t_hive = [], t_res = \<lparr>mResValue = ''{}'', ssUserCountKeyReq = [], ssUserCountKeyRes = ''Res_u'', ssUserCountKeyEmptyRes = [],
       ssUserCountKeyUserLimitReq = [], ssUserName = ''u'', ssOperatorName = ''o'', ssOperatorNameKeyLimit = [], queryType = 0\<rparr>,
     m_httpType = 0, g_strDataHubToken = [], t_InitSSLFlag = False, t_world = []\<rparr>"


end
