(* ===== verification/Accounting.thy ===== *)
theory Accounting
  imports TaskProps Reports
begin

text \<open>
  The books over an interval: what a worker's tasks write into its report and its query log queue,
  the statistics thread adds up and prints, and the query log thread writes to its file. A task is
  one round of the worker's loop (\<open>Core\<close> of
  \<^verbatim>\<open>src/src/UserQueryWorkThreads/UserQueryWorkThreads.cpp\<close>) with a response of its own; what the
  other threads do to the outside world and the globals between two tasks is arbitrary.
\<close>

section \<open>The tasks of a worker\<close>

definition blank_response :: "int \<Rightarrow> BDXRESPONSE_S" where
  "blank_response junk = \<lparr>mResValue = [], ssUserCountKeyReq = [], ssUserCountKeyRes = [], ssUserCountKeyEmptyRes = [],
     ssUserCountKeyUserLimitReq = [], ssUserName = [], ssOperatorName = [], ssOperatorNameKeyLimit = [], queryType = junk\<rparr>"

text \<open>A task, and the state of the outside world and of the globals when the worker takes it.\<close>

record ('c, 'w, 'j) Job =
  j_ext :: "('c, 'w, 'j) Ext"
  j_sock :: "CTcpSocket option"
  j_queryType :: int
  j_httpType :: int
  j_token :: string
  j_SSLFlag :: bool
  j_world :: 'w

definition take_job :: "('c, 'w, 'j) Job \<Rightarrow> ('c, 'w) TaskState \<Rightarrow> ('c, 'w) TaskState" where
  "take_job j s = s\<lparr>t_res := blank_response (j_queryType j), m_httpType := j_httpType j,
     g_strDataHubToken := j_token j, t_InitSSLFlag := j_SSLFlag j, t_world := j_world j\<rparr>"

fun work_jobs :: "('c, 'w, 'j) Job list \<Rightarrow> ('c, 'w) TaskState \<Rightarrow> (int list \<times> ('c, 'w) TaskState) option" where
  "work_jobs [] s = Some ([], s)"
| "work_jobs (j # js) s =
     do {
       (iRes, s) \<leftarrow> BdxRunTask (j_ext j) (j_sock j) (take_job j s);
       (rs, s) \<leftarrow> work_jobs js s;
       Some (iRes # rs, s)
     }"

section \<open>Entries in the books\<close>

text \<open>
  The names under which users are counted, as opposed to those of the remote operator, and the
  number of log records of such a name.
\<close>

definition ordinary :: "string \<Rightarrow> bool" where
  "ordinary k \<longleftrightarrow> k \<noteq> [] \<and> drop (length k - 13) k \<noteq> ''_Remote_9999_''"

lemma not_ordinary [simp]: "\<not> ordinary []" "\<not> ordinary (u @ ''_Remote_9999_'')"
  by (simp_all add: ordinary_def)

definition record_of :: "string \<Rightarrow> HIVELOCALLOG_S \<Rightarrow> bool" where
  "record_of k l \<longleftrightarrow> strAccessKeyId l @ ''_'' @ strTelNo l = k"

definition logged :: "string \<Rightarrow> HIVELOCALLOG_S list \<Rightarrow> nat" where
  "logged k ls = length (filter (record_of k) ls)"

lemma logged_simps [simp]: "logged k [] = 0" "logged k (xs @ ys) = logged k xs + logged k ys"
  "logged k (l # ls) = (if record_of k l then 1 else 0) + logged k ls"
  by (simp_all add: logged_def)

text \<open>
  \<open>adds a b c l k\<close>: between the two states the name \<open>k\<close> got \<open>a\<close> requests, \<open>b\<close> responses,
  \<open>c\<close> empty responses and \<open>l\<close> log records.
\<close>

definition adds :: "nat \<Rightarrow> nat \<Rightarrow> nat \<Rightarrow> nat \<Rightarrow> string \<Rightarrow> ('c, 'w) TaskState \<Rightarrow> ('c, 'w) TaskState \<Rightarrow> bool" where
  "adds a b c l k s s' \<longleftrightarrow>
     m_ullReqNum (count_of k s') = m_ullReqNum (count_of k s) + of_nat a
     \<and> m_ullResTagNum (count_of k s') = m_ullResTagNum (count_of k s) + of_nat a
     \<and> m_ullResNum (count_of k s') = m_ullResNum (count_of k s) + of_nat b
     \<and> m_ullEmptyResNum (count_of k s') = m_ullEmptyResNum (count_of k s) + of_nat c
     \<and> logged k (t_hive s') = logged k (t_hive s) + l"

lemma adds_trans: "adds a b c l k s s' \<Longrightarrow> adds a' b' c' l' k s' s'' \<Longrightarrow> adds (a + a') (b + b') (c + c') (l + l') k s s''"
  by (simp add: adds_def)

text \<open>
  The effect of a phase of a request for the user \<open>name\<close>: entries only under that name and the
  operator's, which is not the name of a user.
\<close>

definition entry :: "nat \<Rightarrow> nat \<Rightarrow> nat \<Rightarrow> nat \<Rightarrow> string \<Rightarrow> ('c, 'w) TaskState \<Rightarrow> ('c, 'w) TaskState \<Rightarrow> bool" where
  "entry a b c l name s s' \<longleftrightarrow>
     (map_wf (t_report s) \<longrightarrow> map_wf (t_report s'))
     \<and> (map_of (t_report s) name \<noteq> None \<longrightarrow> map_of (t_report s') name \<noteq> None)
     \<and> (\<not> ordinary (ssOperatorName (t_res s)) \<longrightarrow> \<not> ordinary (ssOperatorName (t_res s')))
     \<and> (\<not> ordinary (ssOperatorName (t_res s)) \<longrightarrow>
          (\<forall>k. ordinary k \<longrightarrow> (if k = name then adds a b c l k s s' else adds 0 0 0 0 k s s')))"

lemma entry_trans:
  assumes "entry a b c l name s s'" "entry a' b' c' l' name s' s''"
  shows "entry (a + a') (b + b') (c + c') (l + l') name s s''"
proof -
  have "if k = name then adds (a + a') (b + b') (c + c') (l + l') k s s'' else adds 0 0 0 0 k s s''"
    if "ordinary k" "\<not> ordinary (ssOperatorName (t_res s))" for k
    using that assms adds_trans [of _ _ _ _ k s s' _ _ _ _ s''] unfolding entry_def
    by (metis add_0)
  then show ?thesis using assms by (auto simp: entry_def)
qed

lemma entry_books: "same_books s s' \<Longrightarrow> entry 0 0 0 0 name s s'"
  by (auto simp: entry_def adds_def same_books_def)

lemma entry_bump_name:
  "entry 0 1 0 0 name s (bump inc_Res name s)" "entry 0 0 1 0 name s (bump inc_EmptyRes name s)"
  "entry 0 0 0 0 name s (bump inc_TotalEmptyRes name s)"
  by (auto simp: entry_def adds_def count_of_bump map_wf_set bump_def map_at_def)

lemma entry_bump_other: "\<not> ordinary oname \<Longrightarrow> entry 0 0 0 0 name s (bump f oname s)"
  by (auto simp: entry_def adds_def count_of_bump map_wf_set bump_def map_at_def)

text \<open>The books of a request of user \<open>name\<close> that has been counted since the state \<open>s0\<close>.\<close>

definition on_account :: "nat \<Rightarrow> nat \<Rightarrow> nat \<Rightarrow> string \<Rightarrow> ('c, 'w) TaskState \<Rightarrow> ('c, 'w) TaskState \<Rightarrow> bool" where
  "on_account b c l name s0 s \<longleftrightarrow>
     ssUserName (t_res s) = name \<and> \<not> ordinary (ssOperatorName (t_res s))
     \<and> map_of (t_report s) name \<noteq> None \<and> entry 1 b c l name s0 s"

lemma on_account_entry:
  assumes "on_account b c l name s0 s" "entry 0 b' c' l' name s s'" "ssUserName (t_res s') = ssUserName (t_res s)"
  shows "on_account (b + b') (c + c') (l + l') name s0 s'"
  using assms entry_trans [of 1 b c l name s0 s 0 b' c' l' s'] by (auto simp: on_account_def entry_def)

lemma on_account_books: "on_account b c l name s0 s \<Longrightarrow> same_books s s' \<Longrightarrow> on_account b c l name s0 s'"
  using on_account_entry [OF _ entry_books, of b c l name s0 s s'] by (simp add: same_books_def)

lemma on_account_bump:
  assumes "on_account b c l name s0 s"
  shows "on_account (b + 1) c l name s0 (bump inc_Res name s)" "on_account b (c + 1) l name s0 (bump inc_EmptyRes name s)"
    "on_account b c l name s0 (bump inc_TotalEmptyRes name s)"
    "\<not> ordinary oname \<Longrightarrow> on_account b c l name s0 (bump f oname s)"
  using on_account_entry [OF assms entry_bump_name(1)] on_account_entry [OF assms entry_bump_name(2)]
    on_account_entry [OF assms entry_bump_name(3)] on_account_entry [OF assms entry_bump_other] by simp_all

text \<open>What is not in the books may change.\<close>

lemma on_account_cong:
  assumes "on_account b c l name s0 s" "t_report s' = t_report s" "t_hive s' = t_hive s"
    "ssUserName (t_res s') = ssUserName (t_res s)" "\<not> ordinary (ssOperatorName (t_res s'))"
  shows "on_account b c l name s0 s'"
  using assms unfolding on_account_def entry_def adds_def by simp

section \<open>Phase by phase\<close>

lemma count_request_account:
  "\<not> ordinary (ssOperatorName (t_res s)) \<Longrightarrow>
   outcome (\<lambda>r s'. r = Inr () \<and> on_account 0 0 0 (q_user q @ ''_'' @ q_type q) s s') (count_request X q s)"
  by (rule outcomeI)
     (auto simp: count_request_def Let_def bind_eq_Some_conv on_account_def entry_def adds_def same_books_def
        count_of_bump bump_def map_at_def map_wf_set dest!: books)

text \<open>A phase that keeps the account and fails only with \<open>OTHERERR\<close>.\<close>

abbreviation keeps_account ::
  "nat \<Rightarrow> nat \<Rightarrow> string \<Rightarrow> ('c, 'w) TaskState \<Rightarrow> (int \<times> string) + 'a \<Rightarrow> ('c, 'w) TaskState \<Rightarrow> bool" where
  "keeps_account b l name s0 r s' \<equiv> on_account b 0 l name s0 s' \<and> (\<forall>e. r = Inl e \<longrightarrow> fst e = OTHERERR)"

lemma quiet_account:
  assumes "outcome (quiet C s) m" "\<forall>e \<in> C. fst e = OTHERERR" "on_account b 0 l name s0 s"
  shows "outcome (keeps_account b l name s0) m"
  by (rule outcome_mono [OF assms(1)]) (use assms(2) on_account_books [OF assms(3)] in \<open>fastforce simp: quiet_def\<close>)

lemma cache_lookup_account:
  assumes "on_account b 0 l name s0 s"
  shows "outcome (\<lambda>r s'. case r of Inl _ \<Rightarrow> False | Inr found \<Rightarrow> on_account (if found then b + 1 else b) 0 l name s0 s') (cache_lookup X q s)"
proof (rule outcomeI)
  fix r s' assume c: "cache_lookup X q s = Some (r, s')"
  obtain k s1 where k: "task_sign (snd (query_keys q)) s = (k, s1)" by force
  have s1: "same_books s s1" using k snd_task_sign [of "snd (query_keys q)" s] by (simp add: same_books_def)
  obtain found v s2 where g: "on_redis (UserGet (x_redis X) k []) s1 = Some ((found, v), s2)"
    using c k by (auto simp: cache_lookup_def bind_eq_Some_conv)
  have a: "on_account b 0 l name s0 s2" using on_account_books [OF on_account_books [OF assms s1] books(1) [OF g]] .
  show "case r of Inl _ \<Rightarrow> False | Inr found \<Rightarrow> on_account (if found then b + 1 else b) 0 l name s0 s'"
  proof (cases found)
    case True
    let ?m = "on_redis (UserIncr (x_redis X) (ssUserCountKeyRes (t_res s2)) 0) (s2\<lparr>t_res := (t_res s2)\<lparr>mResValue := v\<rparr>\<rparr>)"
    have "Option.bind ?m (\<lambda>(_, s). Some (Inr True, bump inc_Res (ssUserName (t_res s)) s)) = Some (r, s')"
      using c True by (simp add: cache_lookup_def k g)
    then obtain s3 u where i: "?m = Some (u, s3)" and r: "r = Inr True" "s' = bump inc_Res (ssUserName (t_res s3)) s3"
      by (cases ?m) auto
    have "on_account b 0 l name s0 (s2\<lparr>t_res := (t_res s2)\<lparr>mResValue := v\<rparr>\<rparr>)"
      by (rule on_account_cong [OF a]) (use a in \<open>simp_all add: on_account_def\<close>)
    from on_account_books [OF this books(1) [OF i]] have a3: "on_account b 0 l name s0 s3" .
    then have "ssUserName (t_res s3) = name" by (simp add: on_account_def)
    with on_account_bump(1) [OF a3] show ?thesis by (simp add: r)
  next
    case False
    then have r: "r = Inr False" "s' = s2\<lparr>t_res := (t_res s2)\<lparr>ssOperatorName := q_user q @ ''_Remote_9999_''\<rparr>\<rparr>"
      using c by (simp_all add: cache_lookup_def k g)
    have "on_account b 0 l name s0 s'" unfolding r(2) by (rule on_account_cong [OF a]) simp_all
    with r(1) show ?thesis by simp
  qed
qed

lemma query_remote_account:
  assumes "on_account b 0 l name s0 s"
  shows "outcome (keeps_account b l name s0) (query_remote X q s)"
proof -
  let ?s = "bump inc_Req (ssOperatorName (t_res s)) s"
  have a: "on_account b 0 l name s0 ?s" by (rule on_account_bump(4) [OF assms]) (use assms in \<open>simp add: on_account_def\<close>)
  have c: "on_account b 0 l name s0 (s\<lparr>t_world := w\<rparr>)" "on_account b 0 l name s0 (?s\<lparr>t_world := w\<rparr>)"
    "on_account b 0 l name s0 (?s\<lparr>t_world := w, t_res := (t_res s)\<lparr>mResValue := v\<rparr>\<rparr>)" for w v
    by (rule on_account_cong [OF assms] on_account_cong [OF a]; use assms in \<open>simp add: on_account_def\<close>)+
  show ?thesis unfolding query_remote_def fail_def Let_def
    by (intro outcome_bind_pure outcome_case_prod outcome_case_option outcome_if outcome_None outcome_SomeI)
       (simp_all add: c)
qed

lemma extract_result_account:
  assumes "on_account b 0 l name s0 s"
  shows "outcome (keeps_account b l name s0) (extract_result r s)"
proof -
  have c: "on_account b 0 l name s0 (s\<lparr>t_res := (t_res s)\<lparr>mResValue := v\<rparr>\<rparr>)" for v
    by (rule on_account_cong [OF assms]) (use assms in \<open>simp_all add: on_account_def\<close>)
  show ?thesis
    by (rule outcomeI)
       (auto simp: extract_result_def fail_def Let_def bind_eq_Some_conv assms c split: prod.splits if_splits option.splits)
qed

lemma find_answer_account:
  assumes "on_account 0 0 0 name s0 s"
  shows "outcome (\<lambda>r s'. keeps_account (if r = Inr True then 1 else 0) 0 name s0 r s') (find_answer X q s)"
  unfolding find_answer_def
  apply (rule outcome_and_then [OF cache_lookup_account [OF assms]])
   apply simp
  apply (rule outcome_if)
   apply simp
  apply (rule outcome_and_then [OF query_remote_account [of 0 0 name s0]])
    apply simp
   apply simp
  apply (rule outcome_and_then [OF extract_result_account [of 0 0 name s0]])
    apply simp
   apply simp_all
  done

lemma log_query_account:
  assumes "on_account b 0 l name s0 s" "name = q_user q @ ''_'' @ q_type q"
  shows "outcome (\<lambda>r s'. r = Inr () \<and> on_account b 0 (l + 1) name s0 s') (log_query X q cached s)"
proof (rule outcomeI)
  fix r s' assume "log_query X q cached s = Some (r, s')"
  then obtain rec where h: "hive_record X q cached s = Some rec" "r = Inr ()" "s' = s\<lparr>t_hive := t_hive s @ [rec]\<rparr>"
    by (auto simp: log_query_def bind_eq_Some_conv)
  have rec: "record_of k rec \<longleftrightarrow> k = name" for k
    using h(1) assms(2) by (auto simp: hive_record_def bind_eq_Some_conv record_of_def)
  have "entry 0 0 0 1 name s s'" by (auto simp: h(3) entry_def adds_def rec)
  from on_account_entry [OF assms(1) this] show "r = Inr () \<and> on_account b 0 (l + 1) name s0 s'" by (simp add: h(2,3))
qed

lemma store_result_account:
  assumes "on_account b 0 l name s0 s"
  shows "outcome (\<lambda>r s'. keeps_account (if cached \<or> r \<noteq> Inr () then b else b + 1) l name s0 r s') (store_result X q cached s)"
proof (cases "jparse (x_json X) (mResValue (t_res s)) = None \<or> cached")
  case False
  show ?thesis
  proof (rule outcomeI)
    fix r s' assume "store_result X q cached s = Some (r, s')"
    then obtain u s1 v where
      1: "on_redis (UserIncr (x_redis X) (ssUserCountKeyRes (t_res s)) 0) s = Some (u, s1)"
      and 2: "on_redis (UserPutExpire (x_redis X) (fst (task_sign (snd (query_keys q))
            (bump inc_Res (ssOperatorName (t_res s1)) (bump inc_Res (ssUserName (t_res s1)) s1))))
            (mResValue (t_res (snd (task_sign (snd (query_keys q))
            (bump inc_Res (ssOperatorName (t_res s1)) (bump inc_Res (ssUserName (t_res s1)) s1)))))) (1825 * 86400))
            (snd (task_sign (snd (query_keys q))
            (bump inc_Res (ssOperatorName (t_res s1)) (bump inc_Res (ssUserName (t_res s1)) s1)))) = Some (v, s')" "r = Inr ()"
      using False by (auto simp: store_result_def Let_def bind_eq_Some_conv split_beta)
    have a: "on_account b 0 l name s0 s1" by (rule on_account_books [OF assms books(1) [OF 1]])
    then have "on_account (b + 1) 0 l name s0 (bump inc_Res (ssUserName (t_res s1)) s1)"
      using on_account_bump(1) [OF a] by (simp add: on_account_def)
    from on_account_bump(4) [OF this]
    have "on_account (b + 1) 0 l name s0 (bump inc_Res (ssOperatorName (t_res s1)) (bump inc_Res (ssUserName (t_res s1)) s1))"
      using a by (simp add: on_account_def)
    from on_account_books [OF this, of "snd (task_sign (snd (query_keys q)) (bump inc_Res (ssOperatorName (t_res s1)) (bump inc_Res (ssUserName (t_res s1)) s1)))"]
    have "on_account (b + 1) 0 l name s0 s'" using on_account_books [OF _ books(1) [OF 2(1)]] by (simp add: same_books_def)
    then show "keeps_account (if cached \<or> r \<noteq> Inr () then b else b + 1) l name s0 r s'" using False 2(2) by simp
  qed
qed (rule outcomeI, use assms in \<open>auto simp: store_result_def fail_def split: option.splits\<close>)

section \<open>The whole task\<close>

text \<open>What is left of a request that was refused before it was counted.\<close>

definition uncounted :: "('c, 'w) TaskState \<Rightarrow> ('c, 'w) TaskState \<Rightarrow> bool" where
  "uncounted s s' \<longleftrightarrow> t_report s' = t_report s \<and> t_hive s' = t_hive s \<and> t_res s' = t_res s"

lemma uncounted_trans: "uncounted s s' \<Longrightarrow> uncounted s' s'' \<Longrightarrow> uncounted s s''"
  by (simp add: uncounted_def)

lemma quiet_uncounted:
  "outcome (quiet C s1) m \<Longrightarrow> uncounted s s1 \<Longrightarrow> outcome (\<lambda>r s'. uncounted s s') m"
  by (erule outcome_mono) (simp add: quiet_def same_books_def uncounted_def)

definition packet_account :: "('c, 'w) TaskState \<Rightarrow> (int \<times> string) + unit \<Rightarrow> ('c, 'w) TaskState \<Rightarrow> bool" where
  "packet_account s r s' \<longleftrightarrow>
     (case r of
        Inr _ \<Rightarrow> \<exists>name. on_account 1 0 1 name s s'
      | Inl e \<Rightarrow> uncounted s s'
          \<or> fst e = OTHERERR \<and> (\<exists>name. \<exists>(b, l) \<in> {(0, 0), (0, 1), (1, 1)}. on_account b 0 l name s s'))"

lemma on_account_from: "uncounted s s0 \<Longrightarrow> on_account b c l name s0 s' \<Longrightarrow> on_account b c l name s s'"
proof -
  assume u: "uncounted s s0" and a: "on_account b c l name s0 s'"
  have "adds a b c l k s0 s' \<longleftrightarrow> adds a b c l k s s'" for a b c l k using u by (simp add: uncounted_def adds_def)
  then have "entry 1 b c l name s0 s' \<longleftrightarrow> entry 1 b c l name s s'" using u unfolding entry_def uncounted_def by simp
  with a show ?thesis by (simp add: on_account_def)
qed

lemma read_request_uncounted: "outcome (\<lambda>r s'. uncounted s s') (read_request X sock s)"
  by (rule outcome_mono [OF read_request_outcome]) (simp add: same_books_def uncounted_def)

lemma packet_account_refused:
  assumes "keeps_account b l name s0 (Inl e) s'" "uncounted s s0" "(b, l) \<in> {(0, 0), (0, 1), (1, 1)}"
  shows "packet_account s (Inl e) s'"
proof -
  have "on_account b 0 l name s s'" using assms(1) on_account_from [OF assms(2)] by simp
  with assms(1,3) have "\<exists>name. \<exists>(b, l) \<in> {(0, 0), (0, 1), (1, 1)}. on_account b 0 l name s s'" by blast
  with assms(1) show ?thesis by (simp add: packet_account_def)
qed

text \<open>From the count of the request on.\<close>

lemma counted_phases:
  assumes "uncounted s s0" "\<not> ordinary (ssOperatorName (t_res s0))"
  shows "outcome (packet_account s)
    (and_then (count_request X q s0) (\<lambda>_ s. and_then (check_quota X q tok sid s) (\<lambda>_ s.
     and_then (find_answer X q s) (\<lambda>cached s. and_then (log_query X q cached s) (\<lambda>_ s.
     and_then (store_result X q cached s) (\<lambda>_ s. charge_order X q sid s))))))"
proof -
  let ?n = "q_user q @ ''_'' @ q_type q"
  have qa: "outcome (keeps_account b l ?n s0) (check_quota X q tok sid s1)" "outcome (keeps_account b l ?n s0) (charge_order X q sid s1)"
    if "on_account b 0 l ?n s0 s1" for b l s1
    using quiet_account [OF check_quota_quiet _ that] quiet_account [OF charge_order_quiet _ that] by auto
  note refused = packet_account_refused [OF _ assms(1)]
  have last: "outcome (packet_account s) (and_then (store_result X q cached s1) (\<lambda>_ s. charge_order X q sid s))"
    if "on_account (if cached then 1 else 0) 0 1 ?n s0 s1" for cached s1
  proof (rule outcome_and_then [OF store_result_account [OF that, where X = X and q = q and cached = cached]])
    show "packet_account s (Inl e) s2"
      if "keeps_account (if cached \<or> Inl e \<noteq> Inr () then if cached then 1 else 0 else (if cached then 1 else 0) + 1) 1 ?n s0 (Inl e) s2" for e s2
      by (rule refused [where b = "if cached then 1 else 0" and l = 1]) (use that in \<open>cases cached; simp\<close>)+
    show "outcome (packet_account s) (charge_order X q sid s2)"
      if "keeps_account (if cached \<or> Inr a \<noteq> Inr () then if cached then 1 else 0 else (if cached then 1 else 0) + 1) 1 ?n s0 (Inr a) s2" for a :: unit and s2
    proof -
      have "on_account 1 0 1 ?n s0 s2" using that by (cases cached) simp_all
      moreover have "outcome (\<lambda>r s'. \<forall>e. r \<noteq> Inl e) (charge_order X q sid s2)"
        by (rule outcome_mono [OF charge_order_quiet]) (simp add: quiet_def)
      ultimately show ?thesis
        by (elim outcome_mono [OF outcome_conj [OF qa(2)]])
          (auto simp: packet_account_def split: sum.split intro: on_account_from [OF assms(1)])
    qed
  qed
  have logging: "outcome (packet_account s)
      (and_then (log_query X q cached s1) (\<lambda>_ s. and_then (store_result X q cached s) (\<lambda>_ s. charge_order X q sid s)))"
    if "on_account (if cached then 1 else 0) 0 0 ?n s0 s1" for cached s1
    by (rule outcome_and_then [OF log_query_account [OF that refl]]) (use last in auto)
  have answer: "outcome (packet_account s) (and_then (find_answer X q s1) (\<lambda>cached s.
      and_then (log_query X q cached s) (\<lambda>_ s. and_then (store_result X q cached s) (\<lambda>_ s. charge_order X q sid s))))"
    if "on_account 0 0 0 ?n s0 s1" for s1
    by (rule outcome_and_then [OF find_answer_account [OF that]]) (use refused logging in auto)
  show ?thesis
    apply (rule outcome_and_then [OF count_request_account [OF assms(2)]])
     apply simp
    apply (rule outcome_and_then [OF qa(1) [of 0 0]])
      apply simp
     apply (erule refused, simp)
    apply (rule answer, simp)
    done
qed

lemma packet_account_outcome:
  assumes "\<not> ordinary (ssOperatorName (t_res s))"
  shows "outcome (packet_account s) (BdxGetHttpPacket X sock s)"
proof -
  have e: "packet_account s (Inl e) s'" if "uncounted s s'" for e s' using that by (simp add: packet_account_def)
  have o: "\<not> ordinary (ssOperatorName (t_res s'))" if "uncounted s s'" for s' using that assms by (simp add: uncounted_def)
  show ?thesis
    unfolding BdxGetHttpPacket_def
    apply (rule outcome_and_then [OF read_request_uncounted], erule e)
    apply (rule outcome_and_then [OF quiet_uncounted [OF check_user_token_quiet]], assumption, erule e)
    apply (rule outcome_and_then [OF quiet_uncounted [OF gateway_token_quiet]], assumption, erule e)
    apply (rule outcome_and_then [OF quiet_uncounted [OF find_order_quiet]], assumption, erule e)
    apply (rule counted_phases, assumption, erule o)
    done
qed

lemma bind_maybe:
  "Option.bind (if q then m else Some (d, t)) (\<lambda>(_, s). Some (k, s)) = Some (r, s') \<Longrightarrow> s' = t \<or> (\<exists>u. m = Some (u, s'))"
  by (auto simp: bind_eq_Some_conv split: if_splits)

lemma respond_account:
  assumes "on_account b 0 l name s0 s" "BdxSendRespones X sock s = Some (r, s')"
  shows "\<exists>c \<in> {0, 1}. on_account b c l name s0 s'"
proof -
  have n: "ssUserName (t_res s) = name" using assms(1) by (simp add: on_account_def)
  obtain data where data: "response_text X s = Some data"
    using assms(2) by (auto simp: BdxSendRespones_def bind_eq_Some_conv)
  obtain ok w where w: "TcpWrite (x_net X) sock data (t_world s) = (ok, w)" by force
  let ?s = "s\<lparr>t_world := w\<rparr>"
  let ?t = "if ok then ?s else bump inc_TotalEmptyRes name (bump inc_EmptyRes name ?s)"
  have 1: "on_account b 0 l name s0 ?s"
    by (rule on_account_cong [OF assms(1)]) (use assms(1) in \<open>simp_all add: on_account_def\<close>)
  have 2: "on_account b (if ok then 0 else 1) l name s0 ?t"
    using 1 on_account_bump(3) [OF on_account_bump(2) [OF 1]] by simp
  have t: "queryType (t_res ?t) = queryType (t_res s)" "ssUserCountKeyRes (t_res ?t) = ssUserCountKeyRes (t_res s)" by simp_all
  have "Option.bind (if queryType (t_res s) = 1 then on_redis (UserIncr (x_redis X) (ssUserCountKeyRes (t_res s)) 0) ?t else Some (True, ?t))
      (\<lambda>(_, s). Some (if ok then 0 else LINKERROR, s)) = Some (r, s')"
    using assms(2) unfolding t [symmetric] by (cases ok) (simp_all add: BdxSendRespones_def data w n Let_def split: if_splits)
  then have "s' = ?t \<or> (\<exists>u. on_redis (UserIncr (x_redis X) (ssUserCountKeyRes (t_res s)) 0) ?t = Some (u, s'))"
    by (rule bind_maybe)
  then have "on_account b (if ok then 0 else 1) l name s0 s'"
  proof (elim disjE exE)
    fix u assume "on_redis (UserIncr (x_redis X) (ssUserCountKeyRes (t_res s)) 0) ?t = Some (u, s')"
    from on_account_books [OF 2 books(1) [OF this]] show ?thesis .
  qed (use 2 in \<open>simp only:\<close>)
  then show ?thesis by (cases ok) auto
qed

lemma count_empty_account:
  assumes "on_account b 0 l name s0 s" "count_empty X s = Some s'"
  shows "on_account b 1 l name s0 s'"
proof -
  have n: "ssUserName (t_res s) = name" "\<exists>y. map_of (t_report s) name = Some y" "\<not> ordinary (ssOperatorName (t_res s))"
    using assms(1) by (auto simp: on_account_def)
  then obtain u s1 where 1: "on_redis (UserIncr (x_redis X) (ssUserCountKeyEmptyRes (t_res s)) 0) s = Some (u, s1)"
    and s': "s' = (if ssOperatorName (t_res s) \<noteq> [] then bump inc_EmptyRes (ssOperatorName (t_res s)) (bump inc_EmptyRes name s1)
      else bump inc_EmptyRes name s1)"
    using assms(2) by (auto simp: count_empty_def Let_def bind_eq_Some_conv split: if_splits)
  have 2: "on_account b 1 l name s0 (bump inc_EmptyRes name s1)"
    using on_account_bump(2) [OF on_account_books [OF assms(1) books(1) [OF 1]]] by simp
  then show ?thesis unfolding s' using on_account_bump(4) [OF 2 n(3)] by simp
qed

lemma refuse_account:
  assumes "on_account b 0 l name s0 s" "refuse X sock e s = Some (r, s')"
  shows "on_account b 1 l name s0 s'"
proof -
  obtain s1 where "count_empty X s = Some s1" "BdxSendEmpyRespones X sock (error_body e) s1 = Some (r, s')"
    using assms(2) by (auto simp: refuse_def bind_eq_Some_conv empty_record_TelNo)
  then show ?thesis using on_account_books [OF count_empty_account [OF assms(1)] BdxSendEmpyRespones_books] by blast
qed

lemma uncounted_entry: "uncounted s s' \<Longrightarrow> entry 0 0 0 0 name s s'"
  by (simp add: uncounted_def entry_def adds_def)

lemma refuse_uncounted:
  assumes "uncounted s s1" "ssUserName (t_res s) = []" "ssOperatorName (t_res s) = []" "refuse X sock e s1 = Some (r, s')"
  shows "entry 0 0 0 0 [] s s'"
proof -
  have n: "ssUserName (t_res s1) = []" "ssOperatorName (t_res s1) = []" using assms(1-3) by (simp_all add: uncounted_def)
  obtain s2 where 2: "count_empty X s1 = Some s2" "BdxSendEmpyRespones X sock (error_body e) s2 = Some (r, s')"
    using assms(4) by (auto simp: refuse_def bind_eq_Some_conv empty_record_TelNo)
  have "entry 0 0 0 0 [] s1 s2"
  proof (cases "map_of (t_report s1) [] = None")
    case False
    then obtain u s3 where 3: "on_redis (UserIncr (x_redis X) (ssUserCountKeyEmptyRes (t_res s1)) 0) s1 = Some (u, s3)"
      "s2 = bump inc_EmptyRes [] s3"
      using 2(1) n by (auto simp: count_empty_def Let_def bind_eq_Some_conv)
    show ?thesis
      using entry_trans [OF entry_books [OF books(1) [OF 3(1)], of "[]"] entry_bump_other [of "[]" "[]" s3]] by (simp add: 3(2))
  qed (use 2(1) n in \<open>simp add: count_empty_def Let_def entry_books\<close>)
  from entry_trans [OF uncounted_entry [OF assms(1)] entry_trans [OF this entry_books [OF BdxSendEmpyRespones_books [OF 2(2)]]]]
  show ?thesis by simp
qed

lemma task_entry:
  assumes "BdxRunTask X m_pclSock s = Some (r, s')" "ssUserName (t_res s) = []" "ssOperatorName (t_res s) = []"
  shows "\<exists>name. \<exists>(a, b, c, l) \<in> {(0, 0, 0, 0), (1, 1, 0, 1), (1, 1, 1, 1), (1, 0, 1, 0), (1, 0, 1, 1)}. entry a b c l name s s'"
proof (cases m_pclSock)
  case None
  then have "entry 0 0 0 0 [] s s'" using assms(1) by (auto simp: BdxRunTask_def bind_eq_Some_conv entry_books)
  then show ?thesis by blast
next
  case (Some sock)
  obtain p s1 where p: "BdxGetHttpPacket X sock s = Some (p, s1)"
    and r: "(case p of Inr _ \<Rightarrow> BdxSendRespones X sock s1
             | Inl (iRes, e) \<Rightarrow> if iRes \<noteq> LINKERROR then refuse X sock e s1 else BdxSendEmpyRespones X sock e s1) = Some (r, s')"
    using assms(1) Some by (auto simp: BdxRunTask_def bind_eq_Some_conv)
  have "\<not> ordinary (ssOperatorName (t_res s))" using assms(3) by simp
  from outcomeD [OF packet_account_outcome [OF this] p] have a: "packet_account s p s1" .
  show ?thesis
  proof (cases p)
    case (Inr v)
    with a obtain name where n: "on_account 1 0 1 name s s1" by (auto simp: packet_account_def)
    have "\<exists>c \<in> {0, 1}. on_account 1 c 1 name s s'" using respond_account [OF n, of X sock r s'] r Inr by simp
    then show ?thesis by (auto simp: on_account_def)
  next
    case (Inl z)
    obtain iRes e where z: "p = Inl (iRes, e)" using Inl by (cases z) auto
    show ?thesis
    proof (cases "uncounted s s1")
      case True
      have "entry 0 0 0 0 [] s s'"
      proof (cases "iRes = LINKERROR")
        case link: True
        then have "same_books s1 s'" using r z BdxSendEmpyRespones_books by simp
        from entry_trans [OF uncounted_entry [OF True] entry_books [OF this]] show ?thesis by simp
      next
        case False
        then show ?thesis using refuse_uncounted [OF True assms(2,3)] r z by simp
      qed
      then show ?thesis by blast
    next
      case False
      then obtain name b l where n: "iRes = OTHERERR" "(b, l) \<in> {(0, 0), (0, 1), (1, 1)}" "on_account b 0 l name s s1"
        using a z by (auto simp: packet_account_def)
      have "refuse X sock e s1 = Some (r, s')" using r z n(1) by simp
      from refuse_account [OF n(3) this] n(2) show ?thesis by (auto simp: on_account_def)
    qed
  qed
qed

section \<open>An interval\<close>

text \<open>
  What one worker's tasks leave in the books under the name of a user: every response has its log
  record, every log record its request, and every request a response or an empty response.
\<close>

definition sound_counts :: "nat \<Rightarrow> nat \<Rightarrow> nat \<Rightarrow> nat \<Rightarrow> nat \<Rightarrow> bool" where
  "sound_counts n a b c l \<longleftrightarrow> b \<le> l \<and> l \<le> a \<and> a \<le> b + c \<and> c \<le> a \<and> a \<le> n"

lemma sound_counts_add: "sound_counts n a b c l \<Longrightarrow> sound_counts n' a' b' c' l' \<Longrightarrow> sound_counts (n + n') (a + a') (b + b') (c + c') (l + l')"
  by (simp add: sound_counts_def)

lemma take_job_same: "t_report (take_job j s) = t_report s" "t_hive (take_job j s) = t_hive s"
  "ssUserName (t_res (take_job j s)) = []" "ssOperatorName (t_res (take_job j s)) = []"
  by (simp_all add: take_job_def blank_response_def)

lemma adds_take_job: "adds a b c l k (take_job j s) s' \<longleftrightarrow> adds a b c l k s s'"
  by (simp add: adds_def take_job_same)

lemma job_adds:
  assumes "BdxRunTask (j_ext j) (j_sock j) (take_job j s) = Some (r, s')"
  shows "map_wf (t_report s) \<Longrightarrow> map_wf (t_report s')"
    and "ordinary k \<Longrightarrow> \<exists>a b c l. adds a b c l k s s' \<and> sound_counts 1 a b c l"
proof -
  obtain name a b c l where e: "entry a b c l name (take_job j s) s'"
    and d: "(a, b, c, l) \<in> {(0, 0, 0, 0), (1, 1, 0, 1), (1, 1, 1, 1), (1, 0, 1, 0), (1, 0, 1, 1)}"
    using task_entry [OF assms take_job_same(3,4)] by blast
  show "map_wf (t_report s) \<Longrightarrow> map_wf (t_report s')" using e by (simp add: entry_def take_job_same)
  have all: "\<forall>k. ordinary k \<longrightarrow> (if k = name then adds a b c l k s s' else adds 0 0 0 0 k s s')"
    using e not_ordinary(1) unfolding entry_def take_job_same adds_take_job by blast
  show "\<exists>a b c l. adds a b c l k s s' \<and> sound_counts 1 a b c l" if "ordinary k"
  proof (cases "k = name")
    case True
    then have "adds a b c l k s s'" using all that by simp
    moreover have "sound_counts 1 a b c l" using d by (auto simp: sound_counts_def)
    ultimately show ?thesis by blast
  next
    case False
    then have "adds 0 0 0 0 k s s'" using all that by simp
    moreover have "sound_counts 1 0 0 0 0" by (simp add: sound_counts_def)
    ultimately show ?thesis by blast
  qed
qed

lemma jobs_add:
  assumes "work_jobs js s = Some (rs, s')"
  shows "map_wf (t_report s) \<Longrightarrow> map_wf (t_report s')"
    and "ordinary k \<Longrightarrow> \<exists>a b c l. adds a b c l k s s' \<and> sound_counts (length js) a b c l"
  using assms
proof (induction js arbitrary: s rs)
  case Nil
  { case 2 then show ?case by (intro exI [of _ 0]) (simp add: adds_def sound_counts_def) }
next
  case (Cons j js)
  { case 1
    then show ?case using Cons.IH(1) by (auto simp: bind_eq_Some_conv dest: job_adds(1))
  next
    case 2
    then obtain r s1 rs' where j: "BdxRunTask (j_ext j) (j_sock j) (take_job j s) = Some (r, s1)" "work_jobs js s1 = Some (rs', s')"
      by (auto simp: bind_eq_Some_conv)
    obtain a b c l where 3: "adds a b c l k s s1" "sound_counts 1 a b c l" using job_adds(2) [OF j(1) 2(1)] by blast
    obtain a' b' c' l' where 4: "adds a' b' c' l' k s1 s'" "sound_counts (length js) a' b' c' l'" using Cons.IH(2) [OF 2(1) j(2)] by blast
    show ?case using adds_trans [OF 3(1) 4(1)] sound_counts_add [OF 3(2) 4(2)] by auto }
qed simp

lemma workers_add:
  assumes "list_all2 (\<lambda>(js, s) s'. t_report s = [] \<and> t_hive s = [] \<and> (\<exists>rs. work_jobs js s = Some (rs, s'))) ws ends"
  shows "list_all map_wf (map t_report ends)"
    and "ordinary k \<Longrightarrow> \<exists>a b c l. sound_counts (\<Sum>(js, s)\<leftarrow>ws. length js) a b c l
      \<and> (\<Sum>s\<leftarrow>ends. m_ullReqNum (count_of k s)) = of_nat a \<and> (\<Sum>s\<leftarrow>ends. m_ullResTagNum (count_of k s)) = of_nat a
      \<and> (\<Sum>s\<leftarrow>ends. m_ullResNum (count_of k s)) = of_nat b \<and> (\<Sum>s\<leftarrow>ends. m_ullEmptyResNum (count_of k s)) = of_nat c
      \<and> logged k (concat (map t_hive ends)) = l"
  using assms
proof (induction ws ends rule: list_all2_induct)
  case Nil
  { case 2 then show ?case by (intro exI [of _ 0]) (simp add: sound_counts_def) }
next
  case (Cons w ws s' ends)
  obtain js s rs where w: "w = (js, s)" "t_report s = []" "t_hive s = []" "work_jobs js s = Some (rs, s')"
    using Cons(1) by (cases w) auto
  { case 1 then show ?case using Cons.IH(1) jobs_add(1) [OF w(4)] w(2) by simp
  next
    case 2
    obtain a b c l where 3: "adds a b c l k s s'" "sound_counts (length js) a b c l" using jobs_add(2) [OF w(4) 2(1)] by blast
    have 4: "m_ullReqNum (count_of k s') = of_nat a" "m_ullResTagNum (count_of k s') = of_nat a"
      "m_ullResNum (count_of k s') = of_nat b" "m_ullEmptyResNum (count_of k s') = of_nat c" "logged k (t_hive s') = l"
      using 3(1) w(2,3) by (simp_all add: adds_def map_at_def zero_USERINFO_def)
    obtain a' b' c' l' where 5: "sound_counts (\<Sum>(js, s)\<leftarrow>ws. length js) a' b' c' l'"
      "(\<Sum>s\<leftarrow>ends. m_ullReqNum (count_of k s)) = of_nat a'" "(\<Sum>s\<leftarrow>ends. m_ullResTagNum (count_of k s)) = of_nat a'"
      "(\<Sum>s\<leftarrow>ends. m_ullResNum (count_of k s)) = of_nat b'" "(\<Sum>s\<leftarrow>ends. m_ullEmptyResNum (count_of k s)) = of_nat c'"
      "logged k (concat (map t_hive ends)) = l'"
      using Cons.IH(2) 2(1) by blast
    show ?case
      by (intro exI [of _ "a + a'"] exI [of _ "b + b'"] exI [of _ "c + c'"] exI [of _ "l + l'"] conjI)
        (use sound_counts_add [OF 3(2) 5(1)] 4 5(2-6) w(1) in simp_all) }
qed simp

text \<open>A row of the statistics and the number of records in the query log that belong to it.\<close>

definition balanced :: "USERINFO_S \<Rightarrow> nat \<Rightarrow> bool" where
  "balanced i n \<longleftrightarrow> m_ullResTagNum i = m_ullReqNum i \<and> unat (m_ullResNum i) \<le> n \<and> n \<le> unat (m_ullReqNum i)
     \<and> unat (m_ullReqNum i) \<le> unat (m_ullResNum i) + unat (m_ullEmptyResNum i) \<and> m_ullEmptyResNum i \<le> m_ullReqNum i"

lemma sound_balanced:
  assumes "sound_counts n a b c l" "n < 2 ^ 64" "m_ullReqNum i = of_nat a" "m_ullResTagNum i = of_nat a"
    "m_ullResNum i = of_nat b" "m_ullEmptyResNum i = of_nat c"
  shows "balanced i l"
proof -
  have "a < 2 ^ 64" "b < 2 ^ 64" "c < 2 ^ 64" using assms(1,2) by (auto simp: sound_counts_def)
  then have u: "unat (of_nat a :: u64) = a" "unat (of_nat b :: u64) = b" "unat (of_nat c :: u64) = c"
    by (simp_all add: unat_of_nat)
  show ?thesis using assms(1,3-6) by (simp add: balanced_def sound_counts_def word_le_nat_alt u)
qed

text \<open>
  C3. The books of an interval agree. Let every worker start with empty books and run any tasks,
  answered or refused, while the rest of the world does what it likes; then let the statistics
  thread and the query log thread make their rounds. The statistics file gets a table and the query
  log a record list such that for every user and query type: the column "QueryLimit" repeats
  "QueryReq"; each response counted has its log record; each log record belongs to a request
  counted; and each request counted appears as a response or as an empty response.
\<close>

theorem interval_books_agree:
  assumes "list_all2 (\<lambda>(js, s) s'. t_report s = [] \<and> t_hive s = [] \<and> (\<exists>rs. work_jobs js s = Some (rs, s'))) ws ends"
    and "(\<Sum>(js, s)\<leftarrow>ws. length js) < 2 ^ 64" "m_stReport c = []"
    and "count_iteration lt t1 t2 t3 c (map t_report ends) fs = Some (c', reports, fs1)"
    and "hive_iteration lt u1 u2 u3 u4 h (map t_hive ends) fs1 = Some (h', queues, fs2)"
  shows "\<exists>table records.
    (case c_pFile c' of
       None \<Rightarrow> table = []
     | Some q \<Rightarrow> file_text q fs1 = file_text q fs @ (if FileBeExists (count_name lt t1 t2 c) fs then [] else count_title)
         @ concat (map (count_row (lt t3)) table))
    \<and> (case h_pFile h' of
         None \<Rightarrow> records = []
       | Some q \<Rightarrow> file_text q fs2 = file_text q fs1 @ concat (map (hive_row (lt u4)) records))
    \<and> (\<forall>k. ordinary k \<longrightarrow> balanced (map_at zero_USERINFO k table) (logged k records))"
proof -
  obtain table where t: "\<forall>k. \<forall>f \<in> {m_ullReqNum, m_ullResNum, m_ullEmptyResNum, m_ullResTagNum}.
         f (map_at zero_USERINFO k table) = (\<Sum>r\<leftarrow>map t_report ends. f (map_at zero_USERINFO k r))"
    and p: "case c_pFile c' of
       None \<Rightarrow> table = []
     | Some q \<Rightarrow> file_text q fs1 = file_text q fs @ (if FileBeExists (count_name lt t1 t2 c) fs then [] else count_title)
         @ concat (map (count_row (lt t3)) table)"
    using count_iteration_totals [OF assms(4) workers_add(1) [OF assms(1)] assms(3)] by blast
  have q: "case h_pFile h' of
         None \<Rightarrow> concat (map t_hive ends) = []
       | Some q \<Rightarrow> file_text q fs2 = file_text q fs1 @ concat (map (hive_row (lt u4)) (concat (map t_hive ends)))"
    using hive_iteration_drains [OF assms(5)] by (auto split: option.splits)
  have "balanced (map_at zero_USERINFO k table) (logged k (concat (map t_hive ends)))" if k: "ordinary k" for k
  proof -
    obtain a b c l where s: "sound_counts (\<Sum>(js, s)\<leftarrow>ws. length js) a b c l"
      "(\<Sum>s\<leftarrow>ends. m_ullReqNum (count_of k s)) = of_nat a" "(\<Sum>s\<leftarrow>ends. m_ullResTagNum (count_of k s)) = of_nat a"
      "(\<Sum>s\<leftarrow>ends. m_ullResNum (count_of k s)) = of_nat b" "(\<Sum>s\<leftarrow>ends. m_ullEmptyResNum (count_of k s)) = of_nat c"
      "logged k (concat (map t_hive ends)) = l"
      using workers_add(2) [OF assms(1) k] by blast
    show ?thesis using t s(2-5) by (intro sound_balanced [OF s(1) assms(2), folded s(6)]) (simp_all add: comp_def)
  qed
  with p q show ?thesis by blast
qed

section \<open>An example\<close>

text \<open>Two workers, one of which has answered one request.\<close>

definition demo_job :: "(unit, unit, unit) Job" where
  "demo_job = \<lparr>j_ext = demo_ext (demo_packet demo_params), j_sock = Some demo_sock, j_queryType = 0, j_httpType = 0,
     j_token = [], j_SSLFlag = False, j_world = ()\<rparr>"

lemma demo_head: "length (http_head (demo_ext d) n s) \<le> 600 + length (show_nat n)"
proof -
  have "length (BdxGetHttpDate demo_lt 0) \<le> 100" "length http200ok \<le> 400" by code_simp+
  then show ?thesis by (simp add: http_head_def)
qed

lemma demo_work: "\<exists>r s'. work_jobs [demo_job] demo_state = Some ([r], s')"
proof -
  let ?X = "demo_ext (demo_packet demo_params)"
  obtain s1 where 1: "BdxGetHttpPacket ?X demo_sock demo_state = Some (Inr (), s1)" "length (mResValue (t_res s1)) \<le> 3"
    using demo_run by blast
  have q: "queryType (t_res s1) = 0" "m_httpType s1 = 1"
    using outcomeD [OF packet_outcome 1(1)] by (auto simp: packet_post_def demo_state_def)
  have "length (show_nat (length (mResValue (t_res s1)))) \<le> 4"
    using 1(2) by (simp add: show_nat.simps [of "length (mResValue (t_res s1))"])
  then have "\<exists>t. response_text ?X s1 = Some t"
    using 1(2) q(2) demo_head [of "demo_packet demo_params" "length (mResValue (t_res s1))" s1] by (auto simp: response_text_def Let_def)
  then have "\<exists>r s'. BdxSendRespones ?X demo_sock s1 = Some (r, s')"
    using q(1) by (auto simp: BdxSendRespones_def Let_def split: prod.split)
  moreover have "BdxTaskMainGetTime demo_lt 0 0 = Some ''2024022812''" by code_simp
  moreover have "take_job demo_job demo_state = demo_state"
    by (simp add: take_job_def demo_job_def demo_state_def blank_response_def)
  ultimately show ?thesis using 1(1) by (auto simp: BdxRunTask_def demo_job_def task_time_def)
qed

lemma print_rows_dirs: "print_rows f rs fs = Some fs' \<Longrightarrow> dirs fs' = dirs fs"
  by (induction f rs fs rule: print_rows.induct) (auto simp: os_fwrite_def put_file_def)

lemma demo_count_round:
  "\<exists>c' reports fs'. count_iteration demo_lt 0 0 0 demo_count rs demo_count_fs = Some (c', reports, fs') \<and> dirs fs' = dirs demo_count_fs"
proof -
  have o: "BdxQueryCountOpenFile demo_lt 0 0 demo_count demo_count_fs = Some (demo_count, demo_count_fs)" by code_simp
  let ?rows = "map (count_row (demo_lt 0)) (fst (BdxQueryCountGetReport (m_stReport demo_count) rs))"
  have "c_pFile demo_count \<noteq> None" by (simp add: demo_count_def)
  then obtain fs' where "print_rows (c_pFile demo_count) ?rows demo_count_fs = Some fs'"
    using print_rows_defined [of "c_pFile demo_count" ?rows demo_count_fs] by auto
  then show ?thesis using o print_rows_dirs by (auto simp: count_iteration_def split: prod.split)
qed

lemma fopen_a_dirs: "dirs fs = dirs fs0 \<Longrightarrow> fst (os_fopen p ''a'' fs) = fst (os_fopen p ''a'' fs0)"
  by (simp add: os_fopen_def is_dir_def Let_def)

lemma demo_hive_round:
  assumes "dirs fs = dirs demo_count_fs"
  shows "\<exists>h' queues fs'. hive_iteration demo_lt 0 0 0 0 demo_hive xs fs = Some (h', queues, fs')"
proof -
  obtain h1 fs1 where o: "BdxQueryHiveLogOpenFile demo_lt 0 0 0 demo_hive fs = (h1, fs1)" by force
  let ?p = "cstr (hive_name demo_lt 0 0 0 demo_hive)"
  have "fst (os_fopen ?p ''a'' demo_count_fs) \<noteq> None" by code_simp
  then have "fst (os_fopen ?p ''a'' fs) \<noteq> None" using fopen_a_dirs [OF assms] by simp
  moreover have "h_pFile h1 = fst (os_fopen ?p ''a'' fs)"
    using o by (simp add: BdxQueryHiveLogOpenFile_def hive_fopen_def Let_def demo_hive_def split: prod.splits if_splits)
      (auto simp: demo_hive_def)
  ultimately have "h_pFile h1 \<noteq> None" by simp
  then show ?thesis
    using print_rows_defined [of "h_pFile h1" "map (hive_row (demo_lt 0)) (concat xs)" fs1]
    by (auto simp: hive_iteration_def o drain_hives_rows)
qed

theorem interval_books_agree_witness:
  "\<exists>r s' c' reports fs1 h' queues fs2 table records. work_jobs [demo_job] demo_state = Some ([r], s')
     \<and> count_iteration demo_lt 0 0 0 demo_count [t_report s', []] demo_count_fs = Some (c', reports, fs1)
     \<and> hive_iteration demo_lt 0 0 0 0 demo_hive [t_hive s', []] fs1 = Some (h', queues, fs2)
     \<and> (case c_pFile c' of None \<Rightarrow> table = [] | Some q \<Rightarrow>
          file_text q fs1 = file_text q demo_count_fs @ concat (map (count_row (demo_lt 0)) table))
     \<and> balanced (map_at zero_USERINFO ''u_1'' table) (logged ''u_1'' records)"
proof -
  obtain r s' where w: "work_jobs [demo_job] demo_state = Some ([r], s')" using demo_work by blast
  obtain c' reports fs1 where c: "count_iteration demo_lt 0 0 0 demo_count [t_report s', []] demo_count_fs = Some (c', reports, fs1)"
      "dirs fs1 = dirs demo_count_fs" using demo_count_round by blast
  obtain h' queues fs2 where h: "hive_iteration demo_lt 0 0 0 0 demo_hive [t_hive s', []] fs1 = Some (h', queues, fs2)"
    using demo_hive_round [OF c(2)] by blast
  let ?ws = "[([demo_job], demo_state), ([], demo_state)]" and ?ends = "[s', demo_state]"
  have d: "t_report demo_state = []" "t_hive demo_state = []" by (simp_all add: demo_state_def)
  have 1: "list_all2 (\<lambda>(js, s) s'. t_report s = [] \<and> t_hive s = [] \<and> (\<exists>rs. work_jobs js s = Some (rs, s'))) ?ws ?ends"
    using w d by simp
  have 2: "(\<Sum>(js, s)\<leftarrow>?ws. length js) < 2 ^ 64" "m_stReport demo_count = []" by (simp_all add: demo_count_def)
  have 3: "FileBeExists (count_name demo_lt 0 0 demo_count) demo_count_fs" by code_simp
  have 4: "ordinary ''u_1''" by (simp add: ordinary_def)
  from interval_books_agree [OF 1 2, where ?t1.0 = 0 and ?t2.0 = 0 and ?t3.0 = 0 and ?u1.0 = 0 and ?u2.0 = 0 and ?u3.0 = 0 and ?u4.0 = 0
      and lt = demo_lt and fs = demo_count_fs and h = demo_hive, unfolded list.map d eqTrueI [OF 3] if_True append_Nil, OF c(1) h] 4
  have "\<exists>table records. (case c_pFile c' of None \<Rightarrow> table = [] | Some q \<Rightarrow>
        file_text q fs1 = file_text q demo_count_fs @ concat (map (count_row (demo_lt 0)) table))
      \<and> balanced (map_at zero_USERINFO ''u_1'' table) (logged ''u_1'' records)" by blast
  with w c(1) h show ?thesis by blast
qed

end
