(* ===== verification/ServerSockets.thy ===== *)
theory ServerSockets
  imports Sockets UserQueryStruct
begin

text \<open>
  Listening sockets and the start of the server: the rest of
  \<^verbatim>\<open>src/src/CommonTools/Socket/TcpSocket.cpp\<close>, the descriptor handling of
  \<^verbatim>\<open>UserQueryServerEpoll.cpp\<close> and the constructor of
  \<^verbatim>\<open>src/src/UserQueryServer/UserQueryServer.cpp\<close>. The calls of the operating system that
  these need and \<^verbatim>\<open>Sockets\<close> does not have are the record \<open>lis\<close>.
\<close>

unbundle bit_operations_syntax

section \<open>The operating system\<close>

text \<open>
  An address is the 32 bits of \<^verbatim>\<open>s_addr\<close>, in network order, and a port in host order. An
  empty address in \<open>os_bind\<close> is \<^verbatim>\<open>INADDR_ANY\<close>. \<open>os_select\<close> gives its result and whether the
  descriptor is set. The flags of \<^verbatim>\<open>fcntl\<close> are numbers; the reads give -1 on an error.
\<close>

record 'w listening =
  os_bind :: "int \<Rightarrow> string \<Rightarrow> 16 word \<Rightarrow> 'w \<Rightarrow> bool \<times> 'w"
  os_listen :: "int \<Rightarrow> int \<Rightarrow> 'w \<Rightarrow> bool \<times> 'w"
  os_accept :: "int \<Rightarrow> 'w \<Rightarrow> int \<times> 'w"
  os_select :: "int \<Rightarrow> u32 \<Rightarrow> 'w \<Rightarrow> (int \<times> bool) \<times> 'w"
  os_getpeername :: "int \<Rightarrow> 'w \<Rightarrow> (u32 \<times> 16 word) option"
  os_getsockname :: "int \<Rightarrow> 'w \<Rightarrow> (u32 \<times> 16 word) option"
  os_getfd :: "int \<Rightarrow> 'w \<Rightarrow> int"
  os_setfl :: "int \<Rightarrow> int \<Rightarrow> 'w \<Rightarrow> bool \<times> 'w"
  os_epoll_create :: "int \<Rightarrow> 'w \<Rightarrow> int \<times> 'w"
  os_epoll_ctl :: "int \<Rightarrow> bool \<Rightarrow> int \<Rightarrow> 'w \<Rightarrow> bool \<times> 'w"
  os_epoll_wait :: "int \<Rightarrow> int \<Rightarrow> int \<Rightarrow> 'w \<Rightarrow> (int \<times> bool) list option \<times> 'w"

abbreviation O_NONBLOCK :: int where "O_NONBLOCK \<equiv> 2048"

text \<open>\<^verbatim>\<open>inet_ntoa\<close>: the four bytes from the first in memory on.\<close>

definition addr_byte :: "u32 \<Rightarrow> nat \<Rightarrow> nat" where
  "addr_byte a i = unat (drop_bit (8 * i) a AND 255)"

definition inet_ntoa :: "u32 \<Rightarrow> string" where
  "inet_ntoa a =
     show_nat (addr_byte a 0) @ ''.'' @ show_nat (addr_byte a 1) @ ''.'' @ show_nat (addr_byte a 2) @ ''.'' @ show_nat (addr_byte a 3)"

section \<open>Reading a socket's addresses\<close>

definition TcpGetSip :: "'w listening \<Rightarrow> CTcpSocket \<Rightarrow> 'w \<Rightarrow> string" where
  "TcpGetSip lis s w =
     (if 0 < m_iSockfd s then case os_getpeername lis (m_iSockfd s) w of None \<Rightarrow> [] | Some (a, _) \<Rightarrow> inet_ntoa a else [])"

definition TcpGetIntIp :: "'w listening \<Rightarrow> CTcpSocket \<Rightarrow> 'w \<Rightarrow> u32" where
  "TcpGetIntIp lis s w =
     (if 0 < m_iSockfd s then case os_getpeername lis (m_iSockfd s) w of None \<Rightarrow> 0 | Some (a, _) \<Rightarrow> a else 0)"

definition TcpGetServerIp :: "'w listening \<Rightarrow> CTcpSocket \<Rightarrow> 'w \<Rightarrow> string" where
  "TcpGetServerIp lis s w =
     (if 0 < m_iSockfd s then case os_getsockname lis (m_iSockfd s) w of None \<Rightarrow> [] | Some (a, _) \<Rightarrow> inet_ntoa a else [])"

definition TcpGetPort :: "'w listening \<Rightarrow> CTcpSocket \<Rightarrow> 'w \<Rightarrow> 16 word" where
  "TcpGetPort lis s w =
     (if 0 < m_iSockfd s then case os_getpeername lis (m_iSockfd s) w of None \<Rightarrow> 0 | Some (_, p) \<Rightarrow> p else 0)"

definition TcpGetSockfd :: "CTcpSocket \<Rightarrow> int" where "TcpGetSockfd s = m_iSockfd s"
definition TcpGetSocket :: "CTcpSocket \<Rightarrow> int" where "TcpGetSocket s = m_iSockfd s"
definition TcpGetTimeOut :: "CTcpSocket \<Rightarrow> u32" where "TcpGetTimeOut s = m_uiTimeout s"
definition TcpGetConnectStatus :: "CTcpSocket \<Rightarrow> bool" where "TcpGetConnectStatus s = m_bConnect s"
definition TcpIsConnect :: "CTcpSocket \<Rightarrow> bool" where "TcpIsConnect s = m_bConnect s"

section \<open>Listening\<close>

text \<open>The arguments replace the members when they are given.\<close>

definition TcpBind :: "'w listening \<Rightarrow> CTcpSocket \<Rightarrow> 16 word \<Rightarrow> string \<Rightarrow> 'w \<Rightarrow> bool \<times> 'w" where
  "TcpBind lis s in_portPort strIp w =
     os_bind lis (m_iSockfd s) (if strIp = [] then m_strIp s else strIp)
       (if in_portPort = 0 then m_in_portPort s else in_portPort) w"

definition TcpListen :: "'w listening \<Rightarrow> CTcpSocket \<Rightarrow> int \<Rightarrow> 'w \<Rightarrow> bool \<times> 'w" where
  "TcpListen lis s iReqNum w = os_listen lis (m_iSockfd s) iReqNum w"

definition TcpAccept :: "'w listening \<Rightarrow> CTcpSocket \<Rightarrow> 'w \<Rightarrow> CTcpSocket option \<times> 'w" where
  "TcpAccept lis s w =
     (if m_iSockfd s < 0 then (None, w)
      else case os_accept lis (m_iSockfd s) w of
             (fd, w) \<Rightarrow> (if fd < 0 then None else Some (CTcpSocket_of_fd fd (m_uiTimeout s)), w))"

text \<open>-1: error, 0: timeout, 1: a connection. Every branch of the loop returns.\<close>

definition TcpTimeoutAccept :: "'w listening \<Rightarrow> CTcpSocket \<Rightarrow> 'w \<Rightarrow> int \<times> CTcpSocket option \<times> 'w" where
  "TcpTimeoutAccept lis s w =
     (case os_select lis (m_iSockfd s) (m_uiTimeout s) w of
        ((r, isset), w) \<Rightarrow>
          if r = - 1 then (- 1, None, w)
          else if r = 0 then (0, None, w)
          else if isset then
            (case os_accept lis (m_iSockfd s) w of
               (fd, w) \<Rightarrow> if fd = - 1 then (- 1, None, w) else (1, Some (CTcpSocket_of_fd fd (m_uiTimeout s)), w))
          else (- 1, None, w))"

text \<open>The descriptor flags (\<^verbatim>\<open>F_GETFD\<close>), not the status flags, go into \<^verbatim>\<open>F_SETFL\<close>.\<close>

definition TcpSetNoblock :: "'w listening \<Rightarrow> CTcpSocket \<Rightarrow> 'w \<Rightarrow> bool \<times> 'w" where
  "TcpSetNoblock lis s w = os_setfl lis (m_iSockfd s) (os_getfd lis (m_iSockfd s) w OR O_NONBLOCK) w"

section \<open>Epoll\<close>

abbreviation EPOLL :: int where "EPOLL \<equiv> 10000"
abbreviation EVENT :: int where "EVENT \<equiv> 256"

definition BdxEpollInit :: "'w listening \<Rightarrow> 'w \<Rightarrow> bool \<times> int \<times> 'w" where
  "BdxEpollInit lis w = (case os_epoll_create lis EPOLL w of (m_iEpoll, w) \<Rightarrow> (\<not> m_iEpoll < 0, m_iEpoll, w))"

definition BdxEpollWait :: "'w listening \<Rightarrow> int \<Rightarrow> int \<Rightarrow> 'w \<Rightarrow> (int \<times> bool) list option \<times> 'w" where
  "BdxEpollWait lis m_iEpoll iTimeOut w = os_epoll_wait lis m_iEpoll EVENT iTimeOut w"

definition BdxEpollClose :: "'w net \<Rightarrow> int \<Rightarrow> 'w \<Rightarrow> bool \<times> int \<times> 'w" where
  "BdxEpollClose net m_iEpoll w =
     (if m_iEpoll \<noteq> - 1 then (True, - 1, os_close net m_iEpoll w) else (True, m_iEpoll, w))"

text \<open>Registration for input; \<open>add\<close> tells \<^verbatim>\<open>EPOLL_CTL_ADD\<close> from \<^verbatim>\<open>EPOLL_CTL_DEL\<close>.\<close>

definition EpollCtr :: "'w listening \<Rightarrow> int \<Rightarrow> bool \<Rightarrow> int \<Rightarrow> 'w \<Rightarrow> bool \<times> 'w" where
  "EpollCtr lis m_iEpoll add iSockfd w = os_epoll_ctl lis m_iEpoll add iSockfd w"

section \<open>The server object\<close>

record CUserQueryServer =
  m_pclSock :: CTcpSocket
  m_uiWorkThreadNum :: u32
  m_clEpoll :: int

definition BdxInitServer :: "'w listening \<Rightarrow> CUserQueryServer \<Rightarrow> 'w \<Rightarrow> bool \<times> 'w" where
  "BdxInitServer lis srv w =
     (case TcpBind lis (m_pclSock srv) 0 [] w of
        (False, w) \<Rightarrow> (False, w)
      | (True, w) \<Rightarrow>
          (case TcpListen lis (m_pclSock srv) 1 w of
             (False, w) \<Rightarrow> (False, w)
           | (True, w) \<Rightarrow>
               (case TcpSetNoblock lis (m_pclSock srv) w of
                  (False, w) \<Rightarrow> (False, w)
                | (True, w) \<Rightarrow>
                    (case EpollCtr lis (m_clEpoll srv) True (TcpGetSockfd (m_pclSock srv)) w of
                       (False, w) \<Rightarrow> (False, w)
                     | (True, w) \<Rightarrow> (True, w)))))"

text \<open>The constructor, with the messages of its exceptions.\<close>

definition new_CUserQueryServer ::
  "'w net \<Rightarrow> 'w listening \<Rightarrow> IPPORT_S \<Rightarrow> u32 \<Rightarrow> 'w \<Rightarrow> (string + CUserQueryServer) \<times> 'w" where
  "new_CUserQueryServer net lis stServer uiWorkThreadNum w =
     (case BdxEpollInit lis w of
        (False, _, w) \<Rightarrow> (Inl ''Init Epoll error.'', w)
      | (True, epfd, w) \<Rightarrow>
          (case new_CTcpSocket net (m_uiPort stServer) (m_pchIp stServer) 300000 w of
             (None, w) \<Rightarrow> (Inl ''get socketfd error.'', w)
           | (Some sock, w) \<Rightarrow>
               let srv = \<lparr>m_pclSock = sock, m_uiWorkThreadNum = uiWorkThreadNum, m_clEpoll = epfd\<rparr> in
               (case BdxInitServer lis srv w of
                  (False, w) \<Rightarrow> (Inl ''AdInitServer error.'', w)
                | (True, w) \<Rightarrow> (Inr srv, w))))"

section \<open>What the server is started with\<close>

text \<open>A trace reads off the world which of the calls were made, in order.\<close>

datatype os_call =
    Called_epoll_create
  | Called_socket
  | Called_bind int string "16 word"
  | Called_listen int int
  | Called_setfl int int
  | Called_epoll_add int int

definition traces_start :: "'w net \<Rightarrow> 'w listening \<Rightarrow> ('w \<Rightarrow> os_call list) \<Rightarrow> bool" where
  "traces_start net lis tr \<longleftrightarrow>
     (\<forall>n w. tr (snd (os_epoll_create lis n w)) = tr w @ [Called_epoll_create])
     \<and> (\<forall>w. tr (snd (os_socket net w)) = tr w @ [Called_socket])
     \<and> (\<forall>fd ip p w. tr (snd (os_bind lis fd ip p w)) = tr w @ [Called_bind fd ip p])
     \<and> (\<forall>fd n w. tr (snd (os_listen lis fd n w)) = tr w @ [Called_listen fd n])
     \<and> (\<forall>fd fl w. tr (snd (os_setfl lis fd fl w)) = tr w @ [Called_setfl fd fl])
     \<and> (\<forall>ep fd w. tr (snd (os_epoll_ctl lis ep True fd w)) = tr w @ [Called_epoll_add ep fd])"

lemma traced:
  assumes "traces_start net lis tr"
  shows "os_epoll_create lis n w = (i, w') \<Longrightarrow> tr w' = tr w @ [Called_epoll_create]"
    "os_socket net w = (i, w') \<Longrightarrow> tr w' = tr w @ [Called_socket]"
    "os_bind lis fd ip p w = (b, w') \<Longrightarrow> tr w' = tr w @ [Called_bind fd ip p]"
    "os_listen lis fd i w = (b, w') \<Longrightarrow> tr w' = tr w @ [Called_listen fd i]"
    "os_setfl lis fd i w = (b, w') \<Longrightarrow> tr w' = tr w @ [Called_setfl fd i]"
    "os_epoll_ctl lis i True fd w = (b, w') \<Longrightarrow> tr w' = tr w @ [Called_epoll_add i fd]"
  using assms unfolding traces_start_def by (metis snd_conv)+


text \<open>A system that grants everything and keeps the trace.\<close>

definition trace_net :: "os_call list net" where
  "trace_net = \<lparr>os_socket = (\<lambda>w. (4, w @ [Called_socket])), os_setsockopt = (\<lambda>fd w. (True, w)), os_connect = (\<lambda>fd ip p w. (True, w)),
     os_recv = (\<lambda>fd n w. (Recv [], w)), os_send = (\<lambda>fd b w. (int (length b), w)), os_close = (\<lambda>fd w. w),
     SSL_connect = (\<lambda>fd w. (True, w)), SSL_read = (\<lambda>fd n w. ((0, SSL_ERROR_ZERO_RETURN, []), w)),
     SSL_write = (\<lambda>fd b w. ((int (length b), SSL_ERROR_NONE), w)), SSL_shutdown = (\<lambda>fd w. w)\<rparr>"

definition trace_lis :: "os_call list listening" where
  "trace_lis = \<lparr>os_bind = (\<lambda>fd ip p w. (True, w @ [Called_bind fd ip p])), os_listen = (\<lambda>fd n w. (True, w @ [Called_listen fd n])),
     os_accept = (\<lambda>fd w. (- 1, w)), os_select = (\<lambda>fd t w. ((0, False), w)),
     os_getpeername = (\<lambda>fd w. Some (0x0100007F, 8080)), os_getsockname = (\<lambda>fd w. None), os_getfd = (\<lambda>fd w. 1),
     os_setfl = (\<lambda>fd fl w. (True, w @ [Called_setfl fd fl])), os_epoll_create = (\<lambda>n w. (3, w @ [Called_epoll_create])),
     os_epoll_ctl = (\<lambda>ep add fd w. (True, w @ [Called_epoll_add ep fd])), os_epoll_wait = (\<lambda>ep n t w. (Some [], w))\<rparr>"


text \<open>The two forms of the peer's address agree.\<close>

lemma TcpGetSip_of_int:
  "TcpGetSip lis s w = (if 0 < m_iSockfd s \<and> os_getpeername lis (m_iSockfd s) w \<noteq> None then inet_ntoa (TcpGetIntIp lis s w) else [])"
  by (auto simp: TcpGetSip_def TcpGetIntIp_def split: option.split)

lemma inet_ntoa_localhost: "inet_ntoa 0x0100007F = ''127.0.0.1''" by code_simp

end
