(* ===== verification/StartUp.thy ===== *)
theory StartUp
  imports UserQueryMain WorkThreads
begin

text \<open>
  From the command line to the running threads: \<^verbatim>\<open>src/src/AIBdxUserQuery.cpp\<close>, the
  constructor and \<open>UserQueryMainCore\<close> of
  \<^verbatim>\<open>src/src/UserQueryMain/UserQueryMain.cpp\<close>, and the thread wrapper
  \<^verbatim>\<open>src/src/CommonTools/Thread/Thread.cpp\<close>. Arguments of the model are the results of
  the thread library, whether the constructor of a component raises an exception (and which), and
  the file system for the configuration. The threads' routines are modelled in their own theories;
  none of them returns, so waiting for them is the end of the model.
\<close>

section \<open>CThreads\<close>

text \<open>
  \<^verbatim>\<open>m_fpFun\<close> is null after each creation; starting a thread with a null routine is undefined
  (\<open>None\<close>). Of the attributes only whether new threads are detached matters. The list of the
  threads that run is the outside world.
\<close>

record 'f CThreads =
  m_iID :: nat
  m_detached :: bool
  m_vecID :: "nat list"
  m_fpFun :: "'f option"

definition new_CThreads :: "int \<Rightarrow> string + 'f CThreads" where
  "new_CThreads r =
     (if r \<noteq> 0 then Inl ''pthread_attr_init error.''
      else Inr \<lparr>m_iID = 0, m_detached = False, m_vecID = [], m_fpFun = None\<rparr>)"

definition SetRoutine :: "'f \<Rightarrow> 'f CThreads \<Rightarrow> 'f CThreads" where
  "SetRoutine fpFun t = t\<lparr>m_fpFun := Some fpFun\<rparr>"

definition ThreadAttrInit :: "int \<Rightarrow> 'f CThreads \<Rightarrow> int \<times> 'f CThreads" where
  "ThreadAttrInit r t = (if r \<noteq> 0 then (- 1, t) else (0, t\<lparr>m_detached := False\<rparr>))"

definition ThreadAttrSetDetach :: "int \<Rightarrow> 'f CThreads \<Rightarrow> int \<times> 'f CThreads" where
  "ThreadAttrSetDetach r t = (if r \<noteq> 0 then (- 1, t) else (0, t\<lparr>m_detached := True\<rparr>))"

definition ThreadAttrSet :: "bool \<Rightarrow> 'f CThreads \<Rightarrow> 'f CThreads" where
  "ThreadAttrSet pAttr t = t\<lparr>m_detached := pAttr\<rparr>"

definition CreateThead ::
  "int \<times> nat \<Rightarrow> 'o \<Rightarrow> 'f CThreads \<Rightarrow> (nat \<times> 'f \<times> 'o) list \<Rightarrow> (nat \<times> 'f CThreads \<times> (nat \<times> 'f \<times> 'o) list) option" where
  "CreateThead r pvPara t thrs =
     (case m_fpFun t of
        None \<Rightarrow> None
      | Some f \<Rightarrow>
          if fst r \<noteq> 0 then Some (0, t, thrs)
          else
            let t = t\<lparr>m_iID := snd r, m_vecID := m_vecID t @ [snd r], m_fpFun := None\<rparr>;
                t = snd (ThreadAttrInit 0 t)
            in Some (snd r, t, thrs @ [(snd r, f, pvPara)]))"

text \<open>The threads that are waited for, in order.\<close>

definition ThreadJionALL :: "'f CThreads \<Rightarrow> nat list" where "ThreadJionALL t = m_vecID t"
definition ThreadJion :: "'f CThreads \<Rightarrow> nat list" where "ThreadJion t = [m_iID t]"

definition ThreadDestroy :: "(nat \<Rightarrow> int) \<Rightarrow> 'f CThreads \<Rightarrow> int" where
  "ThreadDestroy r t = (if r (m_iID t) \<noteq> 0 then - 1 else 0)"

text \<open>The result and the threads cancelled; the loop stops at the first failure.\<close>

fun cancel_loop :: "(nat \<Rightarrow> int) \<Rightarrow> nat list \<Rightarrow> int \<times> nat list" where
  "cancel_loop r [] = (0, [])"
| "cancel_loop r (i # is) = (if r i \<noteq> 0 then (- 1, []) else (case cancel_loop r is of (rc, cs) \<Rightarrow> (rc, i # cs)))"

definition ThreadDestroyALL :: "(nat \<Rightarrow> int) \<Rightarrow> 'f CThreads \<Rightarrow> int \<times> nat list" where
  "ThreadDestroyALL r t = cancel_loop r (m_vecID t)"

lemma cancel_loop_takeWhile:
  "cancel_loop r is = (if \<forall>i \<in> set is. r i = 0 then 0 else - 1, takeWhile (\<lambda>i. r i = 0) is)"
  by (induction "is") auto

section \<open>UserQueryMainCore\<close>

text \<open>The instances of \<^verbatim>\<open>StartRoutine\<close> and the objects they are given.\<close>

datatype component = WorkObj nat | CountObj | HiveLogObj | ServerObj | UpdateObj

datatype routine = Core_WorkThreads | Core_Count | Core_HiveLog | Core_Server | Core_Update

text \<open>
  Making an object, then a thread for it. \<open>ctor\<close> gives the exception of a constructor, if any;
  \<open>crt k\<close> is the result of the \<open>k\<close>-th creation of a thread, which the program ignores.
\<close>

record MainCore =
  m_cThreads :: "routine CThreads"
  running_threads :: "(nat \<times> routine \<times> component) list"
  creations :: nat

definition spawn ::
  "(component \<Rightarrow> string option) \<Rightarrow> (nat \<Rightarrow> int \<times> nat) \<Rightarrow> routine \<Rightarrow> component \<Rightarrow> MainCore \<Rightarrow> (string + MainCore) option" where
  "spawn ctor crt f c s =
     (case ctor c of
        Some e \<Rightarrow> Some (Inl e)
      | None \<Rightarrow>
          map_option (\<lambda>(_, t, thrs). Inr \<lparr>m_cThreads = t, running_threads = thrs, creations = creations s + 1\<rparr>)
            (CreateThead (crt (creations s)) c (SetRoutine f (m_cThreads s)) (running_threads s)))"

definition then_spawn ::
  "(string + MainCore) option \<Rightarrow> (component \<Rightarrow> string option) \<Rightarrow> (nat \<Rightarrow> int \<times> nat) \<Rightarrow> routine \<Rightarrow> component \<Rightarrow> (string + MainCore) option" where
  "then_spawn r ctor crt f c =
     (case r of None \<Rightarrow> None | Some (Inl e) \<Rightarrow> Some (Inl e) | Some (Inr s) \<Rightarrow> spawn ctor crt f c s)"

fun spawn_workers ::
  "(component \<Rightarrow> string option) \<Rightarrow> (nat \<Rightarrow> int \<times> nat) \<Rightarrow> nat \<Rightarrow> nat \<Rightarrow> (string + MainCore) option \<Rightarrow> (string + MainCore) option" where
  "spawn_workers ctor crt i 0 r = r"
| "spawn_workers ctor crt i (Suc n) r = spawn_workers ctor crt (i + 1) n (then_spawn r ctor crt Core_WorkThreads (WorkObj i))"

definition UserQueryMainCore ::
  "int \<Rightarrow> (component \<Rightarrow> string option) \<Rightarrow> (nat \<Rightarrow> int \<times> nat) \<Rightarrow> nat \<Rightarrow> routine CThreads \<Rightarrow>
   (string + nat list \<times> (nat \<times> routine \<times> component) list) option" where
  "UserQueryMainCore rwlock ctor crt n t =
     (if rwlock \<noteq> 0 then Some (Inl ''pthread_rwlock_init error.'')
      else
        let r = spawn_workers ctor crt 0 n (Some (Inr \<lparr>m_cThreads = t, running_threads = [], creations = 0\<rparr>));
            r = then_spawn r ctor crt Core_Count CountObj;
            r = then_spawn r ctor crt Core_HiveLog HiveLogObj;
            r = then_spawn r ctor crt Core_Server ServerObj;
            r = then_spawn r ctor crt Core_Update UpdateObj
        in map_option (map_sum id (\<lambda>s. (ThreadJionALL (m_cThreads s), running_threads s))) r)"

section \<open>The threads that run\<close>

text \<open>What is meant to run, in the order of creation.\<close>

definition thread_plan :: "nat \<Rightarrow> (routine \<times> component) list" where
  "thread_plan n = map (\<lambda>i. (Core_WorkThreads, WorkObj i)) [0 ..< n]
     @ [(Core_Count, CountObj), (Core_HiveLog, HiveLogObj), (Core_Server, ServerObj), (Core_Update, UpdateObj)]"

definition created :: "(nat \<Rightarrow> int \<times> nat) \<Rightarrow> nat \<Rightarrow> (routine \<times> component) list \<Rightarrow> (nat \<times> routine \<times> component) list" where
  "created crt k plan = map (\<lambda>(j, p). (snd (crt j), p)) (filter (\<lambda>(j, p). fst (crt j) = 0) (enumerate k plan))"

definition spawned :: "(nat \<Rightarrow> int \<times> nat) \<Rightarrow> nat list \<Rightarrow> (routine \<times> component) list \<Rightarrow> (string + MainCore) option \<Rightarrow> bool" where
  "spawned crt ids plan r \<longleftrightarrow>
     (\<exists>s. r = Some (Inr s) \<and> creations s = length plan \<and> running_threads s = created crt 0 plan
        \<and> m_vecID (m_cThreads s) = ids @ map fst (created crt 0 plan))"

lemma enumerate_snoc: "enumerate k (xs @ [x]) = enumerate k xs @ [(k + length xs, x)]"
  by (induction xs arbitrary: k) auto

lemma spawned_spawn:
  assumes "\<forall>c. ctor c = None" "spawned crt ids plan r"
  shows "spawned crt ids (plan @ [(f, c)]) (then_spawn r ctor crt f c)"
  using assms
  by (auto simp: spawned_def then_spawn_def spawn_def CreateThead_def SetRoutine_def ThreadAttrInit_def Let_def
      created_def enumerate_snoc)

lemma spawned_workers:
  assumes "\<forall>c. ctor c = None"
  shows "spawned crt ids plan r \<Longrightarrow>
    spawned crt ids (plan @ map (\<lambda>i. (Core_WorkThreads, WorkObj i)) [i ..< i + n]) (spawn_workers ctor crt i n r)"
proof (induction n arbitrary: i plan r)
  case (Suc n)
  then show ?case
    using spawned_spawn [OF assms Suc.prems, of Core_WorkThreads "WorkObj i"] Suc.IH [of "plan @ [(Core_WorkThreads, WorkObj i)]" "then_spawn r ctor crt Core_WorkThreads (WorkObj i)" "i + 1"]
    by (simp add: upt_conv_Cons del: upt_Suc)
qed simp


text \<open>
  C21. Start-up: if no constructor raises an exception, the main thread waits for exactly the threads
  that were created, each of which runs the routine of its own kind on its own object: the workers
  in order, then statistics, query log, server and update. A creation that fails is passed over in
  silence, so the program also runs without, for example, a server thread.
\<close>

theorem threads_of_the_program:
  assumes "\<forall>c. ctor c = None" "m_vecID t = []"
  shows "UserQueryMainCore 0 ctor crt n t =
    Some (Inr (map fst (created crt 0 (thread_plan n)), created crt 0 (thread_plan n)))"
proof -
  let ?r = "Some (Inr \<lparr>m_cThreads = t, running_threads = [], creations = 0\<rparr>) :: (string + MainCore) option"
  have "spawned crt [] [] ?r" using assms(2) by (simp add: spawned_def created_def)
  from spawned_workers [OF assms(1) this, of 0 n]
  have w: "spawned crt [] (map (\<lambda>i. (Core_WorkThreads, WorkObj i)) [0 ..< n]) (spawn_workers ctor crt 0 n ?r)" by simp
  note S = spawned_spawn [OF assms(1)]
  note c = S [OF w, of Core_Count CountObj]
  note h = S [OF c, of Core_HiveLog HiveLogObj]
  note v = S [OF h, of Core_Server ServerObj]
  from S [OF v, of Core_Update UpdateObj] show ?thesis by (auto simp: UserQueryMainCore_def Let_def spawned_def ThreadJionALL_def thread_plan_def)
qed

theorem threads_of_the_program_witness:
  "UserQueryMainCore 0 (\<lambda>_. None) (\<lambda>k. if k = 4 then (11, 0) else (0, 100 + k)) 2
     \<lparr>m_iID = 0, m_detached = False, m_vecID = [], m_fpFun = None\<rparr> =
   Some (Inr ([100, 101, 102, 103, 105],
     [(100, Core_WorkThreads, WorkObj 0), (101, Core_WorkThreads, WorkObj 1), (102, Core_Count, CountObj),
      (103, Core_HiveLog, HiveLogObj), (105, Core_Update, UpdateObj)]))"
  using threads_of_the_program [of "\<lambda>_. None" "\<lparr>m_iID = 0, m_detached = False, m_vecID = [], m_fpFun = None\<rparr>"
      "\<lambda>k. if k = 4 then (11, 0) else (0, 100 + k)" 2]
  by (simp add: created_def thread_plan_def numeral_2_eq_2)

section \<open>main\<close>

text \<open>
  The options as \<^verbatim>\<open>getopt_long\<close> reports them, and the globals. \<open>fs\<close> is the file system and
  \<open>m0\<close> the members before the configuration is read. As for \<open>BdxInitConfig\<close>, the outer
  \<open>None\<close> is a call that does not return and the inner one undefined behaviour; \<open>Inl\<close> is the exit
  code.
\<close>

datatype getopt = Opt_d | Opt_n string | Opt_c string | Opt_h | Opt_v | Opt_unknown

record Globals =
  strServerName :: string
  strConfigFileName :: string
  pCMain :: "MainState option"

definition new_CUserQueryMain :: "(string \<Rightarrow> string option) \<Rightarrow> MainState \<Rightarrow> string \<Rightarrow> (string + MainState) option option" where
  "new_CUserQueryMain fs m0 pchConfFile =
     map_option (map_option (\<lambda>(ok, m). if ok then Inr m else Inl ''BdxInitConfig error.'')) (BdxInitConfig fs m0 pchConfFile)"

fun options_loop ::
  "(string \<Rightarrow> string option) \<Rightarrow> MainState \<Rightarrow> getopt list \<Rightarrow> Globals \<Rightarrow> (int + Globals) option option" where
  "options_loop fs m0 [] g = Some (Some (Inr g))"
| "options_loop fs m0 (Opt_n optarg # os) g = options_loop fs m0 os (g\<lparr>strServerName := optarg\<rparr>)"
| "options_loop fs m0 (Opt_c optarg # os) g =
     (case new_CUserQueryMain fs m0 optarg of
        None \<Rightarrow> None
      | Some None \<Rightarrow> Some None
      | Some (Some (Inl _)) \<Rightarrow> Some (Some (Inl (- 1)))
      | Some (Some (Inr m)) \<Rightarrow> options_loop fs m0 os (g\<lparr>strConfigFileName := optarg, pCMain := Some m\<rparr>))"
| "options_loop fs m0 (_ # os) g = Some (Some (Inl 0))"

text \<open>
  \<open>core\<close> is \<open>UserQueryMainCore\<close> for a configuration: it ends with an exception or, the threads
  never ending, not at all; the exit code 0 after it is for a wait that returns.
\<close>

definition main ::
  "(string \<Rightarrow> string option) \<Rightarrow> MainState \<Rightarrow> (Globals \<Rightarrow> MainState \<Rightarrow> (string + 'r) option) \<Rightarrow> getopt list \<Rightarrow> int option option" where
  "main fs m0 core os =
     (case options_loop fs m0 os \<lparr>strServerName = [], strConfigFileName = [], pCMain = None\<rparr> of
        None \<Rightarrow> None
      | Some None \<Rightarrow> Some None
      | Some (Some (Inl rc)) \<Rightarrow> Some (Some rc)
      | Some (Some (Inr g)) \<Rightarrow>
          (case (case pCMain g of Some m \<Rightarrow> Some (Some (Inr m)) | None \<Rightarrow> new_CUserQueryMain fs m0 ''./config/userQuery.conf'') of
             None \<Rightarrow> None
           | Some None \<Rightarrow> Some None
           | Some (Some (Inl _)) \<Rightarrow> Some (Some (- 1))
           | Some (Some (Inr m)) \<Rightarrow>
               Some (map_option (\<lambda>r. case r of Inl _ \<Rightarrow> - 1 | Inr _ \<Rightarrow> 0) (core g m))))"

text \<open>The table of the operators' number prefixes that \<^verbatim>\<open>main\<close> fills.\<close>

definition mapIntStringOperator :: "int \<Rightarrow> string option" where
  "mapIntStringOperator =
     [0 \<mapsto> ''unknown'', 1 \<mapsto> ''133,153,180,181,189'',
      2 \<mapsto> ''134,135,136,137,138,139,147,150,151,152,157,158,159,182,183,184,187,188,178'',
      3 \<mapsto> ''130,131,132,145,155,156,185,186,177,176'']"

section \<open>A server without a name\<close>

lemma nameless_step:
  assumes "step name s s'" "name \<noteq> ''location''" "m_mpSocketTask s = []" "registered s = []" "open_fds s = []"
    and "\<forall>x \<in> set (workers s). x = idle_worker"
  shows "m_mpSocketTask s' = [] \<and> registered s' = [] \<and> open_fds s' = [] \<and> (\<forall>x \<in> set (workers s'). x = idle_worker)"
proof -
  have idle: "workers s ! i = idle_worker" if "i < length (workers s)" for i using assms(6) that by simp
  have same: "(workers s)[i := idle_worker] = workers s" for i
    using assms(6) by (metis list_update_beyond list_update_id not_le idle)
  have loop: "free_task_loop ok i n s = s" if "i + n \<le> length (workers s)" for ok i n
    using that
  proof (induction n arbitrary: i)
    case (Suc n)
    then have w: "workers s ! i = idle_worker" by (intro idle) simp
    have e: "idle_worker\<lparr>m_vecTaskStauts := []\<rparr> = idle_worker" "m_vecTaskStauts idle_worker = []" by (simp_all add: idle_worker_def)
    show ?case using Suc by (simp add: Let_def w e same)
  qed simp
  show ?thesis using assms(1)
  proof cases
    case (free ok)
    then show ?thesis using assms loop [of 0 "length (workers s)" ok] by (simp add: BdxServerGetFreeTask_def)
  next
    case (free_status i st sts ok)
    then show ?thesis using idle [of i] by (simp add: idle_worker_def)
  next
    case (accept fd ok)
    then show ?thesis using assms
      by (auto simp: handle_event_def BdxServerGetTask_def BdxEpollCtr_def close_fd_def)
  next
    case (accept_fails ok)
    then show ?thesis using assms by (simp add: handle_event_def)
  next
    case (read fd lk)
    then show ?thesis using assms by simp
  next
    case (start i)
    then have "worker_start (workers s ! i) = workers s ! i" using idle [of i] by (simp add: worker_start_def idle_worker_def)
    then show ?thesis using assms start by simp
  next
    case (finish i iRes)
    then have "worker_finish iRes (workers s ! i) = workers s ! i" using idle [of i] by (simp add: worker_finish_def idle_worker_def)
    then show ?thesis using assms finish by simp
  qed
qed

lemma nameless_reachable:
  assumes "reachable name n s" "name \<noteq> ''location''"
  shows "m_mpSocketTask s = [] \<and> registered s = [] \<and> open_fds s = [] \<and> (\<forall>x \<in> set (workers s). x = idle_worker)"
  using assms
proof (induction rule: reachable.induct)
  case init
  then show ?case by (simp add: init_server_def)
qed (use nameless_step in blast)

text \<open>The server name is the argument of the last \<^verbatim>\<open>-n\<close>.\<close>

lemma options_name:
  "options_loop fs m0 os g = Some (Some (Inr g')) \<Longrightarrow>
   strServerName g' = strServerName g \<or> Opt_n (strServerName g') \<in> set os"
proof (induction fs m0 os g rule: options_loop.induct)
  case (3 fs m0 optarg os g)
  from 3(2) obtain m where
    "new_CUserQueryMain fs m0 optarg = Some (Some (Inr m))"
    "options_loop fs m0 os (g\<lparr>strConfigFileName := optarg, pCMain := Some m\<rparr>) = Some (Some (Inr g'))"
    by (auto split: option.splits sum.splits)
  with 3(1) show ?case by fastforce
qed fastforce+

text \<open>
  Without \<^verbatim>\<open>-n location\<close> the program starts but serves nobody: when no option of the command
  line is that one, no state that the server reaches has a task, a registered connection or an open
  one, whatever connects.
\<close>

theorem nameless_server_serves_nobody:
  assumes "options_loop fs m0 os \<lparr>strServerName = [], strConfigFileName = [], pCMain = None\<rparr> = Some (Some (Inr g))"
    and "Opt_n ''location'' \<notin> set os" "reachable (strServerName g) n s"
  shows "m_mpSocketTask s = [] \<and> registered s = [] \<and> open_fds s = [] \<and> (\<forall>x \<in> set (workers s). x = idle_worker)"
  using options_name [OF assms(1)] assms(2) by (intro nameless_reachable [OF assms(3)]) auto

theorem nameless_server_serves_nobody_witness:
  "open_fds (handle_event ''loc'' (Accept (Some 7) True) (init_server 2)) = []"
proof -
  let ?g = "\<lparr>strServerName = ''loc'', strConfigFileName = [], pCMain = None\<rparr>"
  have "options_loop fs m0 [Opt_n ''loc''] \<lparr>strServerName = [], strConfigFileName = [], pCMain = None\<rparr> = Some (Some (Inr ?g))" for fs m0
    by simp
  moreover have "reachable (strServerName ?g) 2 (handle_event ''loc'' (Accept (Some 7) True) (init_server 2))"
    by (simp, rule reachable.step [OF reachable.init], rule step.accept) (simp add: init_server_def)
  ultimately show ?thesis using nameless_server_serves_nobody [of _ _ "[Opt_n ''loc'']" ?g 2] by force
qed

text \<open>Which exit codes there are without a configuration that fails.\<close>

lemma main_leaves: "os = Opt_d # r \<or> os = Opt_h # r \<or> os = Opt_v # r \<or> os = Opt_unknown # r \<Longrightarrow> main fs m0 core os = Some (Some 0)"
  by (auto simp: main_def)

end
