(* ===== verification/Mail.thy ===== *)
theory Mail
  imports DataHub Base64
begin

text \<open>
  The mail client: \<^verbatim>\<open>CTcpSocket::TcpSendEmail\<close> of
  \<^verbatim>\<open>src/src/CommonTools/Socket/TcpSocket.cpp\<close>, over a socket that is connected to the mail
  server. \<open>None\<close> is undefined behaviour: a text that does not fit the buffer of 1024 bytes, a
  101st recipient, a character above 127 in the user name or password, or a reply that fills the
  receive buffer of 8192 bytes, which is then printed without a terminator. Printing the first three
  recipient slots, set or not, is left out.
\<close>

section \<open>One line of the dialogue\<close>

definition mail_write :: "'w net \<Rightarrow> CTcpSocket \<Rightarrow> string \<Rightarrow> 'w \<Rightarrow> (bool \<times> 'w) option" where
  "mail_write net s msg w = map_option (\<lambda>buffer. TcpWrite net s buffer w) (into_buffer 1024 msg)"

definition mail_reply :: "'w net \<Rightarrow> CTcpSocket \<Rightarrow> string \<times> 'w \<Rightarrow> (string \<times> 'w) option" where
  "mail_reply net s rw =
     (case TcpReadAll net s 8192 (snd rw) of
        (_, d, w) \<Rightarrow>
          let recvBuff = d @ drop (length d) (fst rw) in
          if NUL \<in> set recvBuff then Some (recvBuff, w) else None)"

definition mail_cmd :: "'w net \<Rightarrow> CTcpSocket \<Rightarrow> string \<Rightarrow> string \<times> 'w \<Rightarrow> (string \<times> 'w) option" where
  "mail_cmd net s msg rw =
     (case mail_write net s msg (snd rw) of
        None \<Rightarrow> None
      | Some (_, w) \<Rightarrow> mail_reply net s (fst rw, w))"

section \<open>Recipients\<close>

definition RCPT_TO :: "string \<Rightarrow> string" where "RCPT_TO a = ''RCPT TO: <'' @ a @ ''>'' @ CRLF"
definition To_header :: "string \<Rightarrow> string" where "To_header a = ''To: '' @ a @ CRLF"

text \<open>The array \<^verbatim>\<open>p[100][2048]\<close> takes the addresses.\<close>

definition add_recipient ::
  "'w net \<Rightarrow> CTcpSocket \<Rightarrow> string \<Rightarrow> string list \<Rightarrow> string \<times> 'w \<Rightarrow> (string list \<times> string \<times> 'w) option" where
  "add_recipient net s strAddress p rw =
     (if 100 \<le> length p \<or> 2048 \<le> length strAddress then None
      else map_option (\<lambda>rw. (p @ [strAddress], rw)) (mail_cmd net s (RCPT_TO strAddress) rw))"

lemma find_from_less: "find_from i [c] s = Some n \<Longrightarrow> i \<le> n \<and> n < i + length s"
  by (induction i "[c]" s rule: find_from.induct) (auto split: if_splits)

lemma str_find_less: "str_find s [c] i = Some n \<Longrightarrow> i \<le> n \<and> n < length s"
  using find_from_less [of i c "drop i s" n] by (auto simp: str_find_def split: if_splits)

function rcpt_loop ::
  "'w net \<Rightarrow> CTcpSocket \<Rightarrow> string \<Rightarrow> nat \<Rightarrow> string list \<Rightarrow> string \<times> 'w \<Rightarrow> (string list \<times> string \<times> 'w) option" where
  "rcpt_loop net s strBuffer iBegin p rw =
     (case str_find strBuffer '','' iBegin of
        Some iPos \<Rightarrow>
          (case add_recipient net s (take (iPos - iBegin) (drop iBegin strBuffer)) p rw of
             None \<Rightarrow> None
           | Some (p, rw) \<Rightarrow> rcpt_loop net s strBuffer (iPos + 1) p rw)
      | None \<Rightarrow> add_recipient net s (drop iBegin strBuffer) p rw)"
  by pat_completeness auto
termination
  by (relation "measure (\<lambda>(net, s, strBuffer, iBegin, p, rw). length strBuffer - iBegin)") (auto dest: str_find_less)

declare rcpt_loop.simps [simp del]

fun to_loop :: "'w net \<Rightarrow> CTcpSocket \<Rightarrow> string list \<Rightarrow> 'w \<Rightarrow> 'w option" where
  "to_loop net s [] w = Some w"
| "to_loop net s (a # as) w =
     (case mail_write net s (To_header a) w of None \<Rightarrow> None | Some (_, w) \<Rightarrow> to_loop net s as w)"

section \<open>TcpSendEmail\<close>

text \<open>The server and port arguments are not used. Only the result of the first write is looked at.\<close>

definition TcpSendEmail ::
  "'w net \<Rightarrow> CTcpSocket \<Rightarrow> string \<Rightarrow> string \<Rightarrow> string \<Rightarrow> string \<Rightarrow> string \<Rightarrow> string \<Rightarrow> 'w \<Rightarrow> (int \<times> 'w) option" where
  "TcpSendEmail net s username password from_addr to_list subject body w =
     do {
       (ok, w) \<leftarrow> mail_write net s (''EHLO '' @ cstr from_addr @ [LF]) w;
       if \<not> ok then Some (- 1, w)
       else do {
         rw \<leftarrow> mail_reply net s (replicate 8192 NUL, w);
         rw \<leftarrow> mail_cmd net s (''AUTH LOGIN'' @ CRLF) rw;
         user64 \<leftarrow> EncodingBase64 (cstr username);
         rw \<leftarrow> mail_cmd net s (user64 @ CRLF) rw;
         pass64 \<leftarrow> EncodingBase64 (cstr password);
         rw \<leftarrow> mail_cmd net s (pass64 @ CRLF) rw;
         rw \<leftarrow> mail_cmd net s (''MAIL FROM:<'' @ cstr from_addr @ ''>'' @ CRLF) rw;
         (p, rw) \<leftarrow> rcpt_loop net s (cstr to_list) 0 [] rw;
         rw \<leftarrow> mail_cmd net s (''DATA'' @ CRLF) rw;
         (_, w) \<leftarrow> mail_write net s (''From: '' @ cstr from_addr @ CRLF) (snd rw);
         w \<leftarrow> to_loop net s p w;
         (_, w) \<leftarrow> mail_write net s (''Subject: '' @ cstr subject @ [LF] @ CRLF) w;
         (_, w) \<leftarrow> mail_write net s (cstr body @ CRLF @ ''.'' @ CRLF) w;
         rw \<leftarrow> mail_cmd net s (''QUIT'' @ CRLF) (fst rw, w);
         Some (0, snd rw)
       }
     }"

section \<open>The dialogue as a list of messages\<close>

fun split_on :: "char \<Rightarrow> string \<Rightarrow> string list" where
  "split_on c [] = [[]]"
| "split_on c (x # xs) =
     (if x = c then [] # split_on c xs
      else (case split_on c xs of [] \<Rightarrow> [[x]] | a # as \<Rightarrow> (x # a) # as))"

lemma split_on_nonempty [simp]: "split_on c xs \<noteq> []"
  by (induction xs) (auto split: list.split)

lemma split_on_absent: "c \<notin> set xs \<Longrightarrow> split_on c xs = [xs]"
  by (induction xs) auto

lemma split_on_first: "c \<notin> set xs \<Longrightarrow> split_on c (xs @ c # ys) = xs # split_on c ys"
  by (induction xs) auto

fun mail_cmds :: "'w net \<Rightarrow> CTcpSocket \<Rightarrow> string list \<Rightarrow> string \<times> 'w \<Rightarrow> (string \<times> 'w) option" where
  "mail_cmds net s [] rw = Some rw"
| "mail_cmds net s (m # ms) rw = (case mail_cmd net s m rw of None \<Rightarrow> None | Some rw \<Rightarrow> mail_cmds net s ms rw)"

lemma rcpt_loop_eq:
  "rcpt_loop net s (u @ str) (length u) p rw =
     (if length p + length (split_on (CHR '','') str) \<le> 100 \<and> (\<forall>a \<in> set (split_on (CHR '','') str). length a < 2048)
      then map_option (\<lambda>rw. (p @ split_on (CHR '','') str, rw)) (mail_cmds net s (map RCPT_TO (split_on (CHR '','') str)) rw)
      else None)"
proof (induction "length str" arbitrary: u str p rw rule: less_induct)
  case less
  show ?case
  proof (cases "CHR '','' \<in> set str")
    case False
    then show ?thesis
      using str_find_char_None [OF False, of u]
      by (subst rcpt_loop.simps) (auto simp: split_on_absent add_recipient_def split: option.split)
  next
    case True
    then obtain a r where str: "str = a @ CHR '','' # r" "CHR '','' \<notin> set a" by (meson split_list_first)
    have f: "str_find (u @ str) '','' (length u) = Some (length u + length a)"
      using str_find_char [OF str(2), of u r] by (simp add: str)
    have IH: "rcpt_loop net s (u @ str) (Suc (length u + length a)) p' rw' =
      (if length p' + length (split_on (CHR '','') r) \<le> 100 \<and> (\<forall>a \<in> set (split_on (CHR '','') r). length a < 2048)
       then map_option (\<lambda>rw. (p' @ split_on (CHR '','') r, rw)) (mail_cmds net s (map RCPT_TO (split_on (CHR '','') r)) rw')
       else None)" for p' rw'
      using less [of r "u @ a @ '',''" p' rw'] by (simp add: str(1))
    have "0 < length (split_on (CHR '','') r)" by simp
    then show ?thesis
      by (subst rcpt_loop.simps)
        (auto simp: f [unfolded str(1)] IH [unfolded str(1)] split_on_first [OF str(2)] add_recipient_def str(1) o_def option.map_comp split: option.split)
  qed
qed


section \<open>What is sent\<close>

text \<open>
  \<open>log\<close> reads off the outside world what was sent. A server is terse when no reply fills the
  receive buffer.
\<close>

definition logs :: "'w net \<Rightarrow> ('w \<Rightarrow> string list) \<Rightarrow> bool" where
  "logs net log \<longleftrightarrow>
     (\<forall>fd b w. log (snd (os_send net fd b w)) = log w @ [b])
     \<and> (\<forall>fd w. log (snd (os_setsockopt net fd w)) = log w)
     \<and> (\<forall>fd n w. log (snd (os_recv net fd n w)) = log w)"

definition terse :: "'w net \<Rightarrow> CTcpSocket \<Rightarrow> bool" where
  "terse net s \<longleftrightarrow> (\<forall>w. length (fst (snd (TcpReadAll net s 8192 w))) < 8192)"

lemma log_TcpRead: "logs net log \<Longrightarrow> log (snd (snd (TcpRead net s n w))) = log w"
  by (auto simp: TcpRead_def logs_def split: prod.split bool.split recv_result.split) (metis snd_conv)+

lemma log_TcpReadAll_loop: "logs net log \<Longrightarrow> log (snd (snd (TcpReadAll_loop net s n buf w))) = log w"
proof (induction net s n buf w rule: TcpReadAll_loop.induct)
  case (1 net s n buf w)
  obtain i d w' where r: "TcpRead net s n w = (i, d, w')" by (metis prod_cases3)
  have "log w' = log w" using log_TcpRead [OF 1(2), of s n w] by (simp add: r)
  then show ?case using 1(1) [OF r [symmetric], OF refl] 1(2) by (subst TcpReadAll_loop.simps) (simp add: r)
qed

lemma log_TcpReadAll: "logs net log \<Longrightarrow> log (snd (snd (TcpReadAll net s n w))) = log w"
  by (simp add: TcpReadAll_def log_TcpReadAll_loop)

lemma log_mail_write:
  assumes "logs net log" "msg \<noteq> []"
  shows "if length msg < 1024 then \<exists>ok w'. mail_write net s msg w = Some (ok, w') \<and> log w' = log w @ [msg]
    else mail_write net s msg w = None"
  using assms by (auto simp: mail_write_def into_buffer_def TcpWrite_def logs_def split: prod.split) (metis snd_conv)

text \<open>The receive buffer keeps its last terminator; \<open>l\<close> is the log.\<close>

definition mail_state :: "('w \<Rightarrow> string list) \<Rightarrow> string list \<Rightarrow> string \<times> 'w \<Rightarrow> bool" where
  "mail_state log l rw \<longleftrightarrow> length (fst rw) = 8192 \<and> last (fst rw) = NUL \<and> log (snd rw) = l"

lemma mail_reply_ok:
  assumes "logs net log" "terse net s" "mail_state log l rw"
  shows "\<exists>rw'. mail_reply net s rw = Some rw' \<and> mail_state log l rw'"
proof -
  obtain i d w' where r: "TcpReadAll net s 8192 (snd rw) = (i, d, w')" by (metis prod_cases3)
  have d: "length d < 8192" using assms(2) unfolding terse_def by (metis r fst_conv snd_conv)
  have w': "log w' = l" using log_TcpReadAll [OF assms(1), of s 8192 "snd rw"] assms(3) by (simp add: r mail_state_def)
  have ne: "drop (length d) (fst rw) \<noteq> []" using d assms(3) by (auto simp: mail_state_def)
  then have "last (d @ drop (length d) (fst rw)) = NUL" using assms(3) by (simp add: mail_state_def)
  moreover from this ne have "NUL \<in> set (d @ drop (length d) (fst rw))" by (metis append_is_Nil_conv last_in_set)
  moreover have "length (d @ drop (length d) (fst rw)) = 8192" using d assms(3) by (simp add: mail_state_def)
  ultimately show ?thesis using w' by (simp add: mail_reply_def r Let_def mail_state_def)
qed

lemma mail_cmd_ok:
  assumes "logs net log" "terse net s" "mail_state log l rw" "msg \<noteq> []"
  shows "if length msg < 1024 then \<exists>rw'. mail_cmd net s msg rw = Some rw' \<and> mail_state log (l @ [msg]) rw'
    else mail_cmd net s msg rw = None"
proof (cases "length msg < 1024")
  case True
  then obtain ok w' where w: "mail_write net s msg (snd rw) = Some (ok, w')" "log w' = log (snd rw) @ [msg]"
    using log_mail_write [OF assms(1,4), of s "snd rw"] by auto
  have "mail_state log (l @ [msg]) (fst rw, w')" using assms(3) w(2) by (simp add: mail_state_def)
  from mail_reply_ok [OF assms(1,2) this] w(1) True show ?thesis by (simp add: mail_cmd_def)
next
  case False
  then show ?thesis using log_mail_write [OF assms(1,4), of s "snd rw"] by (simp add: mail_cmd_def)
qed

lemma mail_cmds_ok:
  assumes "logs net log" "terse net s"
  shows "mail_state log l rw \<Longrightarrow> [] \<notin> set ms \<Longrightarrow>
    if \<forall>m \<in> set ms. length m < 1024 then \<exists>rw'. mail_cmds net s ms rw = Some rw' \<and> mail_state log (l @ ms) rw'
    else mail_cmds net s ms rw = None"
proof (induction ms arbitrary: l rw)
  case (Cons m ms)
  show ?case
  proof (cases "length m < 1024")
    case True
    then obtain rw1 where "mail_cmd net s m rw = Some rw1" "mail_state log (l @ [m]) rw1"
      using mail_cmd_ok [OF assms Cons.prems(1), of m] Cons.prems(2) by auto
    then show ?thesis using Cons.IH [of "l @ [m]" rw1] Cons.prems(2) True by (auto split: if_splits)
  next
    case False
    then show ?thesis using mail_cmd_ok [OF assms Cons.prems(1), of m] Cons.prems(2) by auto
  qed
qed simp

lemma to_loop_ok:
  assumes "logs net log"
  shows "if \<forall>a \<in> set as. length (To_header a) < 1024 then \<exists>w'. to_loop net s as w = Some w' \<and> log w' = log w @ map To_header as
    else to_loop net s as w = None"
proof (induction as arbitrary: w)
  case (Cons a as)
  have ne: "To_header a \<noteq> []" by (simp add: To_header_def)
  show ?case
  proof (cases "length (To_header a) < 1024")
    case True
    then obtain ok w1 where "mail_write net s (To_header a) w = Some (ok, w1)" "log w1 = log w @ [To_header a]"
      using log_mail_write [OF assms ne, of s w] by auto
    then show ?thesis using Cons.IH [of w1] True by (auto split: if_splits)
  qed (use log_mail_write [OF assms ne, of s w] in auto)
qed simp

text \<open>
  The abstract client only keeps the messages; each part of the real one is related to it.
\<close>

definition sending :: "string list \<Rightarrow> string list \<Rightarrow> string list option" where
  "sending ms l = (if \<forall>m \<in> set ms. length m < 1024 then Some (l @ ms) else None)"

lemma rel_option_bind:
  "rel_option R x y \<Longrightarrow> (\<And>a b. R a b \<Longrightarrow> rel_option S (f a) (g b)) \<Longrightarrow> rel_option S (x \<bind> f) (y \<bind> g)"
  by (cases x; cases y) auto

lemma rel_option_bind_Some:
  "rel_option R x (Some l) \<Longrightarrow> (\<And>a. R a l \<Longrightarrow> rel_option S (f a) y) \<Longrightarrow> rel_option S (x \<bind> f) y"
  by (cases x) auto

lemma rel_option_bind_last:
  "rel_option R x y \<Longrightarrow> (\<And>a b. R a b \<Longrightarrow> rel_option S (f a) (Some b)) \<Longrightarrow> rel_option S (x \<bind> f) y"
  by (cases x; cases y) auto

lemma rel_mail_write:
  "logs net log \<Longrightarrow> msg \<noteq> [] \<Longrightarrow> log w = l \<Longrightarrow>
   rel_option (\<lambda>(_, w') l'. log w' = l') (mail_write net s msg w) (sending [msg] l)"
  using log_mail_write [of net log msg s w] by (auto simp: sending_def split: if_splits)

lemma rel_mail_cmd:
  "logs net log \<Longrightarrow> terse net s \<Longrightarrow> msg \<noteq> [] \<Longrightarrow> mail_state log l rw \<Longrightarrow>
   rel_option (\<lambda>rw' l'. mail_state log l' rw') (mail_cmd net s msg rw) (sending [msg] l)"
  using mail_cmd_ok [of net log s l rw msg] by (auto simp: sending_def split: if_splits)

lemma rel_to_loop:
  "logs net log \<Longrightarrow> log w = l \<Longrightarrow>
   rel_option (\<lambda>w' l'. log w' = l') (to_loop net s as w) (sending (map To_header as) l)"
  using to_loop_ok [of net log as s w] by (auto simp: sending_def split: if_splits)

lemma rel_rcpt_loop:
  assumes "logs net log" "terse net s" "mail_state log l rw"
  shows "rel_option (\<lambda>(p, rw') l'. p = split_on (CHR '','') str \<and> mail_state log l' rw') (rcpt_loop net s str 0 [] rw)
    (if length (split_on (CHR '','') str) \<le> 100 then sending (map RCPT_TO (split_on (CHR '','') str)) l else None)"
proof -
  let ?as = "split_on (CHR '','') str"
  have "length a < 2048" if "length (RCPT_TO a) < 1024" for a using that by (simp add: RCPT_TO_def)
  then have r: "rcpt_loop net s str 0 [] rw =
    (if length ?as \<le> 100 \<and> (\<forall>a \<in> set ?as. length a < 2048)
     then map_option (\<lambda>rw. (?as, rw)) (mail_cmds net s (map RCPT_TO ?as) rw) else None)"
    and long: "(\<forall>m \<in> set (map RCPT_TO ?as). length m < 1024) \<Longrightarrow> (\<forall>a \<in> set ?as. length a < 2048)"
    using rcpt_loop_eq [of net s "[]" str "[]" rw] by auto
  have "[] \<notin> set (map RCPT_TO ?as)" by (auto simp: RCPT_TO_def)
  from mail_cmds_ok [OF assms this] long show ?thesis
    by (cases "\<forall>m \<in> set (map RCPT_TO ?as). length m < 1024") (auto simp: r sending_def simp del: set_map)
qed

text \<open>The messages of the whole dialogue.\<close>

definition mail_dialogue :: "string \<Rightarrow> string \<Rightarrow> string \<Rightarrow> string \<Rightarrow> string \<Rightarrow> string \<Rightarrow> string list" where
  "mail_dialogue user64 pass64 from_addr to_list subject body =
     [''EHLO '' @ from_addr @ [LF], ''AUTH LOGIN'' @ CRLF, user64 @ CRLF, pass64 @ CRLF,
      ''MAIL FROM:<'' @ from_addr @ ''>'' @ CRLF]
     @ map RCPT_TO (split_on (CHR '','') to_list)
     @ [''DATA'' @ CRLF, ''From: '' @ from_addr @ CRLF]
     @ map To_header (split_on (CHR '','') to_list)
     @ [''Subject: '' @ subject @ [LF] @ CRLF, body @ CRLF @ ''.'' @ CRLF, ''QUIT'' @ CRLF]"

lemma sending_bind: "sending ms l \<bind> sending ns = sending (ms @ ns) l"
  by (auto simp: sending_def)

lemma sending_bind_then: "sending ms l \<bind> (\<lambda>l. sending ns l \<bind> g) = sending (ms @ ns) l \<bind> g"
  by (auto simp: sending_def)

lemma mail_rel:
  assumes net: "logs net log" "terse net s"
    and ehlo: "fst (os_send net (m_iSockfd s) (''EHLO '' @ cstr from_addr @ [LF]) w) = int (length (cstr from_addr)) + 6"
    and b64: "EncodingBase64 (cstr username) = Some u" "EncodingBase64 (cstr password) = Some p"
  shows "rel_option (\<lambda>(r, w') l. r = 0 \<and> log w' = l)
    (TcpSendEmail net s username password from_addr to_list subject body w)
    (if length (split_on (CHR '','') (cstr to_list)) \<le> 100
     then sending (mail_dialogue u p (cstr from_addr) (cstr to_list) (cstr subject) (cstr body)) (log w) else None)"
proof -
  let ?as = "split_on (CHR '','') (cstr to_list)"
  let ?ehlo = "''EHLO '' @ cstr from_addr @ [LF]"
  have first: "rel_option (\<lambda>(ok, w') l'. ok \<and> log w' = l') (mail_write net s ?ehlo w) (sending [?ehlo] (log w))"
    using rel_mail_write [OF net(1), of ?ehlo w "log w" s] ehlo
    by (auto simp: mail_write_def into_buffer_def TcpWrite_def sending_def split: prod.split)
  have reply: "rel_option (\<lambda>rw l'. mail_state log l' rw) (mail_reply net s (replicate 8192 NUL, w')) (Some (log w'))" for w'
    using mail_reply_ok [OF net, of "log w'" "(replicate 8192 NUL, w')"] by (auto simp: mail_state_def last_replicate)
  note C = rel_mail_cmd [OF net] and W = rel_mail_write [OF net(1)]
  have "rel_option (\<lambda>(r, w') l. r = 0 \<and> log w' = l)
    (TcpSendEmail net s username password from_addr to_list subject body w)
    (do {
       l \<leftarrow> sending [?ehlo] (log w);
       l \<leftarrow> sending [''AUTH LOGIN'' @ CRLF] l;
       l \<leftarrow> sending [u @ CRLF] l;
       l \<leftarrow> sending [p @ CRLF] l;
       l \<leftarrow> sending [''MAIL FROM:<'' @ cstr from_addr @ ''>'' @ CRLF] l;
       l \<leftarrow> (if length ?as \<le> 100 then sending (map RCPT_TO ?as) l else None);
       l \<leftarrow> sending [''DATA'' @ CRLF] l;
       l \<leftarrow> sending [''From: '' @ cstr from_addr @ CRLF] l;
       l \<leftarrow> sending (map To_header ?as) l;
       l \<leftarrow> sending [''Subject: '' @ cstr subject @ [LF] @ CRLF] l;
       l \<leftarrow> sending [cstr body @ CRLF @ ''.'' @ CRLF] l;
       sending [''QUIT'' @ CRLF] l \<bind> Some
     })"
    unfolding TcpSendEmail_def b64 bind.bind_lunit
    apply (rule rel_option_bind [OF first], clarsimp)
    apply (rule rel_option_bind_Some [OF reply])
    apply (rule rel_option_bind [OF C], simp, assumption)+
    apply (rule rel_option_bind [OF rel_rcpt_loop [OF net]], assumption, clarsimp)
    apply (rule rel_option_bind [OF C], simp, assumption)
    apply (rule rel_option_bind [OF W], simp, simp add: mail_state_def, clarsimp)
    apply (rule rel_option_bind [OF rel_to_loop [OF net(1)]], simp)
    apply (rule rel_option_bind [OF W], simp, (assumption | rule refl), clarsimp)+
    apply (rule rel_option_bind_last [OF C], simp)
     apply (simp_all add: mail_state_def)
    done
  note R = this
  show ?thesis
  proof (cases "length ?as \<le> 100")
    case True
    have m: "mail_dialogue u p (cstr from_addr) (cstr to_list) (cstr subject) (cstr body) =
      [?ehlo] @ [''AUTH LOGIN'' @ CRLF] @ [u @ CRLF] @ [p @ CRLF] @ [''MAIL FROM:<'' @ cstr from_addr @ ''>'' @ CRLF]
      @ map RCPT_TO ?as @ [''DATA'' @ CRLF] @ [''From: '' @ cstr from_addr @ CRLF] @ map To_header ?as
      @ [''Subject: '' @ cstr subject @ [LF] @ CRLF] @ [cstr body @ CRLF @ ''.'' @ CRLF] @ [''QUIT'' @ CRLF]"
      unfolding mail_dialogue_def by simp
    show ?thesis using R unfolding m by (simp only: True if_True sending_bind sending_bind_then bind_runit append_assoc)
  next
    case False
    show ?thesis using R by (simp only: False if_False bind.bind_lzero bind_rzero)
  qed
qed

section \<open>Properties\<close>

text \<open>
  C24. The mail dialogue: if everything fits its buffer, \<open>TcpSendEmail\<close> returns and has sent exactly
  the lines of the dialogue in order, with one RCPT command and one To header for each of the
  comma-separated recipients; if there are more than 100 recipients or a line has 1024 or more
  characters - the whole body is one line - a buffer is overrun.
\<close>

theorem mail_is_sent_or_overruns:
  assumes "logs net log" "terse net s"
    and "fst (os_send net (m_iSockfd s) (''EHLO '' @ cstr from_addr @ [LF]) w) = int (length (cstr from_addr)) + 6"
    and "EncodingBase64 (cstr username) = Some u" "EncodingBase64 (cstr password) = Some p"
    and "msgs = mail_dialogue u p (cstr from_addr) (cstr to_list) (cstr subject) (cstr body)"
  shows "if length (split_on (CHR '','') (cstr to_list)) \<le> 100 \<and> (\<forall>m \<in> set msgs. length m < 1024)
    then \<exists>w'. TcpSendEmail net s username password from_addr to_list subject body w = Some (0, w') \<and> log w' = log w @ msgs
    else TcpSendEmail net s username password from_addr to_list subject body w = None"
  using mail_rel [OF assms(1-5), of to_list subject body] unfolding assms(6) [symmetric]
  by (cases "TcpSendEmail net s username password from_addr to_list subject body w") (auto simp: sending_def split: if_splits)

text \<open>A mail server that answers each message with one line; its world has what it got.\<close>

definition mail_net :: "(string list \<times> bool) net" where
  "mail_net = \<lparr>os_socket = (\<lambda>w. (3, w)), os_setsockopt = (\<lambda>fd w. (True, w)), os_connect = (\<lambda>fd ip p w. (True, w)),
     os_recv = (\<lambda>fd n (l, fresh). (if fresh then Recv ''250 ok'' else RecvAgain, (l, False))),
     os_send = (\<lambda>fd b (l, fresh). (int (length b), (l @ [b], True))), os_close = (\<lambda>fd w. w),
     SSL_connect = (\<lambda>fd w. (True, w)), SSL_read = (\<lambda>fd n w. ((0, SSL_ERROR_ZERO_RETURN, []), w)),
     SSL_write = (\<lambda>fd b w. ((0, SSL_ERROR_OTHER), w)), SSL_shutdown = (\<lambda>fd w. w)\<rparr>"

lemma mail_net_ok: "logs mail_net fst" "terse mail_net (CTcpSocket_of_fd 3 0)"
  by (auto simp: logs_def terse_def mail_net_def TcpReadAll_def TcpReadAll_loop.simps TcpRead_def CTcpSocket_of_fd_def)

theorem mail_is_sent_or_overruns_witness:
  "(\<exists>w'. TcpSendEmail mail_net (CTcpSocket_of_fd 3 0) ''u'' ''p'' ''a@b'' ''c@d,e@f'' ''Api'' ''down'' ([], False) = Some (0, w')
     \<and> take 3 (drop 5 (fst w')) = [''RCPT TO: <c@d>'' @ CRLF, ''RCPT TO: <e@f>'' @ CRLF, ''DATA'' @ CRLF])
   \<and> TcpSendEmail mail_net (CTcpSocket_of_fd 3 0) ''u'' ''p'' ''a@b'' ''c@d'' ''Api'' (replicate 1024 CHR ''x'') ([], False) = None"
proof -
  have b: "EncodingBase64 (cstr ''u'') = Some ''dQ==''" "EncodingBase64 (cstr ''p'') = Some ''cA==''" by code_simp+
  have e: "fst (os_send mail_net (m_iSockfd (CTcpSocket_of_fd 3 0)) (''EHLO '' @ cstr ''a@b'' @ [LF]) ([], False)) = int (length (cstr ''a@b'')) + 6"
    by (simp add: mail_net_def cstr_def)
  have c: "cstr (replicate 1024 CHR ''x'') = replicate 1024 CHR ''x''" by (rule cstr_id) simp
  note T = mail_is_sent_or_overruns [OF mail_net_ok e b refl]
  show ?thesis using T [of "''c@d,e@f''" "''Api''" "''down''"] T [of "''c@d''" "''Api''" "replicate 1024 CHR ''x''"]
    by (auto simp: c mail_dialogue_def RCPT_TO_def To_header_def cstr_def simp del: replicate.simps)
qed

end
