(* ===== verification/Monitor.thy ===== *)
theory Monitor
  imports Mail UserQueryMain
begin

text \<open>
  The API monitors of \<^verbatim>\<open>src/src/UserQueryUpdate/UserQueryUpdate.cpp\<close>
  (\<^verbatim>\<open>MonitorRemoteApiWangGuan\<close> and, at the end, \<^verbatim>\<open>MonitorRemoteApiHuaWei\<close>; \<open>Core\<close> calls
  neither: the one call is commented out). A monitor asks the remote
  API a fixed question over SSL and mails an alarm unless the decrypted answer is the expected one.
  \<open>None\<close> is undefined behaviour or a call that does not return, as in the parts it is made of.
  The global \<^verbatim>\<open>InitSSLFlag\<close> is an argument and part of the result; its mutex is left out. The
  settings are the globals that the configuration sets (\<open>MainState\<close>).
\<close>

definition monitorValue :: string where
  \<open>monitorValue = ''[{"name":"0","value":"0","typeid":"0"}]''\<close>

definition monitor_key :: "string \<Rightarrow> string" where
  "monitor_key g_strTokenString =
     ''/dg/api/query/rtbtag2?token='' @ g_strTokenString @ ''&appkey=f2b98698400e4ace9926f83f0d063a57''
     @ ''&key=JSQkdnFjfm4pfXF5fTJgeGF1cnFwKXB6e3cydWB1cGx9eSlxeXV6S2RncBQ=''"

definition monitor_request :: "MainState \<Rightarrow> string \<Rightarrow> string option" where
  "monitor_request m token =
     into_buffer 8192 (''GET '' @ cstr (monitor_key token) @ '' HTTP/1.1'' @ CRLF @ ''Host: '' @ m_pchIp (m_stMonitorApi m)
       @ '':'' @ show_int (uint (m_uiPort (m_stMonitorApi m))) @ CRLF @ ''Accept-Encoding: identity'' @ CRLF @ CRLF)"

text \<open>The mail; an exception of the socket's constructor ends the program.\<close>

definition send_alarm :: "'w net \<Rightarrow> MainState \<Rightarrow> string \<Rightarrow> 'w \<Rightarrow> 'w option" where
  "send_alarm net m errorMsg w =
     (case new_CTcpSocket net (m_uiPort (m_stEmailServer m)) (m_pchIp (m_stEmailServer m)) 300000 w of
        (None, _) \<Rightarrow> None
      | (Some sock, w) \<Rightarrow>
          (case TcpConnect net sock w of
             (rc, sock, w) \<Rightarrow>
               map_option (\<lambda>w. snd (TcpClose net sock w))
                 (if rc = 0
                  then map_option snd (TcpSendEmail net sock (m_strUserName m) (m_strPassWord m) (m_strMailFrom m)
                         (m_strRcptTo m) (m_strSubject m) errorMsg w)
                  else Some w)))"

definition error_message :: "MainState \<Rightarrow> string \<Rightarrow> string" where
  "error_message m v = m_strErrorMsg m @ ''  '' @ [LF] @ ''Error Massage: '' @ [LF] @ v"

text \<open>Asking the API: the text of the answer, empty if nothing was written or read.\<close>

definition monitor_ask :: "'w net \<Rightarrow> int \<Rightarrow> CTcpSocket \<Rightarrow> string \<Rightarrow> 'w \<Rightarrow> (string \<times> 'w) option" where
  "monitor_ask net junk sock req w =
     do {
       (n, w) \<leftarrow> TcpSslWriteLen net sock req w;
       if n \<noteq> 0
       then do {
         (_, sslBuffer, w) \<leftarrow> TcpSslReadLen net sock junk 8192 (replicate 8192 NUL) w;
         if NUL \<notin> set sslBuffer then None
         else do {
           (_, w) \<leftarrow> TcpSslDestroy net sock w;
           Some (cstr sslBuffer, w)
         }
       }
       else do {
         (_, w) \<leftarrow> TcpSslDestroy net sock w;
         Some ([], w)
       }
     }"

definition http_body :: "string \<Rightarrow> string" where
  "http_body v = (case str_find v (CRLF @ CRLF) 0 of None \<Rightarrow> v | Some k \<Rightarrow> drop (k + 4) v)"

definition MonitorRemoteApiWangGuan ::
  "'w net \<Rightarrow> int \<Rightarrow> MainState \<Rightarrow> string \<Rightarrow> bool \<Rightarrow> 'w \<Rightarrow> (bool \<times> 'w) option" where
  "MonitorRemoteApiWangGuan net junk m token InitSSLFlag w =
     do {
       req \<leftarrow> monitor_request m token;
       (case new_CTcpSocket net (m_uiPort (m_stMonitorApi m)) (m_pchIp (m_stMonitorApi m)) 300000 w of
          (None, _) \<Rightarrow> None
        | (Some sock, w) \<Rightarrow>
            do {
              let (rc, sock, w) = TcpConnect net sock w;
              let sock = snd (TcpSslInitEnv (if \<not> InitSSLFlag then TcpSslInitParams sock else sock));
              (ok, w) \<leftarrow> TcpSslConnect net sock w;
              (sock, w) \<leftarrow> (if ok then Some (sock, w) else TcpSslDestroy net sock w);
              if rc = 0 \<and> ok
              then do {
                (v, w) \<leftarrow> monitor_ask net junk sock req w;
                v \<leftarrow> (if http_body v \<noteq> [] then Decrypt_2 (http_body v) else Some []);
                w \<leftarrow> (if v \<noteq> monitorValue then send_alarm net m (error_message m v) w else Some w);
                Some (True, w)
              }
              else do {
                w \<leftarrow> send_alarm net m (error_message m (''The Client can'' @ [CHR 0x27] @ ''t connect to Api server!'')) w;
                Some (True, w)
              }
            })
     }"

section \<open>The verdict\<close>

lemma Decrypt_Encrypt_2: "Decrypt_2 (Encrypt_2 s) = Some s"
  by (simp add: Decrypt_2_def Encrypt_2_def Let_def key_20 xor_char_involution rev_map comp_def)

lemma Encrypt_2_nonempty: "Encrypt_2 s \<noteq> []"
  using Decrypt_Encrypt_2 [of s] by (auto simp: Decrypt_2_def base64_decode_2_def decode_with_def Let_def)

lemma base64_decode_2_plain: "\<not> is_base64_2 c \<Longrightarrow> base64_decode_2 (c # cs) = []"
  by (simp add: base64_decode_2_def decode_with_def)


text \<open>A server that has one answer, given after the question.\<close>

definition answer_net :: "string \<Rightarrow> nat net" where
  "answer_net a = \<lparr>os_socket = (\<lambda>w. (3, w)), os_setsockopt = (\<lambda>fd w. (True, w)), os_connect = (\<lambda>fd ip p w. (True, w)),
     os_recv = (\<lambda>fd n w. (Recv [], w)), os_send = (\<lambda>fd b w. (int (length b), w)), os_close = (\<lambda>fd w. w),
     SSL_connect = (\<lambda>fd w. (True, w)), SSL_read = (\<lambda>fd n w. ((int (length a), SSL_ERROR_NONE, a), w)),
     SSL_write = (\<lambda>fd b w. ((int (length b), SSL_ERROR_NONE), Suc w)), SSL_shutdown = (\<lambda>fd w. w)\<rparr>"

lemma monitor_demo_request: "\<exists>req. monitor_request blank_main [] = Some req \<and> req \<noteq> []"
  by (simp add: monitor_request_def into_buffer_def monitor_key_def cstr_def blank_main_def blank_IPPORT_def show_int_def show_nat.simps)

lemma demo_ask:
  assumes "m_ssl s = Live" "req \<noteq> []" "length a < 8192" "NUL \<notin> set a"
  shows "monitor_ask (answer_net a) 0 s req w = Some (a, Suc w)"
proof -
  have d: "drop (length a) (replicate 8192 NUL) = replicate (8192 - length a) NUL" by (rule drop_replicate)
  obtain n where n: "8192 - length a = Suc n" using assms(3) by (metis Suc_diff_Suc)
  have c: "cstr (a @ NUL # replicate n NUL) = a" using assms(4) unfolding cstr_def
    by (subst takeWhile_append2) auto
  have "TcpSslWriteLen (answer_net a) s req w = Some (int (length req), Suc w)"
    using assms(1) by (simp add: TcpSslWriteLen_def ssl_write_loop.simps answer_net_def)
  moreover have "TcpSslReadLen (answer_net a) s 0 8192 (replicate 8192 NUL) (Suc w) =
      Some (int (length a), a @ NUL # replicate n NUL, Suc w)"
    using assms(1) unfolding TcpSslReadLen_def
    by (subst ssl_read_loop.simps) (simp add: answer_net_def d n del: replicate.simps(2) add: replicate.simps(2) [of n])
  moreover have "\<exists>s'. TcpSslDestroy (answer_net a) s (Suc w) = Some (s', Suc w)"
    using assms(1) by (simp add: TcpSslDestroy_def TcpClose_def answer_net_def)
  ultimately show ?thesis using assms(2) c by (auto simp: monitor_ask_def)
qed

definition healthy_answer :: string where
  "healthy_answer = ''SWk2JDYuNnB9cWRtYDY4NiQ2LjZxYXh1YjY4NiQ2LjZxeXV6Nm9PFA==''"

lemma healthy_answer_eq: "Encrypt_2 monitorValue = healthy_answer" by code_simp


section \<open>The monitor without SSL\<close>

text \<open>
  \<^verbatim>\<open>MonitorRemoteApiHuaWei\<close>, which nothing calls. It signs its question and asks over a plain
  connection; it decrypts only what does not look like plain text, and it has a message of its own
  for an empty answer. The pointer \<^verbatim>\<open>cTaskMonitorHuaWei\<close> is never set; the model lets the three
  calls through it go to the functions themselves.
\<close>

definition huawei_request :: "string \<Rightarrow> string \<Rightarrow> string \<Rightarrow> string option" where
  \<open>huawei_request strUcTime strNonce strPwdDigest =
     into_buffer 8192 (''GET /dg/rtb/tag?&key=JSQkdnFjfm4pfXF5fTJgeGF1cnFwKXB6e3cydWB1cGx9eSlxeXV6S2RncBQ= HTTP/1.1'' @ CRLF
       @ ''Authorization: WSSE realm="SDP",profile="UsernameToken",type="AppKey"'' @ CRLF @ ''Host: dacp.sdp.com'' @ CRLF
       @ ''X-WSSE: '' @ cstr (''UsernameToken Username="f2b98698400e4ace9926f83f0d063a57",PasswordDigest="'' @ strPwdDigest
           @ ''", Nonce="'' @ strNonce @ ''", Created="'' @ strUcTime @ ''"'')
       @ CRLF @ ''Accept-Encoding: identity'' @ CRLF @ CRLF)\<close>

text \<open>The text of the answer and \<^verbatim>\<open>monitorFlag\<close>: 2 if it is empty, 1 if nothing could be sent.\<close>

definition huawei_ask :: "'w net \<Rightarrow> CTcpSocket \<Rightarrow> string \<Rightarrow> 'w \<Rightarrow> ((string \<times> int) \<times> 'w) option" where
  "huawei_ask net sock req w =
     (case TcpWrite net sock req w of
        (False, w) \<Rightarrow> Some (([], 1), snd (TcpClose net sock w))
      | (True, w) \<Rightarrow>
          (case TcpReadAll net sock 8192 w of
             (_, sslBuffer, w) \<Rightarrow>
               if length sslBuffer = 8192 \<and> NUL \<notin> set sslBuffer then None
               else Some ((cstr sslBuffer, if cstr sslBuffer = [] then 2 else 0), snd (TcpClose net sock w))))"

definition huawei_plain :: "string \<Rightarrow> bool" where
  "huawei_plain v \<longleftrightarrow> v = [] \<or> hd v = CHR ''{'' \<or> hd v = CHR ''<'' \<or> str_find v ''description'' 0 \<noteq> None"

definition huawei_message :: "MainState \<Rightarrow> int \<Rightarrow> string \<Rightarrow> string" where
  "huawei_message m monitorFlag v =
     (if monitorFlag = 2 then m_strErrorMsg m @ ''  '' @ [LF] @ ''Error Massage: Read data empty'' @ [LF] else error_message m v)"

definition huawei_check :: "'w net \<Rightarrow> MainState \<Rightarrow> string \<Rightarrow> 'w \<Rightarrow> 'w option" where
  "huawei_check net m req w =
     (case new_CTcpSocket net (m_uiPort (m_stMonitorApi m)) (m_pchIp (m_stMonitorApi m)) 300000 w of
        (None, _) \<Rightarrow> None
      | (Some sock, w) \<Rightarrow>
          (case TcpConnect net sock w of
             (rc, sock, w) \<Rightarrow>
               if rc = 0
               then do {
                 ((answer, monitorFlag), w) \<leftarrow> huawei_ask net sock req w;
                 v \<leftarrow> (if huawei_plain (http_body answer) then Some (http_body answer) else Decrypt_2 (http_body answer));
                 (if v \<noteq> monitorValue then send_alarm net m (huawei_message m monitorFlag v) w else Some w)
               }
               else send_alarm net m (error_message m (''The Client can'' @ [CHR 0x27] @ ''t connect to Api server!'')) w))"

definition MonitorRemoteApiHuaWei ::
  "'w net \<Rightarrow> (int \<Rightarrow> tm) \<Rightarrow> int \<Rightarrow> (nat \<Rightarrow> nat) \<Rightarrow> (string \<Rightarrow> byte list) \<Rightarrow> MainState \<Rightarrow> 'w \<Rightarrow> 'w option" where
  "MonitorRemoteApiHuaWei net lt now rnd sha1 m w =
     do {
       strUcTime \<leftarrow> BdxTaskMainGetUCTime lt now 0;
       let strNonce = BdxGenNonce rnd 25;
       req \<leftarrow> huawei_request strUcTime strNonce (GenPasswordDigest sha1 strUcTime strNonce ''5543131e56e6a10d'');
       tempMonitor \<leftarrow> Decrypt_2 ''JSQkdnFjfm4pfXF5fTJgeGF1cnFwKXB6e3cydWB1cGx9eSlxeXV6S2RncBQ='';
       huawei_check net m req w
     }"

text \<open>
  Once the API has answered, this monitor never dies on a plain answer, whatever it says: it mails it
  as it is, unless it is the expected value itself. An encrypted answer that does not look plain is
  judged by its decryption. But nothing of this ever happens: the text of the time is one character
  too long for its buffer.
\<close>

theorem huawei_verdict:
  assumes "new_CTcpSocket net (m_uiPort (m_stMonitorApi m)) (m_pchIp (m_stMonitorApi m)) 300000 w = (Some s0, w0)"
    and "TcpConnect net s0 w0 = (0, s1, w1)" "huawei_ask net s1 req w1 = Some ((answer, flag), w2)"
    and "\<And>x. tm_ok (lt x)"
  shows "(huawei_plain (http_body answer) \<longrightarrow>
       huawei_check net m req w = (if http_body answer = monitorValue then Some w2 else send_alarm net m (huawei_message m flag (http_body answer)) w2))
    \<and> (http_body answer = Encrypt_2 v \<and> \<not> huawei_plain (http_body answer) \<longrightarrow>
       huawei_check net m req w = (if v = monitorValue then Some w2 else send_alarm net m (huawei_message m flag v) w2))
    \<and> MonitorRemoteApiHuaWei net lt now rnd sha1 m w = None"
proof -
  have "BdxTaskMainGetUCTime lt now 0 = None" using uctime_overruns_its_buffer [of lt now 0] assms(4) by blast
  then have "MonitorRemoteApiHuaWei net lt now rnd sha1 m w = None" by (simp add: MonitorRemoteApiHuaWei_def)
  moreover have M: "huawei_check net m req w =
    do {
      v \<leftarrow> (if huawei_plain (http_body answer) then Some (http_body answer) else Decrypt_2 (http_body answer));
      (if v \<noteq> monitorValue then send_alarm net m (huawei_message m flag v) w2 else Some w2)
    }" using assms(1-3) by (simp add: huawei_check_def)
  moreover have "http_body answer = Encrypt_2 v \<Longrightarrow> Decrypt_2 (http_body answer) = Some v" by (simp only: Decrypt_Encrypt_2)
  ultimately show ?thesis unfolding M by auto
qed

end
