(* ===== verification/UdpSocket.thy ===== *)
theory UdpSocket
  imports Sockets
begin

text \<open>
  Datagram sockets: \<^verbatim>\<open>src/src/CommonTools/Socket/UdpSocket.cpp\<close>. The calls of the operating
  system are the parameter \<open>udp\<close>. An address is its text and port; the empty text is
  \<^verbatim>\<open>INADDR_ANY\<close>.
\<close>

record 'w udp =
  udp_socket :: "'w \<Rightarrow> int \<times> 'w"
  udp_bind :: "int \<Rightarrow> string \<times> 16 word \<Rightarrow> 'w \<Rightarrow> bool \<times> 'w"
  udp_rcvtimeo :: "int \<Rightarrow> u32 \<Rightarrow> 'w \<Rightarrow> bool \<times> 'w"
  udp_recvfrom :: "int \<Rightarrow> nat \<Rightarrow> 'w \<Rightarrow> recv_result \<times> 'w"
  udp_sendto :: "int \<Rightarrow> string \<Rightarrow> string \<times> 16 word \<Rightarrow> 'w \<Rightarrow> int \<times> 'w"
  udp_close :: "int \<Rightarrow> 'w \<Rightarrow> 'w"

record CUdpSocket =
  u_iSockfd :: int
  u_stSockaddr :: "string \<times> 16 word"
  u_uiTimeout :: u32
  u_iWeight :: int
  u_iIndexDevice :: int

text \<open>The constructor (\<open>None\<close> is its exception); address and counters are not set by it.\<close>

definition new_CUdpSocket :: "'w udp \<Rightarrow> string \<times> 16 word \<Rightarrow> int \<Rightarrow> int \<Rightarrow> u32 \<Rightarrow> 'w \<Rightarrow> CUdpSocket option \<times> 'w" where
  "new_CUdpSocket udp addr wt idx uiTimeout w =
     (case udp_socket udp w of
        (fd, w) \<Rightarrow>
          (if fd < 0 then None
           else Some \<lparr>u_iSockfd = fd, u_stSockaddr = addr, u_uiTimeout = uiTimeout, u_iWeight = wt, u_iIndexDevice = idx\<rparr>, w))"

definition delete_CUdpSocket :: "'w udp \<Rightarrow> CUdpSocket \<Rightarrow> 'w \<Rightarrow> 'w" where
  "delete_CUdpSocket udp s w = (if 0 < u_iSockfd s then udp_close udp (u_iSockfd s) w else w)"

definition UdpSetTimeout :: "u32 \<Rightarrow> CUdpSocket \<Rightarrow> CUdpSocket" where
  "UdpSetTimeout uiTimeout s = s\<lparr>u_uiTimeout := uiTimeout\<rparr>"

definition UdpSetTimeOut :: "u32 \<Rightarrow> CUdpSocket \<Rightarrow> CUdpSocket" where
  "UdpSetTimeOut ui_Timeout s = s\<lparr>u_uiTimeout := ui_Timeout\<rparr>"

definition UdpSetAddr :: "string \<times> 16 word \<Rightarrow> CUdpSocket \<Rightarrow> CUdpSocket" where
  "UdpSetAddr pAddr s = s\<lparr>u_stSockaddr := pAddr\<rparr>"

definition UdpInitClient :: "string \<Rightarrow> 16 word \<Rightarrow> CUdpSocket \<Rightarrow> bool \<times> CUdpSocket" where
  "UdpInitClient strIp in_portPort s =
     (if strIp = [] then (False, s) else (True, s\<lparr>u_stSockaddr := (strIp, in_portPort)\<rparr>))"

definition UdpInitServer :: "'w udp \<Rightarrow> 16 word \<Rightarrow> string \<Rightarrow> CUdpSocket \<Rightarrow> 'w \<Rightarrow> bool \<times> CUdpSocket \<times> 'w" where
  "UdpInitServer udp in_portPort strIp s w =
     (let s = s\<lparr>u_stSockaddr := (strIp, in_portPort)\<rparr> in
      case udp_bind udp (u_iSockfd s) (u_stSockaddr s) w of (ok, w) \<Rightarrow> (ok, s, w))"

definition UdpClose :: "'w udp \<Rightarrow> CUdpSocket \<Rightarrow> 'w \<Rightarrow> CUdpSocket \<times> 'w" where
  "UdpClose udp s w =
     (if 0 < u_iSockfd s then (s\<lparr>u_iSockfd := - 1\<rparr>, udp_close udp (u_iSockfd s) w) else (s, w))"

definition UdpNewSocket :: "'w udp \<Rightarrow> CUdpSocket \<Rightarrow> 'w \<Rightarrow> bool \<times> CUdpSocket \<times> 'w" where
  "UdpNewSocket udp s w =
     (case UdpClose udp s w of
        (s, w) \<Rightarrow> (case udp_socket udp w of (fd, w) \<Rightarrow> (\<not> fd < 0, s\<lparr>u_iSockfd := fd\<rparr>, w)))"

definition UdpBindNewSocket :: "'w udp \<Rightarrow> CUdpSocket \<Rightarrow> 'w \<Rightarrow> bool \<times> CUdpSocket \<times> 'w" where
  "UdpBindNewSocket udp s w = UdpNewSocket udp s w"

definition UdpGetSockfd :: "CUdpSocket \<Rightarrow> int" where "UdpGetSockfd s = u_iSockfd s"
definition UdpGetTimeout :: "CUdpSocket \<Rightarrow> u32" where "UdpGetTimeout s = u_uiTimeout s"

text \<open>The timeout in milliseconds becomes \<^verbatim>\<open>tv_usec\<close>, at 32 bits.\<close>

definition UdpRead :: "'w udp \<Rightarrow> CUdpSocket \<Rightarrow> nat \<Rightarrow> 'w \<Rightarrow> int \<times> string \<times> 'w" where
  "UdpRead udp s sizeRecvLen w =
     (if sizeRecvLen = 0 \<or> u_iSockfd s = - 1 then (- 1, [], w)
      else case udp_rcvtimeo udp (u_iSockfd s) (u_uiTimeout s * 1000) w of
             (False, w) \<Rightarrow> (- 1, [], w)
           | (True, w) \<Rightarrow>
               (case udp_recvfrom udp (u_iSockfd s) sizeRecvLen w of
                  (RecvAgain, w) \<Rightarrow> (- 2, [], w)
                | (RecvError, w) \<Rightarrow> (- 1, [], w)
                | (Recv d, w) \<Rightarrow> (int (length (take sizeRecvLen d)), take sizeRecvLen d, w)))"

function UdpReadAll_loop :: "'w udp \<Rightarrow> CUdpSocket \<Rightarrow> nat \<Rightarrow> string \<Rightarrow> 'w \<Rightarrow> int \<times> string \<times> 'w" where
  "UdpReadAll_loop udp s n buf w =
     (case UdpRead udp s n w of
        (ilength, d, w) \<Rightarrow>
          if 0 < ilength \<and> length d < n \<and> d \<noteq> [] then UdpReadAll_loop udp s (n - length d) (buf @ d) w
          else if ilength < 0 then (ilength, buf, w)
          else (int (length (buf @ d)), buf @ d, w))"
  by pat_completeness auto

termination
  by (relation "measure (\<lambda>(udp, s, n, buf, w). n)") auto

declare UdpReadAll_loop.simps [simp del]

definition UdpReadAll :: "'w udp \<Rightarrow> CUdpSocket \<Rightarrow> nat \<Rightarrow> 'w \<Rightarrow> int \<times> string \<times> 'w" where
  "UdpReadAll udp s sizeRecvLen w =
     (if sizeRecvLen = 0 then (- 1, [], w) else UdpReadAll_loop udp s sizeRecvLen [] w)"

definition UdpWrite :: "'w udp \<Rightarrow> CUdpSocket \<Rightarrow> string \<Rightarrow> 'w \<Rightarrow> bool \<times> 'w" where
  "UdpWrite udp s buf w =
     (if buf = [] then (False, w)
      else case udp_sendto udp (u_iSockfd s) buf (u_stSockaddr s) w of (r, w) \<Rightarrow> (r \<noteq> - 1, w))"

definition UdpInitWeight :: "CUdpSocket \<Rightarrow> CUdpSocket" where "UdpInitWeight s = s\<lparr>u_iWeight := 1\<rparr>"
definition UdpInitIndexDevice :: "CUdpSocket \<Rightarrow> CUdpSocket" where "UdpInitIndexDevice s = s\<lparr>u_iIndexDevice := 0\<rparr>"
definition UdpAddWeight :: "CUdpSocket \<Rightarrow> CUdpSocket" where "UdpAddWeight s = s\<lparr>u_iWeight := u_iWeight s + 1\<rparr>"
definition UdpAddIndexDevice :: "CUdpSocket \<Rightarrow> CUdpSocket" where "UdpAddIndexDevice s = s\<lparr>u_iIndexDevice := u_iIndexDevice s + 1\<rparr>"
definition UdpGetWeight :: "CUdpSocket \<Rightarrow> int" where "UdpGetWeight s = u_iWeight s"
definition UdpGetIndexDevice :: "CUdpSocket \<Rightarrow> int" where "UdpGetIndexDevice s = u_iIndexDevice s"

section \<open>Datagrams and UdpReadAll\<close>

text \<open>
  The world is the queue of datagrams that arrive; when it is empty the read times out. The other
  calls succeed.
\<close>

definition mailbox :: "string list udp" where
  "mailbox = \<lparr>udp_socket = (\<lambda>w. (3, w)), udp_bind = (\<lambda>fd a w. (True, w)), udp_rcvtimeo = (\<lambda>fd t w. (True, w)),
     udp_recvfrom = (\<lambda>fd n w. case w of [] \<Rightarrow> (RecvAgain, []) | d # ds \<Rightarrow> (Recv d, ds)),
     udp_sendto = (\<lambda>fd b a w. (int (length b), w)), udp_close = (\<lambda>fd w. w)\<rparr>"

lemma mailbox_read:
  "u_iSockfd s \<noteq> - 1 \<Longrightarrow> 0 < n \<Longrightarrow>
   UdpRead mailbox s n w = (case w of [] \<Rightarrow> (- 2, [], []) | d # ds \<Rightarrow> (int (length (take n d)), take n d, ds))"
  by (cases w) (simp_all add: UdpRead_def mailbox_def)

text \<open>
  \<open>UdpReadAll\<close> reports data only if the datagrams that are there happen to fill the buffer (or an
  empty one follows): when all that has arrived is shorter than the buffer, the result is the
  timeout of the read that follows, although the data has been taken from the socket.
\<close>

theorem udp_read_all_loses_short_data:
  assumes "u_iSockfd s \<noteq> - 1" "[] \<notin> set ds" "length (concat ds) < n"
  shows "UdpReadAll mailbox s n ds = (- 2, concat ds, [])"
proof -
  have "UdpReadAll_loop mailbox s n buf ds = (- 2, buf @ concat ds, [])" for buf
    using assms(2,3)
  proof (induction ds arbitrary: n buf)
    case Nil
    then show ?case using mailbox_read [OF assms(1), of n "[]"] by (subst UdpReadAll_loop.simps) simp
  next
    case (Cons d ds)
    then have d: "d \<noteq> []" "take n d = d" "length d < n" by auto
    have "UdpReadAll_loop mailbox s (n - length d) (buf @ d) ds = (- 2, (buf @ d) @ concat ds, [])"
      using Cons.prems by (intro Cons.IH) auto
    then show ?case
      using d mailbox_read [OF assms(1), of n "d # ds"] by (subst UdpReadAll_loop.simps) simp
  qed
  then show ?thesis using assms(3) by (simp add: UdpReadAll_def)
qed

theorem udp_read_all_loses_short_data_witness:
  "UdpReadAll mailbox \<lparr>u_iSockfd = 3, u_stSockaddr = ([], 0), u_uiTimeout = 3, u_iWeight = 1, u_iIndexDevice = 0\<rparr> 8 [''ab'', ''cde'']
     = (- 2, ''abcde'', [])"
  using udp_read_all_loses_short_data [of "\<lparr>u_iSockfd = 3, u_stSockaddr = ([], 0), u_uiTimeout = 3, u_iWeight = 1, u_iIndexDevice = 0\<rparr>"
      "[''ab'', ''cde'']" 8] by simp

end
