(* ===== verification/MysqlClient.thy ===== *)
theory MysqlClient
  imports OrderUpdate
begin

text \<open>
  The database client: \<^verbatim>\<open>src/src/CommonTools/Mysql/mysqlClient.cpp\<close>, over the MySQL library
  as a parameter, with the path of a record of the permission table to \<open>GetMysqlFieldsUserInfo\<close>
  of \<^verbatim>\<open>OrderUpdate\<close>. \<open>None\<close> is undefined behaviour: a handle that is null or was never set, a
  column past the end of the row, a flag that was never set.
\<close>

section \<open>The library\<close>

text \<open>
  Connections are \<open>'h\<close> and results \<open>'r\<close>; a column is text or NULL. Describing a column and
  printing it is left to the library (\<open>mysql_field_text\<close>).
\<close>

type_synonym mysql_row = "string option list"

record ('h, 'r, 'w) mysql =
  mysql_init :: "'w \<Rightarrow> 'h option \<times> 'w"
  mysql_real_connect :: "'h \<Rightarrow> string \<Rightarrow> string \<Rightarrow> string \<Rightarrow> string \<Rightarrow> 16 word \<Rightarrow> 'w \<Rightarrow> 'h option \<times> 'w"
  mysql_query :: "'h \<Rightarrow> string \<Rightarrow> 'w \<Rightarrow> int \<times> 'w"
  mysql_use_result :: "'h \<Rightarrow> 'w \<Rightarrow> 'r option \<times> 'w"
  mysql_fetch_row :: "'r \<Rightarrow> 'w \<Rightarrow> mysql_row option \<times> 'w"
  mysql_field_count :: "'h \<Rightarrow> 'w \<Rightarrow> nat"
  mysql_field_text :: "'r \<Rightarrow> 'w \<Rightarrow> string list"
  mysql_close :: "'h \<Rightarrow> 'w \<Rightarrow> 'w"
  mysql_free_result :: "'r \<Rightarrow> 'w \<Rightarrow> 'w"

section \<open>CMYSQL\<close>

text \<open>
  The constructor sets nothing: a pointer that was not set is \<open>None\<close> like the null pointer, and so
  are the flag and the number of records.
\<close>

record ('h, 'r) CMYSQL =
  pmysqlConn :: "'h option"
  pmysqlRes :: "'r option"
  mysqlRow :: "mysql_row option"
  bInitFlag :: "bool option"
  totalColumns :: nat
  totalRecords :: "nat option"

definition new_CMYSQL :: "('h, 'r) CMYSQL" where
  "new_CMYSQL = \<lparr>pmysqlConn = None, pmysqlRes = None, mysqlRow = None, bInitFlag = None, totalColumns = 0, totalRecords = None\<rparr>"

definition InitMysql ::
  "('h, 'r, 'w) mysql \<Rightarrow> string \<Rightarrow> 16 word \<Rightarrow> string \<Rightarrow> string \<Rightarrow> string \<Rightarrow> ('h, 'r) CMYSQL \<Rightarrow> 'w \<Rightarrow> bool \<times> ('h, 'r) CMYSQL \<times> 'w" where
  "InitMysql my host port userName passwd dbName c w =
     (case mysql_init my w of
        (None, w) \<Rightarrow> (False, c\<lparr>pmysqlConn := None\<rparr>, w)
      | (Some h, w) \<Rightarrow>
          (case mysql_real_connect my h host userName passwd dbName port w of
             (None, w) \<Rightarrow> (False, c\<lparr>pmysqlConn := None\<rparr>, w)
           | (Some h, w) \<Rightarrow> (True, c\<lparr>pmysqlConn := Some h, bInitFlag := Some True\<rparr>, w)))"

definition ExecuteMySql :: "('h, 'r, 'w) mysql \<Rightarrow> string \<Rightarrow> ('h, 'r) CMYSQL \<Rightarrow> 'w \<Rightarrow> (bool \<times> 'w) option" where
  "ExecuteMySql my sql c w =
     (case pmysqlConn c of
        None \<Rightarrow> None
      | Some h \<Rightarrow> (case mysql_query my h sql w of (res, w) \<Rightarrow> Some (res = 0, w)))"

definition MysqlUseResult :: "('h, 'r, 'w) mysql \<Rightarrow> ('h, 'r) CMYSQL \<Rightarrow> 'w \<Rightarrow> (bool \<times> ('h, 'r) CMYSQL \<times> 'w) option" where
  "MysqlUseResult my c w =
     (case pmysqlConn c of
        None \<Rightarrow> None
      | Some h \<Rightarrow> (case mysql_use_result my h w of (r, w) \<Rightarrow> Some (r \<noteq> None, c\<lparr>pmysqlRes := r\<rparr>, w)))"

definition MysqlFetchRow ::
  "('h, 'r, 'w) mysql \<Rightarrow> ('h, 'r) CMYSQL \<Rightarrow> 'w \<Rightarrow> (mysql_row option \<times> ('h, 'r) CMYSQL \<times> 'w) option" where
  "MysqlFetchRow my c w =
     (case pmysqlRes c of
        None \<Rightarrow> None
      | Some r \<Rightarrow> (case mysql_fetch_row my r w of (row, w) \<Rightarrow> Some (row, c\<lparr>mysqlRow := row\<rparr>, w)))"

definition GetMysqlTotalColumns :: "('h, 'r, 'w) mysql \<Rightarrow> ('h, 'r) CMYSQL \<Rightarrow> 'w \<Rightarrow> (nat \<times> ('h, 'r) CMYSQL) option" where
  "GetMysqlTotalColumns my c w =
     (case pmysqlConn c of
        None \<Rightarrow> None
      | Some h \<Rightarrow> Some (mysql_field_count my h w, c\<lparr>totalColumns := mysql_field_count my h w\<rparr>))"

text \<open>The first \<open>n\<close> columns, each followed by \<open>sep\<close>; NULL is the word.\<close>

fun join_columns :: "string \<Rightarrow> nat \<Rightarrow> mysql_row \<Rightarrow> string option" where
  "join_columns sep 0 row = Some []"
| "join_columns sep (Suc n) [] = None"
| "join_columns sep (Suc n) (x # row) =
     map_option (\<lambda>s. (case x of Some v \<Rightarrow> cstr v | None \<Rightarrow> ''NULL'') @ sep @ s) (join_columns sep n row)"

definition GetColumnValue2 :: "('h, 'r, 'w) mysql \<Rightarrow> mysql_row \<Rightarrow> ('h, 'r) CMYSQL \<Rightarrow> 'w \<Rightarrow> string option" where
  "GetColumnValue2 my sqlRow c w =
     (case GetMysqlTotalColumns my c w of None \<Rightarrow> None | Some (n, _) \<Rightarrow> join_columns '';'' n sqlRow)"

definition GetColumnValue :: "('h, 'r, 'w) mysql \<Rightarrow> ('h, 'r) CMYSQL \<Rightarrow> 'w \<Rightarrow> string option" where
  "GetColumnValue my c w =
     (case mysqlRow c of None \<Rightarrow> None | Some row \<Rightarrow> GetColumnValue2 my row c w)"

text \<open>What \<^verbatim>\<open>DisplayRows\<close> prints of the current row: no blank after NULL.\<close>

fun display_columns :: "nat \<Rightarrow> mysql_row \<Rightarrow> string option" where
  "display_columns 0 row = Some []"
| "display_columns (Suc n) [] = None"
| "display_columns (Suc n) (x # row) =
     map_option (\<lambda>s. (case x of Some v \<Rightarrow> cstr v @ '' '' | None \<Rightarrow> ''NULL'') @ s) (display_columns n row)"

definition DisplayRows :: "('h, 'r, 'w) mysql \<Rightarrow> ('h, 'r) CMYSQL \<Rightarrow> 'w \<Rightarrow> (string \<times> ('h, 'r) CMYSQL) option" where
  "DisplayRows my c w =
     (case (GetMysqlTotalColumns my c w, mysqlRow c) of
        (Some (n, c), Some row) \<Rightarrow>
          map_option (\<lambda>s. (''mysql_field_count(pmysqlConn)='' @ show_nat n @ [LF] @ s @ [LF], c)) (display_columns n row)
      | _ \<Rightarrow> None)"

text \<open>
  \<^verbatim>\<open>GetRecordFields\<close> runs a query and prints: the columns when it has the first row, and every
  other row. The printed lines are collected in \<open>out\<close>.
\<close>

partial_function (option) record_loop ::
  "('h, 'r, 'w) mysql \<Rightarrow> 'r \<Rightarrow> bool \<Rightarrow> string list \<Rightarrow> ('h, 'r) CMYSQL \<Rightarrow> 'w \<Rightarrow> (string list \<times> ('h, 'r) CMYSQL \<times> 'w) option" where
  "record_loop my r first_row out c w =
     (case mysql_fetch_row my r w of
        (None, w) \<Rightarrow> Some (out, c\<lparr>mysqlRow := None\<rparr>, w)
      | (Some row, w) \<Rightarrow>
          let c = c\<lparr>mysqlRow := Some row\<rparr> in
          if first_row then record_loop my r False (out @ mysql_field_text my r w) c w
          else (case DisplayRows my c w of
                  None \<Rightarrow> None
                | Some (s, c) \<Rightarrow> record_loop my r False (out @ [s]) c w))"

declare record_loop.simps [code]

definition GetRecordFields ::
  "('h, 'r, 'w) mysql \<Rightarrow> string \<Rightarrow> ('h, 'r) CMYSQL \<Rightarrow> 'w \<Rightarrow> (bool \<times> string list \<times> ('h, 'r) CMYSQL \<times> 'w) option" where
  "GetRecordFields my sql c w =
     (case ExecuteMySql my sql c w of
        None \<Rightarrow> None
      | Some (False, w) \<Rightarrow> Some (False, [], c, w)
      | Some (True, w) \<Rightarrow>
          (case MysqlUseResult my c w of
             None \<Rightarrow> None
           | Some (False, c, w) \<Rightarrow> Some (True, [], c, w)
           | Some (True, c, w) \<Rightarrow>
               map_option (\<lambda>(out, c, w). (True, out, c, w)) (record_loop my (the (pmysqlRes c)) True [] c w)))"

definition CloseMysqlConn :: "('h, 'r, 'w) mysql \<Rightarrow> ('h, 'r) CMYSQL \<Rightarrow> 'w \<Rightarrow> bool \<times> 'w" where
  "CloseMysqlConn my c w = (True, case pmysqlConn c of None \<Rightarrow> w | Some h \<Rightarrow> mysql_close my h w)"

definition GetMysqlConnState :: "('h, 'r) CMYSQL \<Rightarrow> 'h option" where "GetMysqlConnState c = pmysqlConn c"
definition GetMysqlTotalRecords :: "('h, 'r) CMYSQL \<Rightarrow> nat option" where "GetMysqlTotalRecords c = totalRecords c"
definition GetMysqlInitState :: "('h, 'r) CMYSQL \<Rightarrow> bool option" where "GetMysqlInitState c = bInitFlag c"

definition DestroyResultEnv :: "('h, 'r, 'w) mysql \<Rightarrow> ('h, 'r) CMYSQL \<Rightarrow> 'w \<Rightarrow> (bool \<times> 'w) option" where
  "DestroyResultEnv my c w = (case pmysqlRes c of None \<Rightarrow> None | Some r \<Rightarrow> Some (True, mysql_free_result my r w))"

section \<open>A record of the permission table\<close>

text \<open>A word that the two delimiters leave whole.\<close>

definition db_word :: "string \<Rightarrow> bool" where
  "db_word v \<longleftrightarrow> v \<noteq> [] \<and> CHR '';'' \<notin> set v \<and> CHR ''|'' \<notin> set v \<and> NUL \<notin> set v"

fun bar_join :: "string list \<Rightarrow> string" where
  "bar_join [] = []"
| "bar_join [v] = v"
| "bar_join (v # vs) = v @ ''|'' @ bar_join vs"

lemma strtok_bar_join: "(\<forall>v \<in> set vs. db_word v) \<Longrightarrow> strtok (CHR ''|'') (bar_join vs) = vs"
proof (induction vs rule: bar_join.induct)
  case (3 v v' vs)
  then show ?case using strtok_at [of "CHR ''|''" v "bar_join (v' # vs)"] by (simp add: strtok_word db_word_def)
qed (simp_all add: strtok_def strtok_word [unfolded strtok_def] db_word_def)

lemma bar_join_chars: "(\<forall>v \<in> set vs. db_word v) \<Longrightarrow> CHR '';'' \<notin> set (bar_join vs) \<and> NUL \<notin> set (bar_join vs)"
  by (induction vs rule: bar_join.induct) (auto simp: db_word_def)

definition permission_row :: "string \<Rightarrow> BDXPERMISSSION_S \<Rightarrow> string \<Rightarrow> string \<Rightarrow> mysql_row" where
  "permission_row user p query_count goods_count =
     [Some user, Some (mResToken p), Some query_count, Some goods_count, Some (mGoodsFields p), Some (bar_join (mVecFields p))]"

lemma strtok_row: "CHR '';'' \<notin> set a \<Longrightarrow> strtok (CHR '';'') (a @ CHR '';'' # y) = (if a = [] then [] else [a]) @ strtok (CHR '';'') y"
  by (simp add: strtok_at strtok_word)

lemma cstr_no_nul: "NUL \<notin> set a \<Longrightarrow> cstr (a @ y) = a @ cstr y"
  unfolding cstr_def by (subst takeWhile_append2) auto

lemma cstr_word: "NUL \<notin> set a \<Longrightarrow> cstr a = a"
  using cstr_no_nul [of a "[]"] by (simp add: cstr_def)

text \<open>What one column contributes to the words of the reader.\<close>

lemma split_columns:
  assumes "\<forall>v \<in> set vs. CHR '';'' \<notin> set v \<and> NUL \<notin> set v" "n = length vs"
  shows "\<exists>s. join_columns '';'' n (map Some vs) = Some s \<and> cstr s = s \<and> strtok (CHR '';'') s = filter (\<lambda>v. v \<noteq> []) vs"
  using assms
proof (induction vs arbitrary: n)
  case (Cons v vs)
  then obtain s where "join_columns '';'' (length vs) (map Some vs) = Some s" "cstr s = s" "strtok (CHR '';'') s = filter (\<lambda>v. v \<noteq> []) vs"
    by auto
  then show ?case using Cons.prems
    by (auto simp: cstr_word cstr_no_nul strtok_row) (simp add: cstr_def)+
qed (simp_all add: cstr_def strtok_def)

lemma show_int_word: "db_word (show_int i)" if "0 \<le> i"
proof -
  have s: "show_int i = show_nat (nat i)" using that by (simp add: show_int_def)
  have "c \<noteq> CHR '';''" "c \<noteq> CHR ''|''" "c \<noteq> NUL" if "is_digit c" for c using that by (auto simp: is_digit_def)
  moreover have "show_nat (nat i) \<noteq> []" by (subst show_nat.simps) simp
  ultimately show ?thesis using show_nat_digits [of "nat i"] unfolding db_word_def s by metis
qed

lemma concat_words: "(\<forall>v \<in> set vs. db_word v) \<Longrightarrow> concat (map (strtok (CHR ''|'')) vs) = vs"
  by (induction vs) (auto simp: strtok_word db_word_def)

definition counts_ok :: "BDXPERMISSSION_S \<Rightarrow> bool" where
  "counts_ok p \<longleftrightarrow> 0 \<le> mIntQueryTimes p \<and> mIntQueryTimes p < 2 ^ 31 \<and> 0 \<le> mIntGoodsTimes p \<and> mIntGoodsTimes p < 2 ^ 31"

lemma permission_words:
  assumes "db_word user" "db_word (mGoodsFields p)" "\<forall>v \<in> set (mVecFields p). db_word v" "counts_ok p"
    and "mResToken p = [] \<or> db_word (mResToken p)"
  shows "\<exists>s. join_columns '';'' 6 (permission_row user p (show_int (mIntQueryTimes p)) (show_int (mIntGoodsTimes p))) = Some s
    \<and> concat (map (strtok (CHR ''|'')) (strtok (CHR '';'') (cstr s))) =
      [user] @ (if mResToken p = [] then [] else [mResToken p])
      @ [show_int (mIntQueryTimes p), show_int (mIntGoodsTimes p), mGoodsFields p] @ mVecFields p"
proof -
  let ?q = "show_int (mIntQueryTimes p)" and ?g = "show_int (mIntGoodsTimes p)"
  let ?cols = "[user, mResToken p, ?q, ?g, mGoodsFields p, bar_join (mVecFields p)]"
  have i: "db_word ?q" "db_word ?g" using assms(4) by (simp_all add: show_int_word counts_ok_def)
  have "\<forall>v \<in> set ?cols. CHR '';'' \<notin> set v \<and> NUL \<notin> set v"
    using assms(1,2,5) i bar_join_chars [OF assms(3)] by (auto simp: db_word_def)
  then obtain s where s: "join_columns '';'' 6 (map Some ?cols) = Some s" "cstr s = s" "strtok (CHR '';'') s = filter (\<lambda>v. v \<noteq> []) ?cols"
    using split_columns [of ?cols 6] by auto
  have "concat (map (strtok (CHR ''|'')) (filter (\<lambda>v. v \<noteq> []) ?cols)) =
    concat (map (strtok (CHR ''|'')) (filter (\<lambda>v. v \<noteq> []) [user, mResToken p, ?q, ?g, mGoodsFields p])) @ mVecFields p"
    using strtok_bar_join [OF assms(3)] by (cases "bar_join (mVecFields p)") (auto simp: strtok_def)
  also have "concat (map (strtok (CHR ''|'')) (filter (\<lambda>v. v \<noteq> []) [user, mResToken p, ?q, ?g, mGoodsFields p])) =
    filter (\<lambda>v. v \<noteq> []) [user, mResToken p, ?q, ?g, mGoodsFields p]"
    using assms(1,2,5) i by (intro concat_words) auto
  finally show ?thesis using s assms(1,2) i by (intro exI [of _ s]) (auto simp: permission_row_def db_word_def)
qed

text \<open>
  C25. A record of the permission table survives the way through the client: the columns, joined with
  semicolons by \<open>GetColumnValue\<close>, are read back by \<open>GetMysqlFieldsUserInfo\<close> as the same user,
  token, limits and permissions, if no field contains a delimiter and none is empty. If the token is
  empty, every later field moves up: the query limit becomes the user's token, and the number of
  queries is the goods limit.
\<close>

theorem permission_record_round_trip:
  assumes "mysqlRow c = Some (permission_row user p (show_int (mIntQueryTimes p)) (show_int (mIntGoodsTimes p)))"
    and "pmysqlConn c = Some h" "mysql_field_count my h w = 6"
    and "db_word user" "db_word (mGoodsFields p)" "\<forall>v \<in> set (mVecFields p). db_word v" "counts_ok p"
    and "mResToken p = [] \<or> db_word (mResToken p)" "length (mVecFields p) < 1000" "mVecFields p \<noteq> []"
  shows "\<exists>s. GetColumnValue my c w = Some s \<and> GetMysqlFieldsUserInfo s =
    (if mResToken p \<noteq> [] then Some (user, p)
     else Some (user, \<lparr>mResToken = show_int (mIntQueryTimes p), mIntQueryTimes = mIntGoodsTimes p,
       mIntGoodsTimes = atoi (mGoodsFields p), mVecFields = tl (mVecFields p), mGoodsFields = hd (mVecFields p)\<rparr>))"
proof -
  obtain s where s: "join_columns '';'' 6 (permission_row user p (show_int (mIntQueryTimes p)) (show_int (mIntGoodsTimes p))) = Some s"
    and t: "concat (map (strtok (CHR ''|'')) (strtok (CHR '';'') (cstr s))) =
      [user] @ (if mResToken p = [] then [] else [mResToken p])
      @ [show_int (mIntQueryTimes p), show_int (mIntGoodsTimes p), mGoodsFields p] @ mVecFields p"
    using permission_words [OF assms(4-8)] by blast
  have v: "GetColumnValue my c w = Some s"
    using assms(1-3) s by (simp add: GetColumnValue_def GetColumnValue2_def GetMysqlTotalColumns_def)
  have a: "atoi (show_int (mIntQueryTimes p)) = mIntQueryTimes p" "atoi (show_int (mIntGoodsTimes p)) = mIntGoodsTimes p"
    using assms(7) by (auto simp: counts_ok_def intro!: atoi_show_int)
  show ?thesis
  proof (cases "mResToken p = []")
    case True
    then show ?thesis using v a assms(9,10) by (auto simp: GetMysqlFieldsUserInfo_def t Let_def neq_Nil_conv)
  next
    case False
    then show ?thesis using v a assms(9) by (auto simp: GetMysqlFieldsUserInfo_def t Let_def)
  qed
qed

definition demo_mysql :: "(unit, unit, unit) mysql" where
  "demo_mysql = \<lparr>mysql_init = (\<lambda>w. (Some (), w)), mysql_real_connect = (\<lambda>h a b c d e w. (Some (), w)), mysql_query = (\<lambda>h q w. (0, w)),
     mysql_use_result = (\<lambda>h w. (Some (), w)), mysql_fetch_row = (\<lambda>r w. (None, w)), mysql_field_count = (\<lambda>h w. 6),
     mysql_field_text = (\<lambda>r w. []), mysql_close = (\<lambda>h w. w), mysql_free_result = (\<lambda>r w. w)\<rparr>"

definition demo_permission :: "string \<Rightarrow> BDXPERMISSSION_S" where
  "demo_permission t = \<lparr>mResToken = t, mIntQueryTimes = 100, mIntGoodsTimes = 7, mVecFields = [''age'', ''city''], mGoodsFields = ''all''\<rparr>"

theorem permission_record_round_trip_witness:
  "\<exists>s. GetMysqlFieldsUserInfo s = Some (''u1'', demo_permission ''k1'')
     \<and> GetColumnValue demo_mysql (new_CMYSQL\<lparr>pmysqlConn := Some (), mysqlRow := Some (permission_row ''u1'' (demo_permission ''k1'') (show_int 100) (show_int 7))\<rparr>) () = Some s"
proof -
  let ?c = "new_CMYSQL\<lparr>pmysqlConn := Some (), mysqlRow := Some (permission_row ''u1'' (demo_permission ''k1'') (show_int 100) (show_int 7))\<rparr>"
  show ?thesis
    using permission_record_round_trip [of ?c "''u1''" "demo_permission ''k1''" "()" demo_mysql "()"]
    by (auto simp: demo_mysql_def demo_permission_def db_word_def counts_ok_def)
qed

text \<open>\<open>GetRecordFields\<close> never prints the first row: it prints the columns when it has it.\<close>

theorem get_record_fields_skips_first_row:
  assumes "pmysqlConn c = Some h" "mysql_query my h sql w = (0, w1)" "mysql_use_result my h w1 = (Some r, w2)"
    and "mysql_fetch_row my r w2 = (Some row, w3)" "mysql_fetch_row my r w3 = (None, w4)"
  shows "GetRecordFields my sql c w = Some (True, mysql_field_text my r w3, c\<lparr>pmysqlRes := Some r, mysqlRow := None\<rparr>, w4)"
  using assms by (simp add: GetRecordFields_def ExecuteMySql_def MysqlUseResult_def record_loop.simps Let_def)

end
