(* ===== verification/BookThreads.thy ===== *)
theory BookThreads
  imports TaskProps Reports
begin

text \<open>
  The workers, the statistics thread and the query log thread at the same time: the books of the
  workers (\<^verbatim>\<open>m_vecReport\<close> and \<^verbatim>\<open>m_vecHiveLog\<close> of \<open>CUserQueryWorkThreads\<close>) are written by
  \<^verbatim>\<open>src/src/UserQueryTask/TaskMain/TaskMain.cpp\<close> and read and emptied by \<open>Core\<close> of
  \<^verbatim>\<open>src/src/UserQueryCount/UserQueryCount.cpp\<close> and
  \<^verbatim>\<open>src/src/UserQueryHiveLog/UserQueryHiveLog.cpp\<close> with no lock. Every line that touches a book is
  a step, and the steps interleave in any order; the operator \<^verbatim>\<open>+=\<close> of a report takes a step for
  each entry. That a single line is atomic is assumed; the program does nothing for it.

  Result: a count that falls between the two lines of \<open>BdxQueryCountGetReport\<close> is lost, every
  other one is printed once; no record of the query log is lost or out of order. Left alone, the lines of the
  two threads make the rounds of \<open>Reports\<close>.
\<close>

section \<open>The lines of a worker\<close>

datatype counter = ReqNum | ResNum | EmptyResNum | ResTagNum | TotalEmptyResNum

fun number :: "counter \<Rightarrow> USERINFO_S \<Rightarrow> u64" where
  "number ReqNum i = m_ullReqNum i"
| "number ResNum i = m_ullResNum i"
| "number EmptyResNum i = m_ullEmptyResNum i"
| "number ResTagNum i = m_ullResTagNum i"
| "number TotalEmptyResNum i = m_ullTotalEmptyResNum i"

fun plus_one :: "counter \<Rightarrow> USERINFO_S \<Rightarrow> USERINFO_S" where
  "plus_one ReqNum i = inc_Req i"
| "plus_one ResNum i = inc_Res i"
| "plus_one EmptyResNum i = inc_EmptyRes i"
| "plus_one ResTagNum i = inc_ResTag i"
| "plus_one TotalEmptyResNum i = inc_TotalEmptyRes i"

text \<open>
  The lines of a task that touch its worker's books: \<^verbatim>\<open>m_vecReport[id].m_strUserInfo[k].n++\<close>, and
  the \<^verbatim>\<open>push\<close> of a log record.
\<close>

datatype book_line = AddOne counter string | LogRecord HIVELOCALLOG_S

fun write_line :: "book_line \<Rightarrow> UserQueryReport \<times> HIVELOCALLOG_S list \<Rightarrow> UserQueryReport \<times> HIVELOCALLOG_S list" where
  "write_line (AddOne c k) (r, h) = (map_set k (plus_one c (map_at zero_USERINFO k r)) r, h)"
| "write_line (LogRecord l) (r, h) = (r, h @ [l])"

section \<open>State\<close>

text \<open>
  The places of the statistics thread: opening the file; in \<^verbatim>\<open>m_stReport += m_vecReport[i]\<close> with
  the key the iterator has passed; before \<^verbatim>\<open>m_vecReport[i] = 0\<close>; before the rows are printed.
\<close>

datatype count_pc = CountOpen | CountAdd nat "string option" | CountClear nat | CountPrint

text \<open>
  The places of the query log thread: opening the file; reading the clock; testing the queue of
  worker \<open>i\<close>; before \<^verbatim>\<open>front\<close>, before \<^verbatim>\<open>pop\<close> and before the row is printed.
\<close>

datatype hive_pc = HiveOpen | HiveTime | HiveTest tm nat | HiveFront tm nat | HivePop tm nat | HivePrint tm nat

text \<open>
  The books, the two threads and the files. The last five members are history: the counts and
  records that workers have written (with the worker), the counts that came too late for the round,
  the rows and the records that have been printed.
\<close>

record Books =
  b_reports :: "UserQueryReport list"
  b_hives :: "HIVELOCALLOG_S list list"
  b_count :: CUserQueryCount
  b_cpc :: count_pc
  b_hive :: CUserQueryHiveLog
  b_stHiveLog :: HIVELOCALLOG_S
  b_hpc :: hive_pc
  b_fs :: FS
  b_made :: "(counter \<times> string) list"
  b_late :: "(counter \<times> string) list"
  b_rows :: "(string \<times> USERINFO_S) list"
  b_pushed :: "(nat \<times> HIVELOCALLOG_S) list"
  b_written :: "(nat \<times> HIVELOCALLOG_S) list"

section \<open>Steps\<close>

text \<open>The statistics thread has taken the entry of \<open>k\<close> out of the report of worker \<open>i\<close> for this round.\<close>

fun taken :: "count_pc \<Rightarrow> nat \<Rightarrow> string \<Rightarrow> bool" where
  "taken (CountAdd j (Some p)) i k = (i = j \<and> k \<le> p)"
| "taken (CountClear j) i k = (i = j)"
| "taken _ i k = False"

fun worker_step :: "nat \<Rightarrow> book_line \<Rightarrow> Books \<Rightarrow> Books" where
  "worker_step i (AddOne c k) b =
     b\<lparr>b_reports := (b_reports b)[i := fst (write_line (AddOne c k) (b_reports b ! i, []))],
       b_made := (c, k) # b_made b, b_late := (if taken (b_cpc b) i k then [(c, k)] else []) @ b_late b\<rparr>"
| "worker_step i (LogRecord l) b =
     b\<lparr>b_hives := (b_hives b)[i := snd (write_line (LogRecord l) ([], b_hives b ! i))], b_pushed := b_pushed b @ [(i, l)]\<rparr>"

text \<open>The iterator of a \<^verbatim>\<open>std::map\<close>: the next entry in key order, as the map is now.\<close>

definition next_entry :: "string option \<Rightarrow> UserQueryReport \<Rightarrow> (string \<times> USERINFO_S) option" where
  "next_entry prev r = List.find (\<lambda>(k, _). case prev of None \<Rightarrow> True | Some p \<Rightarrow> p < k) r"

definition count_step :: "(int \<Rightarrow> tm) \<Rightarrow> int \<Rightarrow> int \<Rightarrow> Books \<Rightarrow> Books option" where
  "count_step lt t1 t2 b =
     (case b_cpc b of
        CountOpen \<Rightarrow>
          map_option (\<lambda>(c, fs). b\<lparr>b_count := c, b_fs := fs, b_cpc := CountAdd 0 None\<rparr>)
            (BdxQueryCountOpenFile lt t1 t2 (b_count b) (b_fs b))
      | CountAdd i prev \<Rightarrow>
          Some (if i < length (b_reports b) then
                  (case next_entry prev (b_reports b ! i) of
                     None \<Rightarrow> b\<lparr>b_cpc := CountClear i\<rparr>
                   | Some (k, x) \<Rightarrow>
                       b\<lparr>b_count := (b_count b)\<lparr>m_stReport := report_add_entries [(k, x)] (m_stReport (b_count b))\<rparr>,
                         b_cpc := CountAdd i (Some k)\<rparr>)
                else b\<lparr>b_cpc := CountPrint\<rparr>)
      | CountClear i \<Rightarrow>
          Some (b\<lparr>b_reports := (b_reports b)[i := report_assign (b_reports b ! i) 0], b_cpc := CountAdd (i + 1) None\<rparr>)
      | CountPrint \<Rightarrow>
          map_option (\<lambda>fs. b\<lparr>b_fs := fs, b_rows := b_rows b @ m_stReport (b_count b),
              b_count := (b_count b)\<lparr>m_stReport := report_assign (m_stReport (b_count b)) 0\<rparr>, b_cpc := CountOpen\<rparr>)
            (print_rows (c_pFile (b_count b)) (map (count_row (lt t1)) (m_stReport (b_count b))) (b_fs b)))"

definition hive_step :: "(int \<Rightarrow> tm) \<Rightarrow> int \<Rightarrow> int \<Rightarrow> int \<Rightarrow> Books \<Rightarrow> Books option" where
  "hive_step lt t1 t2 t3 b =
     (case b_hpc b of
        HiveOpen \<Rightarrow>
          (case BdxQueryHiveLogOpenFile lt t1 t2 t3 (b_hive b) (b_fs b) of
             (h, fs) \<Rightarrow> Some (b\<lparr>b_hive := h, b_fs := fs, b_hpc := HiveTime\<rparr>))
      | HiveTime \<Rightarrow> Some (b\<lparr>b_hpc := HiveTest (lt t1) 0\<rparr>)
      | HiveTest t i \<Rightarrow>
          Some (if i < length (b_hives b) then
                  (if b_hives b ! i \<noteq> [] then b\<lparr>b_hpc := HiveFront t i\<rparr> else b\<lparr>b_hpc := HiveTest t (i + 1)\<rparr>)
                else b\<lparr>b_hpc := HiveOpen\<rparr>)
      | HiveFront t i \<Rightarrow>
          (case b_hives b ! i of
             [] \<Rightarrow> None
           | l # ls \<Rightarrow> Some (b\<lparr>b_stHiveLog := hive_assign (b_stHiveLog b) l, b_hpc := HivePop t i\<rparr>))
      | HivePop t i \<Rightarrow>
          (case b_hives b ! i of
             [] \<Rightarrow> None
           | l # ls \<Rightarrow> Some (b\<lparr>b_hives := (b_hives b)[i := ls], b_hpc := HivePrint t i\<rparr>))
      | HivePrint t i \<Rightarrow>
          map_option (\<lambda>fs. b\<lparr>b_fs := fs, b_written := b_written b @ [(i, b_stHiveLog b)], b_hpc := HiveTest t i\<rparr>)
            (print_rows (h_pFile (b_hive b)) [hive_row t (b_stHiveLog b)] (b_fs b)))"

datatype book_action = Worker nat book_line | Statistics int int | QueryLog int int int

definition book_act :: "(int \<Rightarrow> tm) \<Rightarrow> book_action \<Rightarrow> Books \<Rightarrow> Books option" where
  "book_act lt a b =
     (case a of
        Worker i l \<Rightarrow> if i < length (b_reports b) \<and> i < length (b_hives b) then Some (worker_step i l b) else None
      | Statistics t1 t2 \<Rightarrow> count_step lt t1 t2 b
      | QueryLog t1 t2 t3 \<Rightarrow> hive_step lt t1 t2 t3 b)"

text \<open>The program when the threads have been made: empty books for \<open>n\<close> workers.\<close>

definition new_books :: "nat \<Rightarrow> CUserQueryCount \<Rightarrow> CUserQueryHiveLog \<Rightarrow> HIVELOCALLOG_S \<Rightarrow> FS \<Rightarrow> Books" where
  "new_books n c h l fs =
     \<lparr>b_reports = replicate n [], b_hives = replicate n [], b_count = c\<lparr>m_stReport := []\<rparr>, b_cpc = CountOpen,
      b_hive = h, b_stHiveLog = l, b_hpc = HiveOpen, b_fs = fs,
      b_made = [], b_late = [], b_rows = [], b_pushed = [], b_written = []\<rparr>"

inductive books_reach :: "(int \<Rightarrow> tm) \<Rightarrow> Books \<Rightarrow> Books \<Rightarrow> bool" for lt b0 where
  books_init: "books_reach lt b0 b0"
| books_act: "books_reach lt b0 b \<Longrightarrow> book_act lt a b = Some b' \<Longrightarrow> books_reach lt b0 b'"

fun run_books :: "(int \<Rightarrow> tm) \<Rightarrow> book_action list \<Rightarrow> Books \<Rightarrow> Books option" where
  "run_books lt [] b = Some b"
| "run_books lt (a # as) b = (case book_act lt a b of None \<Rightarrow> None | Some b \<Rightarrow> run_books lt as b)"

lemma run_books_reach: "books_reach lt b0 b \<Longrightarrow> run_books lt as b = Some b' \<Longrightarrow> books_reach lt b0 b'"
  by (induction as arbitrary: b) (auto split: option.splits intro: books_act)

section \<open>Where every count is\<close>

lemma number_plus_one: "number c (plus_one d i) = number c i + (if c = d then 1 else 0)"
  by (cases c; cases d) simp_all

lemma number_zero [simp]: "number c zero_USERINFO = 0"
  by (cases c) (simp_all add: zero_USERINFO_def)

lemma number_add: "c \<noteq> TotalEmptyResNum \<Longrightarrow> number c (add_USERINFO a b) = number c a + number c b"
  by (cases c) (simp_all add: add_USERINFO_def)

text \<open>The counts of \<open>k\<close> that are printed, and those still in the report of worker \<open>i\<close> for this round.\<close>

definition printed :: "counter \<Rightarrow> string \<Rightarrow> (string \<times> USERINFO_S) list \<Rightarrow> nat" where
  "printed c k rows = (\<Sum>(j, x)\<leftarrow>rows. if j = k then unat (number c x) else 0)"

definition pending :: "counter \<Rightarrow> string \<Rightarrow> Books \<Rightarrow> nat \<Rightarrow> nat" where
  "pending c k b i = (if taken (b_cpc b) i k then 0 else unat (number c (map_at zero_USERINFO k (b_reports b ! i))))"

definition accounted :: "counter \<Rightarrow> string \<Rightarrow> Books \<Rightarrow> nat" where
  "accounted c k b = printed c k (b_rows b) + unat (number c (map_at zero_USERINFO k (m_stReport (b_count b))))
     + (\<Sum>i < length (b_reports b). pending c k b i) + count_list (b_late b) (c, k)"

definition counts_inv :: "Books \<Rightarrow> bool" where
  "counts_inv b \<longleftrightarrow> list_all map_wf (b_reports b) \<and> map_wf (m_stReport (b_count b))
     \<and> (\<forall>c k. c \<noteq> TotalEmptyResNum \<longrightarrow> count_list (b_made b) (c, k) < 2 ^ 64 \<longrightarrow>
          accounted c k b = count_list (b_made b) (c, k))"

lemma counts_invI:
  assumes "list_all map_wf (b_reports b)" "map_wf (m_stReport (b_count b))"
    "\<And>c k. c \<noteq> TotalEmptyResNum \<Longrightarrow> count_list (b_made b) (c, k) < 2 ^ 64 \<Longrightarrow> accounted c k b = count_list (b_made b) (c, k)"
  shows "counts_inv b"
  using assms by (simp add: counts_inv_def)

lemma counts_invD:
  assumes "counts_inv b"
  shows "list_all map_wf (b_reports b)" "map_wf (m_stReport (b_count b))"
    "c \<noteq> TotalEmptyResNum \<Longrightarrow> count_list (b_made b) (c, k) < 2 ^ 64 \<Longrightarrow> accounted c k b = count_list (b_made b) (c, k)"
  using assms by (auto simp: counts_inv_def)

lemma counts_inv_new: "counts_inv (new_books n c h l fs)"
  by (auto simp: counts_inv_def new_books_def accounted_def printed_def pending_def map_at_def list_all_length)

text \<open>A sum in which one summand changes.\<close>

lemma sum_one_changes:
  fixes f g :: "nat \<Rightarrow> nat"
  assumes "i < n" "\<And>j. j < n \<Longrightarrow> j \<noteq> i \<Longrightarrow> g j = f j"
  shows "(\<Sum>j < n. g j) + f i = (\<Sum>j < n. f j) + g i"
proof -
  have "(\<Sum>j \<in> {..<n} - {i}. g j) = (\<Sum>j \<in> {..<n} - {i}. f j)" by (rule sum.cong) (use assms(2) in auto)
  then show ?thesis using assms(1) sum.remove [OF finite_lessThan [of n], of i g] sum.remove [OF finite_lessThan [of n], of i f] by simp
qed

lemma wf_update: "list_all map_wf rs \<Longrightarrow> map_wf r \<Longrightarrow> list_all map_wf (rs[i := r])"
  by (cases "i < length rs") (auto simp: list_all_length nth_list_update)

lemma accounted_le:
  assumes "i < length (b_reports b)"
  shows "unat (number c (map_at zero_USERINFO k (m_stReport (b_count b)))) + pending c k b i \<le> accounted c k b"
  using assms member_le_sum [of i "{..<length (b_reports b)}" "pending c k b"] by (simp add: accounted_def)

lemma unat_plus_small: "unat a + unat b < 2 ^ 64 \<Longrightarrow> unat (a + b :: u64) = unat a + unat b"
  by (simp add: unat_word_ariths)

lemma counts_inv_worker:
  assumes inv: "counts_inv b" and i: "i < length (b_reports b)"
  shows "counts_inv (worker_step i l b)"
proof (cases l)
  case (AddOne d m)
  let ?b = "worker_step i l b"
  note iv = counts_invD [OF inv]
  have wf: "map_wf (b_reports b ! i)" using iv(1) i by (simp add: list_all_length)
  show ?thesis
  proof (rule counts_invI)
    show "list_all map_wf (b_reports ?b)" using wf_update [OF iv(1) map_wf_set [OF wf]] by (simp add: AddOne)
    show "map_wf (m_stReport (b_count ?b))" using iv(2) by (simp add: AddOne)
    fix c k assume c: "c \<noteq> TotalEmptyResNum" and made: "count_list (b_made ?b) (c, k) < 2 ^ 64"
    have made': "count_list (b_made b) (c, k) < 2 ^ 64" using made by (auto simp: AddOne split: if_splits)
    note eq = iv(3) [OF c made']
    have other: "pending c k ?b j = pending c k b j" if "j \<noteq> i" for j using that by (simp add: AddOne pending_def)
    have here: "pending c k ?b i = pending c k b i + (if (c, k) = (d, m) \<and> \<not> taken (b_cpc b) i k then 1 else 0)"
    proof (cases "(c, k) = (d, m) \<and> \<not> taken (b_cpc b) i k")
      case True
      then have "unat (number c (map_at zero_USERINFO k (b_reports b ! i))) + unat (1 :: u64) < 2 ^ 64"
        using accounted_le [OF i, of c k] eq made by (auto simp: AddOne pending_def)
      from unat_plus_small [OF this] True i show ?thesis
        by (simp add: AddOne pending_def map_at_def [of _ _ "map_set _ _ _"] number_plus_one)
    next
      case False
      then show ?thesis using i by (auto simp: AddOne pending_def map_at_def [of _ _ "map_set _ _ _"] number_plus_one map_at_def)
    qed
    have "(\<Sum>j < length (b_reports b). pending c k ?b j) + pending c k b i
        = (\<Sum>j < length (b_reports b). pending c k b j) + pending c k ?b i"
      by (rule sum_one_changes [OF i]) (rule other)
    moreover have "accounted c k ?b = printed c k (b_rows b) + unat (number c (map_at zero_USERINFO k (m_stReport (b_count b))))
        + (\<Sum>j < length (b_reports b). pending c k ?b j) + count_list (b_late ?b) (c, k)"
      by (simp add: accounted_def AddOne)
    moreover have "count_list (b_late ?b) (c, k) = count_list (b_late b) (c, k) + (if (c, k) = (d, m) \<and> taken (b_cpc b) i k then 1 else 0)"
      "count_list (b_made ?b) (c, k) = count_list (b_made b) (c, k) + (if (c, k) = (d, m) then 1 else 0)"
      by (auto simp: AddOne)
    ultimately show "accounted c k ?b = count_list (b_made ?b) (c, k)"
      using eq here unfolding accounted_def [of c k b] by (auto split: if_splits)
  qed
next
  case (LogRecord r)
  have "pending c k (worker_step i l b) = pending c k b" for c k by (simp add: pending_def LogRecord fun_eq_iff)
  then show ?thesis using inv by (simp add: counts_inv_def accounted_def LogRecord)
qed

text \<open>The next entry of an iterator: none of the keys in between is in the map.\<close>

lemma next_entry_Some:
  assumes "next_entry prev r = Some (k, x)" "map_wf r"
  shows "map_of r k = Some x" "prev = Some p \<Longrightarrow> p < k"
    "(case prev of None \<Rightarrow> True | Some p \<Rightarrow> p < j) \<Longrightarrow> j < k \<Longrightarrow> map_of r j = None"
proof -
  let ?P = "\<lambda>(j :: string, _ :: USERINFO_S). case prev of None \<Rightarrow> True | Some p \<Rightarrow> p < j"
  obtain n where n: "n < length r" "r ! n = (k, x)" "?P (k, x)" "\<forall>m < n. \<not> ?P (r ! m)"
    using assms(1) by (fastforce simp: next_entry_def find_Some_iff)
  have "(k, x) \<in> set r" using nth_mem [OF n(1)] n(2) by simp
  then show "map_of r k = Some x" using map_wf_of [OF assms(2)] by simp
  show "prev = Some p \<Longrightarrow> p < k" using n(3) by simp
  assume j: "case prev of None \<Rightarrow> True | Some p \<Rightarrow> p < j" "j < k"
  show "map_of r j = None"
  proof (rule ccontr)
    assume "map_of r j \<noteq> None"
    then obtain y where "(j, y) \<in> set r" using map_of_SomeD by fast
    then obtain m where m: "m < length r" "r ! m = (j, y)" by (auto simp: in_set_conv_nth)
    have "n \<le> m" using n(4) m(2) j(1) by (metis (mono_tags, lifting) case_prod_conv not_less)
    moreover have "sorted_wrt (<) (map fst r)" using assms(2) by (simp add: map_wf_def)
    ultimately have "k \<le> j" using sorted_wrt_nth_less [of "(<)" "map fst r" n m] m n(1,2) by (cases "n = m") auto
    with j(2) show False by simp
  qed
qed

lemma next_entry_None:
  assumes "next_entry prev r = None" "case prev of None \<Rightarrow> True | Some p \<Rightarrow> p < j"
  shows "map_of r j = None"
proof (rule ccontr)
  assume "map_of r j \<noteq> None"
  then obtain y where "(j, y) \<in> set r" using map_of_SomeD by fast
  then show False using assms by (auto simp: next_entry_def find_None_iff)
qed

lemma pending_absent: "map_of (b_reports b ! i) k = None \<Longrightarrow> pending c k b i = 0"
  by (simp add: pending_def map_at_def)

lemma taken_add: "taken (CountAdd i prev) j k \<longleftrightarrow> i = j \<and> \<not> (case prev of None \<Rightarrow> True | Some p \<Rightarrow> p < k)"
  by (cases prev) (auto simp: not_less)

text \<open>A step of the statistics thread that moves no count.\<close>

lemma counts_inv_quiet:
  assumes "counts_inv b" "b_reports b' = b_reports b" "m_stReport (b_count b') = m_stReport (b_count b)"
    "b_made b' = b_made b" "b_late b' = b_late b" "b_rows b' = b_rows b"
    and "\<And>c k i. i < length (b_reports b) \<Longrightarrow> pending c k b' i = pending c k b i"
  shows "counts_inv b'"
proof -
  have "accounted c k b' = accounted c k b" for c k using assms(2-7) by (simp add: accounted_def)
  then show ?thesis using assms(1-6) by (simp add: counts_inv_def)
qed

text \<open>One entry moves from the report of the worker into that of the statistics thread.\<close>

lemma counts_inv_entry:
  assumes inv: "counts_inv b" and pc: "b_cpc b = CountAdd i prev" "i < length (b_reports b)"
    and e: "next_entry prev (b_reports b ! i) = Some (m, x)"
  shows "counts_inv (b\<lparr>b_count := (b_count b)\<lparr>m_stReport := report_add_entries [(m, x)] (m_stReport (b_count b))\<rparr>,
           b_cpc := CountAdd i (Some m)\<rparr>)" (is "counts_inv ?b")
proof -
  note iv = counts_invD [OF inv]
  have wf: "map_wf (b_reports b ! i)" using iv(1) pc(2) by (simp add: list_all_length)
  note ne = next_entry_Some [OF e wf]
  show ?thesis
  proof (rule counts_invI)
    show "map_wf (m_stReport (b_count ?b))" using map_wf_set [OF iv(2)] by simp
    fix c k assume c: "c \<noteq> TotalEmptyResNum" and made: "count_list (b_made ?b) (c, k) < 2 ^ 64"
    have eq: "accounted c k b = count_list (b_made b) (c, k)" using iv(3) [OF c] made by simp
    have other: "pending c k ?b j = pending c k b j" if "j \<noteq> i" for j using that pc(1) by (simp add: pending_def taken_add)
    have moved: "unat (number c (map_at zero_USERINFO k (m_stReport (b_count ?b)))) + pending c k ?b i
        = unat (number c (map_at zero_USERINFO k (m_stReport (b_count b)))) + pending c k b i"
    proof (cases "k = m")
      case True
      have p: "pending c k b i = unat (number c x)"
        using ne(1,2) True pc(1) by (auto simp: pending_def taken_add map_at_def split: option.split)
      have "unat (number c (map_at zero_USERINFO k (m_stReport (b_count b)))) + unat (number c x) < 2 ^ 64"
        using accounted_le [OF pc(2), of c k] eq made p by simp
      from unat_plus_small [OF this] True p show ?thesis
        by (simp add: pending_def map_at_def [of _ _ "map_set _ _ _"] number_add [OF c])
    next
      case False
      have "pending c k ?b i = pending c k b i"
      proof (cases "\<not> k < m \<or> (\<exists>p. prev = Some p \<and> k \<le> p)")
        case True
        then show ?thesis using pc(1) False ne(2) by (auto simp: pending_def taken_add split: option.splits)
      next
        case gap: False
        then have "map_of (b_reports b ! i) k = None" using ne(3) [of k] by (auto simp: not_le split: option.split)
        then show ?thesis using pending_absent [of ?b i] pending_absent [of b i] by simp
      qed
      with False show ?thesis by (simp add: map_at_def [of _ _ "map_set _ _ _"] map_at_def [of _ _ "m_stReport _"])
    qed
    have "(\<Sum>j < length (b_reports b). pending c k ?b j) + pending c k b i
        = (\<Sum>j < length (b_reports b). pending c k b j) + pending c k ?b i"
      by (rule sum_one_changes [OF pc(2)]) (rule other)
    with moved eq show "accounted c k ?b = count_list (b_made ?b) (c, k)" by (simp add: accounted_def)
  qed (use iv(1) in simp)
qed

lemma printed_append: "printed c k (xs @ ys) = printed c k xs + printed c k ys"
  by (simp add: printed_def)

lemma printed_map: "map_wf m \<Longrightarrow> printed c k m = unat (number c (map_at zero_USERINFO k m))"
proof -
  assume wf: "map_wf m"
  have "printed c k m = (\<Sum>(j, x)\<leftarrow>filter (\<lambda>(j, _). j = k) m. unat (number c x))"
    unfolding printed_def by (induction m) auto
  then show ?thesis by (simp add: filter_key [OF map_wf_distinct [OF wf]] map_at_def split: option.split)
qed

lemma counts_inv_count:
  assumes inv: "counts_inv b" and e: "count_step lt t1 t2 b = Some b'"
  shows "counts_inv b'"
proof (cases "b_cpc b")
  case CountOpen
  then obtain c fs where "BdxQueryCountOpenFile lt t1 t2 (b_count b) (b_fs b) = Some (c, fs)"
    and b': "b' = b\<lparr>b_count := c, b_fs := fs, b_cpc := CountAdd 0 None\<rparr>" using e by (auto simp: count_step_def)
  then have "m_stReport c = m_stReport (b_count b)" using OpenFile_cases by blast
  then show ?thesis by (intro counts_inv_quiet [OF inv]) (simp_all add: b' pending_def CountOpen)
next
  case (CountAdd i prev)
  show ?thesis
  proof (cases "i < length (b_reports b)")
    case True
    show ?thesis
    proof (cases "next_entry prev (b_reports b ! i)")
      case None
      then have b': "b' = b\<lparr>b_cpc := CountClear i\<rparr>" using e CountAdd True by (simp add: count_step_def)
      have "pending c k b' j = pending c k b j" for c k j
      proof (cases "j = i \<and> (case prev of None \<Rightarrow> True | Some p \<Rightarrow> p < k)")
        case True
        then have "map_of (b_reports b ! j) k = None" using next_entry_None [OF None, of k] by simp
        then show ?thesis using pending_absent [of b j] pending_absent [of b' j] by (simp add: b')
      next
        case False
        then show ?thesis using CountAdd by (auto simp: pending_def b' taken_add)
      qed
      then show ?thesis by (intro counts_inv_quiet [OF inv]) (simp_all add: b')
    next
      case (Some kx)
      then show ?thesis using e CountAdd True counts_inv_entry [OF inv CountAdd True] by (cases kx) (simp add: count_step_def)
    qed
  next
    case False
    then have b': "b' = b\<lparr>b_cpc := CountPrint\<rparr>" using e CountAdd by (simp add: count_step_def)
    then show ?thesis using False CountAdd
      by (intro counts_inv_quiet [OF inv]) (auto simp: pending_def taken_add)
  qed
next
  case (CountClear i)
  then have b': "b' = b\<lparr>b_reports := (b_reports b)[i := []], b_cpc := CountAdd (i + 1) None\<rparr>"
    using e by (simp add: count_step_def report_assign_def)
  have "pending c k b' j = pending c k b j" if "j < length (b_reports b)" for c k j
    using that CountClear by (cases "j = i") (simp_all add: b' pending_def map_at_def)
  then have "accounted c k b' = accounted c k b" for c k by (simp add: accounted_def b')
  moreover have "list_all map_wf (b_reports b')" using wf_update [OF counts_invD(1) [OF inv], of "[]" i] by (simp add: b')
  ultimately show ?thesis using inv by (simp add: counts_inv_def b')
next
  case CountPrint
  obtain fs where b': "b' = b\<lparr>b_fs := fs, b_rows := b_rows b @ m_stReport (b_count b),
      b_count := (b_count b)\<lparr>m_stReport := []\<rparr>, b_cpc := CountOpen\<rparr>"
    using e CountPrint by (auto simp: count_step_def report_assign_def)
  have "pending c k b' = pending c k b" for c k using CountPrint by (simp add: pending_def b' fun_eq_iff)
  then have "accounted c k b' = accounted c k b" for c k
    using printed_map [OF counts_invD(2) [OF inv]] by (simp add: accounted_def b' printed_append map_at_def)
  then show ?thesis using inv by (simp add: counts_inv_def b')
qed

lemma hive_step_counts:
  assumes "hive_step lt t1 t2 t3 b = Some b'"
  shows "b_reports b' = b_reports b" "b_count b' = b_count b" "b_cpc b' = b_cpc b" "b_made b' = b_made b"
    "b_late b' = b_late b" "b_rows b' = b_rows b" "b_pushed b' = b_pushed b" "length (b_hives b') = length (b_hives b)"
  using assms by (auto simp: hive_step_def split: hive_pc.splits prod.splits list.splits if_splits)

lemma counts_inv_reach: "books_reach lt (new_books n c h l fs) b \<Longrightarrow> counts_inv b"
proof (induction rule: books_reach.induct)
  case (books_act b a b')
  show ?case
  proof (cases a)
    case (QueryLog t1 t2 t3)
    then have s: "hive_step lt t1 t2 t3 b = Some b'" using books_act(2) by (simp add: book_act_def)
    show ?thesis using hive_step_counts [OF s]
      by (intro counts_inv_quiet [OF books_act.IH]) (simp_all add: pending_def)
  qed (use books_act in \<open>auto simp: book_act_def counts_inv_worker counts_inv_count split: if_splits\<close>)
qed (rule counts_inv_new)

section \<open>The query log\<close>

definition of_worker :: "nat \<Rightarrow> (nat \<times> HIVELOCALLOG_S) list \<Rightarrow> HIVELOCALLOG_S list" where
  "of_worker i xs = map snd (filter (\<lambda>(j, _). j = i) xs)"

lemma of_worker_simps [simp]: "of_worker i [] = []" "of_worker i (xs @ ys) = of_worker i xs @ of_worker i ys"
  "of_worker i ((j, l) # xs) = (if j = i then [l] else []) @ of_worker i xs"
  by (simp_all add: of_worker_def)

text \<open>The record that is out of the queue and not yet in the file.\<close>

definition in_hand :: "nat \<Rightarrow> Books \<Rightarrow> HIVELOCALLOG_S list" where
  "in_hand i b = (case b_hpc b of HivePrint t j \<Rightarrow> if j = i then [b_stHiveLog b] else [] | _ \<Rightarrow> [])"

definition records_inv :: "Books \<Rightarrow> bool" where
  "records_inv b \<longleftrightarrow>
     (\<forall>i < length (b_hives b). of_worker i (b_pushed b) = of_worker i (b_written b) @ in_hand i b @ b_hives b ! i)
     \<and> (case b_hpc b of
          HiveFront t i \<Rightarrow> i < length (b_hives b) \<and> b_hives b ! i \<noteq> []
        | HivePop t i \<Rightarrow> i < length (b_hives b) \<and> (\<exists>ls. b_hives b ! i = b_stHiveLog b # ls)
        | HivePrint t i \<Rightarrow> i < length (b_hives b)
        | _ \<Rightarrow> True)"

lemma records_inv_worker: "records_inv b \<Longrightarrow> i < length (b_hives b) \<Longrightarrow> records_inv (worker_step i l b)"
  by (cases l) (auto simp: records_inv_def in_hand_def nth_list_update split: hive_pc.splits)

lemma records_inv_hive:
  assumes "records_inv b" "hive_step lt t1 t2 t3 b = Some b'"
  shows "records_inv b'"
  using assms
  by (cases "b_hpc b")
     (auto simp: hive_step_def records_inv_def in_hand_def nth_list_update hive_assign_copies neq_Nil_conv
        split: prod.splits list.splits if_splits)

lemma count_step_records:
  assumes "count_step lt t1 t2 b = Some b'"
  shows "b_hives b' = b_hives b" "b_hpc b' = b_hpc b" "b_stHiveLog b' = b_stHiveLog b" "b_pushed b' = b_pushed b"
    "b_written b' = b_written b" "length (b_reports b') = length (b_reports b)"
  using assms by (auto simp: count_step_def split: count_pc.splits option.splits if_splits)

lemma records_inv_reach: "books_reach lt (new_books n c h l fs) b \<Longrightarrow> records_inv b"
proof (induction rule: books_reach.induct)
  case books_init
  show ?case by (simp add: records_inv_def new_books_def in_hand_def)
next
  case (books_act b a b')
  show ?case
  proof (cases a)
    case (Statistics t1 t2)
    then have s: "count_step lt t1 t2 b = Some b'" using books_act(2) by (simp add: book_act_def)
    show ?thesis using books_act.IH count_step_records [OF s] by (cases "b_hpc b") (simp_all add: records_inv_def in_hand_def)
  qed (use books_act in \<open>auto simp: book_act_def records_inv_worker records_inv_hive split: if_splits\<close>)
qed

text \<open>The threads never stop on an empty queue: \<^verbatim>\<open>front\<close> and \<^verbatim>\<open>pop\<close> find a record.\<close>

lemma front_and_pop_defined:
  "records_inv b \<Longrightarrow> b_hpc b = HiveFront t i \<or> b_hpc b = HivePop t i \<Longrightarrow> hive_step lt t1 t2 t3 b \<noteq> None"
  by (auto simp: records_inv_def hive_step_def split: list.split)

section \<open>Properties\<close>

text \<open>
  C4. The statistics against the workers, in any interleaving of lines: for every user and each of
  the printed counters, what the workers have counted is what has been printed, plus what the
  statistics thread has added up for this round, plus what is still in the workers' reports, plus exactly the
  counts that were made between the reading and the clearing of that entry, which nobody will print.
  So a count is never printed twice, and none is lost outside that gap.
\<close>

theorem statistics_lose_only_the_gap:
  assumes "books_reach lt (new_books n c0 h l fs) b" "c \<noteq> TotalEmptyResNum" "count_list (b_made b) (c, k) < 2 ^ 64"
  shows "count_list (b_made b) (c, k) =
    printed c k (b_rows b) + unat (number c (map_at zero_USERINFO k (m_stReport (b_count b))))
    + (\<Sum>i < length (b_reports b). if taken (b_cpc b) i k then 0 else unat (number c (map_at zero_USERINFO k (b_reports b ! i))))
    + count_list (b_late b) (c, k)"
  using counts_invD(3) [OF counts_inv_reach [OF assms(1)] assms(2,3)] by (simp add: accounted_def pending_def)

text \<open>
  C6. The query log against the workers, in any interleaving of lines: for each worker, the records
  that were printed, then the one in the hand of the query log thread, then those in the queue are
  the records the worker has pushed, in that order. Nothing is lost, printed twice or reordered.
\<close>

theorem query_log_keeps_order:
  assumes "books_reach lt (new_books n c0 h l fs) b" "i < length (b_hives b)"
  shows "of_worker i (b_pushed b) = of_worker i (b_written b)
    @ (case b_hpc b of HivePrint t j \<Rightarrow> if j = i then [b_stHiveLog b] else [] | _ \<Rightarrow> []) @ b_hives b ! i"
  using records_inv_reach [OF assms(1)] assms(2) by (simp add: records_inv_def in_hand_def)

text \<open>
  A run of one round of the statistics with one worker: two requests of user \<open>u\<close> are counted, one of them
  between \<^verbatim>\<open>+=\<close> and \<^verbatim>\<open>= 0\<close>.
\<close>

definition gap_run :: "book_action list" where
  "gap_run = [Worker 0 (AddOne ReqNum ''u''), Statistics 0 0, Statistics 0 0, Statistics 0 0,
     Worker 0 (AddOne ReqNum ''u''), Statistics 0 0, Statistics 0 0, Statistics 0 0]"

definition gap_start :: Books where
  "gap_start = new_books 1 demo_count demo_hive (demo_record []) demo_count_fs"

lemma gap_run_result:
  "\<exists>b. run_books demo_lt gap_run gap_start = Some b \<and> count_list (b_made b) (ReqNum, ''u'') = 2
     \<and> count_list (b_late b) (ReqNum, ''u'') = 1 \<and> m_stReport (b_count b) = [] \<and> b_reports b = [[]] \<and> b_cpc b = CountOpen"
proof -
  have "map_option (\<lambda>b. (count_list (b_made b) (ReqNum, ''u''), count_list (b_late b) (ReqNum, ''u''),
      m_stReport (b_count b), b_reports b, b_cpc b)) (run_books demo_lt gap_run gap_start) = Some (2, 1, [], [[]], CountOpen)"
    by code_simp
  then show ?thesis by (cases "run_books demo_lt gap_run gap_start") auto
qed

lemma gap_reach: "run_books lt as gap_start = Some b \<Longrightarrow> books_reach lt (new_books 1 demo_count demo_hive (demo_record []) demo_count_fs) b"
  using run_books_reach [OF books_init, of lt as gap_start b] by (simp add: gap_start_def)

theorem statistics_lose_only_the_gap_witness:
  "\<exists>b. run_books demo_lt gap_run gap_start = Some b \<and> count_list (b_made b) (ReqNum, ''u'') = 2
     \<and> printed ReqNum ''u'' (b_rows b) = 1 \<and> m_stReport (b_count b) = [] \<and> b_reports b = [[]]"
proof -
  obtain b where b: "run_books demo_lt gap_run gap_start = Some b" "count_list (b_made b) (ReqNum, ''u'') = 2"
    "count_list (b_late b) (ReqNum, ''u'') = 1" "m_stReport (b_count b) = []" "b_reports b = [[]]" "b_cpc b = CountOpen"
    using gap_run_result by blast
  then have "printed ReqNum ''u'' (b_rows b) = 1"
    using statistics_lose_only_the_gap [OF gap_reach [OF b(1)], of ReqNum "''u''"] by (simp add: map_at_def)
  with b show ?thesis by blast
qed

theorem query_log_keeps_order_witness:
  "\<exists>b. run_books demo_lt [Worker 0 (LogRecord (demo_record ''a'')), Worker 0 (LogRecord (demo_record ''b'')), QueryLog 0 0 0, QueryLog 0 0 0,
       QueryLog 0 0 0, QueryLog 0 0 0, QueryLog 0 0 0, QueryLog 0 0 0] gap_start = Some b
     \<and> of_worker 0 (b_pushed b) = [demo_record ''a'', demo_record ''b''] \<and> of_worker 0 (b_written b) = [demo_record ''a'']"
proof -
  let ?as = "[Worker 0 (LogRecord (demo_record ''a'')), Worker 0 (LogRecord (demo_record ''b'')), QueryLog 0 0 0, QueryLog 0 0 0,
       QueryLog 0 0 0, QueryLog 0 0 0, QueryLog 0 0 0, QueryLog 0 0 0]"
  have "map_option (\<lambda>b. (b_hives b, b_hpc b, of_worker 0 (b_pushed b))) (run_books demo_lt ?as gap_start)
      = Some ([[demo_record ''b'']], HiveTest (demo_lt 0) 0, [demo_record ''a'', demo_record ''b''])"
    by code_simp
  then obtain b where b: "run_books demo_lt ?as gap_start = Some b" "b_hives b = [[demo_record ''b'']]"
    "b_hpc b = HiveTest (demo_lt 0) 0" "of_worker 0 (b_pushed b) = [demo_record ''a'', demo_record ''b'']"
    by (cases "run_books demo_lt ?as gap_start") auto
  then have "of_worker 0 (b_written b) = [demo_record ''a'']"
    using query_log_keeps_order [OF gap_reach [OF b(1)], of 0] by simp
  with b show ?thesis by blast
qed

section \<open>Undisturbed, the lines make the rounds\<close>

lemma run_books_append: "run_books lt (as @ bs) b = Option.bind (run_books lt as b) (run_books lt bs)"
  by (induction as arbitrary: b) (auto split: option.split)

lemma next_entry_at:
  assumes "map_wf (pre @ todo)" "prev = (if pre = [] then None else Some (fst (last pre)))"
  shows "next_entry prev (pre @ todo) = (case todo of [] \<Rightarrow> None | e # _ \<Rightarrow> Some e)"
proof -
  let ?P = "\<lambda>(j :: string, _ :: USERINFO_S). case prev of None \<Rightarrow> True | Some p \<Rightarrow> p < j"
  have "\<not> ?P e" if e: "e \<in> set pre" for e
  proof -
    obtain ps p where p: "pre = ps @ [p]" using e by (cases pre rule: rev_cases) auto
    then have "\<forall>q \<in> set ps. fst q < fst p" using assms(1) by (auto simp: map_wf_def sorted_wrt_append)
    then have "fst e \<le> fst p" using e p by (auto dest: less_imp_le)
    then show ?thesis using assms(2) p by (cases e) simp
  qed
  moreover have "?P e" if "todo = e # es" for e es
    using assms that by (cases pre rule: rev_cases) (auto simp: map_wf_def sorted_wrt_append)
  moreover have "List.find P (xs @ ys) = List.find P ys" if "\<forall>x \<in> set xs. \<not> P x" for P :: "string \<times> USERINFO_S \<Rightarrow> bool" and xs ys
    using that by (induction xs) auto
  ultimately show ?thesis by (auto simp: next_entry_def split: list.split)
qed

lemma add_lines:
  assumes "b_cpc b = CountAdd i prev" "i < length (b_reports b)" "b_reports b ! i = pre @ todo" "map_wf (pre @ todo)"
    "prev = (if pre = [] then None else Some (fst (last pre)))"
  shows "run_books lt (replicate (length todo + 1) (Statistics t1 t2)) b =
    Some (b\<lparr>b_count := (b_count b)\<lparr>m_stReport := report_add_entries todo (m_stReport (b_count b))\<rparr>, b_cpc := CountClear i\<rparr>)"
  using assms
proof (induction todo arbitrary: b pre prev)
  case Nil
  then show ?case using next_entry_at [OF Nil(4,5)] by (simp add: book_act_def count_step_def)
next
  case (Cons e todo)
  obtain k x where e: "e = (k, x)" by force
  let ?b = "b\<lparr>b_count := (b_count b)\<lparr>m_stReport := report_add_entries [(k, x)] (m_stReport (b_count b))\<rparr>, b_cpc := CountAdd i (Some k)\<rparr>"
  have "count_step lt t1 t2 b = Some ?b"
    using Cons.prems(1,2,3) next_entry_at [OF Cons.prems(4,5)] by (simp add: count_step_def e)
  then have 1: "run_books lt [Statistics t1 t2] b = Some ?b" by (simp add: book_act_def)
  have "run_books lt (replicate (length todo + 1) (Statistics t1 t2)) ?b =
      Some (?b\<lparr>b_count := (b_count ?b)\<lparr>m_stReport := report_add_entries todo (m_stReport (b_count ?b))\<rparr>, b_cpc := CountClear i\<rparr>)"
    by (rule Cons.IH [of _ "Some k" "pre @ [e]"]) (use Cons.prems(2,3,4) in \<open>simp_all add: e\<close>)
  moreover have "replicate (length (e # todo) + 1) a = [a] @ replicate (length todo + 1) a" for a :: book_action by simp
  ultimately show ?case by (simp only: run_books_append 1 Option.bind.bind_lunit) (simp add: e)
qed

lemma report_lines:
  assumes "b_cpc b = CountAdd i None" "list_all map_wf (b_reports b)" "i \<le> length (b_reports b)"
  shows "\<exists>n. run_books lt (replicate n (Statistics t1 t2)) b =
    Some (b\<lparr>b_count := (b_count b)\<lparr>m_stReport := fold (\<lambda>r m. report_add m r) (drop i (b_reports b)) (m_stReport (b_count b))\<rparr>,
      b_reports := take i (b_reports b) @ map (\<lambda>_. []) (drop i (b_reports b)), b_cpc := CountPrint\<rparr>)"
  using assms
proof (induction "length (b_reports b) - i" arbitrary: b i)
  case 0
  then have "run_books lt (replicate 1 (Statistics t1 t2)) b = Some (b\<lparr>b_cpc := CountPrint\<rparr>)"
    by (simp add: book_act_def count_step_def)
  then show ?case using 0 by (intro exI [of _ 1]) simp
next
  case (Suc d)
  then have i: "i < length (b_reports b)" by simp
  let ?r = "b_reports b ! i"
  have wf: "map_wf ?r" using Suc.prems(2) i by (simp add: list_all_length)
  let ?b1 = "b\<lparr>b_count := (b_count b)\<lparr>m_stReport := report_add (m_stReport (b_count b)) ?r\<rparr>, b_cpc := CountClear i\<rparr>"
  have 1: "run_books lt (replicate (length ?r + 1) (Statistics t1 t2)) b = Some ?b1"
    using add_lines [OF Suc.prems(1) i, of "[]" ?r] wf by (simp add: report_add_def)
  let ?b2 = "?b1\<lparr>b_reports := (b_reports b)[i := []], b_cpc := CountAdd (i + 1) None\<rparr>"
  have 2: "run_books lt [Statistics t1 t2] ?b1 = Some ?b2" by (simp add: book_act_def count_step_def report_assign_def)
  have "\<exists>n. run_books lt (replicate n (Statistics t1 t2)) ?b2 =
      Some (?b2\<lparr>b_count := (b_count ?b2)\<lparr>m_stReport := fold (\<lambda>r m. report_add m r) (drop (i + 1) (b_reports ?b2)) (m_stReport (b_count ?b2))\<rparr>,
      b_reports := take (i + 1) (b_reports ?b2) @ map (\<lambda>_. []) (drop (i + 1) (b_reports ?b2)), b_cpc := CountPrint\<rparr>)"
    by (rule Suc.hyps(1)) (use Suc.hyps(2) Suc.prems(2) i wf_update [OF Suc.prems(2), of "[]" i] in simp_all)
  then obtain n where 3: "run_books lt (replicate n (Statistics t1 t2)) ?b2 =
      Some (?b2\<lparr>b_count := (b_count ?b2)\<lparr>m_stReport := fold (\<lambda>r m. report_add m r) (drop (i + 1) (b_reports ?b2)) (m_stReport (b_count ?b2))\<rparr>,
      b_reports := take (i + 1) (b_reports ?b2) @ map (\<lambda>_. []) (drop (i + 1) (b_reports ?b2)), b_cpc := CountPrint\<rparr>)" ..
  have d: "drop i (b_reports b) = ?r # drop (i + 1) (b_reports b)" using i by (simp add: Cons_nth_drop_Suc)
  have t: "take (i + 1) ((b_reports b)[i := []]) = take i (b_reports b) @ [[]]" using i by (simp add: take_Suc_conv_app_nth)
  have "replicate (length ?r + 1 + 1 + n) (Statistics t1 t2) =
      replicate (length ?r + 1) (Statistics t1 t2) @ [Statistics t1 t2] @ replicate n (Statistics t1 t2)"
    by (simp only: replicate_add append_assoc) simp
  note R = this
  have "run_books lt (replicate (length ?r + 1 + 1 + n) (Statistics t1 t2)) b =
      Some (?b2\<lparr>b_count := (b_count ?b2)\<lparr>m_stReport := fold (\<lambda>r m. report_add m r) (drop (i + 1) (b_reports ?b2)) (m_stReport (b_count ?b2))\<rparr>,
      b_reports := take (i + 1) (b_reports ?b2) @ map (\<lambda>_. []) (drop (i + 1) (b_reports ?b2)), b_cpc := CountPrint\<rparr>)"
    by (simp only: R run_books_append 1 2 3 Option.bind.bind_lunit)
  then show ?case using d t by (intro exI [of _ "length ?r + 1 + 1 + n"]) simp
qed



lemma drain_lines:
  assumes "b_hpc b = HiveTest t i" "i < length (b_hives b)" "b_hives b ! i = q"
    and "print_rows (h_pFile (b_hive b)) (map (hive_row t) q) (b_fs b) = Some fs"
  shows "\<exists>n l. run_books lt (replicate n (QueryLog t1 t2 t3)) b =
    Some (b\<lparr>b_hives := (b_hives b)[i := []], b_stHiveLog := l, b_fs := fs, b_written := b_written b @ map (Pair i) q,
      b_hpc := HiveTest t (i + 1)\<rparr>)"
  using assms
proof (induction q arbitrary: b)
  case Nil
  have u: "(b_hives b)[i := []] = b_hives b" using Nil(3) by (metis list_update_id)
  have "run_books lt (replicate 1 (QueryLog t1 t2 t3)) b = Some (b\<lparr>b_hpc := HiveTest t (i + 1)\<rparr>)"
    using Nil by (simp add: book_act_def hive_step_def)
  with Nil(4) u show ?case by (intro exI [of _ 1] exI [of _ "b_stHiveLog b"]) simp
next
  case (Cons r q)
  obtain fs1 where p: "print_rows (h_pFile (b_hive b)) [hive_row t r] (b_fs b) = Some fs1"
    "print_rows (h_pFile (b_hive b)) (map (hive_row t) q) fs1 = Some fs"
    using Cons.prems(4) print_rows_append [of "h_pFile (b_hive b)" "[hive_row t r]" "map (hive_row t) q" "b_fs b"]
    by (cases "print_rows (h_pFile (b_hive b)) [hive_row t r] (b_fs b)") auto
  let ?b = "b\<lparr>b_hives := (b_hives b)[i := q], b_stHiveLog := r, b_fs := fs1, b_written := b_written b @ [(i, r)]\<rparr>"
  have 1: "run_books lt (replicate 4 (QueryLog t1 t2 t3)) b = Some ?b"
    using Cons.prems(1,2,3) p(1) by (simp add: book_act_def hive_step_def hive_assign_copies numeral_eq_Suc)
  have "\<exists>n l. run_books lt (replicate n (QueryLog t1 t2 t3)) ?b =
      Some (?b\<lparr>b_hives := (b_hives ?b)[i := []], b_stHiveLog := l, b_fs := fs, b_written := b_written ?b @ map (Pair i) q,
        b_hpc := HiveTest t (i + 1)\<rparr>)"
    by (rule Cons.IH) (use Cons.prems(1,2) p(2) in simp_all)
  then obtain n l where 2: "run_books lt (replicate n (QueryLog t1 t2 t3)) ?b =
      Some (?b\<lparr>b_hives := (b_hives ?b)[i := []], b_stHiveLog := l, b_fs := fs, b_written := b_written ?b @ map (Pair i) q,
        b_hpc := HiveTest t (i + 1)\<rparr>)" by blast
  have "run_books lt (replicate (4 + n) (QueryLog t1 t2 t3)) b =
      Some (?b\<lparr>b_hives := (b_hives ?b)[i := []], b_stHiveLog := l, b_fs := fs, b_written := b_written ?b @ map (Pair i) q,
        b_hpc := HiveTest t (i + 1)\<rparr>)"
    by (simp only: replicate_add run_books_append 1 2 Option.bind.bind_lunit)
  then show ?case by (intro exI [of _ "4 + n"] exI [of _ l]) simp
qed

lemma queue_lines:
  assumes "b_hpc b = HiveTest t i" "i \<le> length (b_hives b)"
    and "print_rows (h_pFile (b_hive b)) (map (hive_row t) (concat (drop i (b_hives b)))) (b_fs b) = Some fs"
  shows "\<exists>n l ws. run_books lt (replicate n (QueryLog t1 t2 t3)) b =
    Some (b\<lparr>b_hives := take i (b_hives b) @ map (\<lambda>_. []) (drop i (b_hives b)), b_stHiveLog := l, b_fs := fs,
      b_written := b_written b @ ws, b_hpc := HiveOpen\<rparr>) \<and> map snd ws = concat (drop i (b_hives b))"
  using assms
proof (induction "length (b_hives b) - i" arbitrary: b i)
  case 0
  then have "run_books lt (replicate 1 (QueryLog t1 t2 t3)) b = Some (b\<lparr>b_hpc := HiveOpen\<rparr>)"
    by (simp add: book_act_def hive_step_def)
  then show ?case using 0 by (intro exI [of _ 1] exI [of _ "b_stHiveLog b"] exI [of _ "[]"]) simp
next
  case (Suc d)
  then have i: "i < length (b_hives b)" by simp
  let ?q = "b_hives b ! i"
  have dr: "drop i (b_hives b) = ?q # drop (i + 1) (b_hives b)" using i by (simp add: Cons_nth_drop_Suc)
  obtain fs1 where p: "print_rows (h_pFile (b_hive b)) (map (hive_row t) ?q) (b_fs b) = Some fs1"
    "print_rows (h_pFile (b_hive b)) (map (hive_row t) (concat (drop (i + 1) (b_hives b)))) fs1 = Some fs"
    using Suc.prems(3) unfolding dr by (auto simp: print_rows_append bind_eq_Some_conv)
  obtain n l where 1: "run_books lt (replicate n (QueryLog t1 t2 t3)) b =
    Some (b\<lparr>b_hives := (b_hives b)[i := []], b_stHiveLog := l, b_fs := fs1, b_written := b_written b @ map (Pair i) ?q,
      b_hpc := HiveTest t (i + 1)\<rparr>)" (is "_ = Some ?b")
    using drain_lines [OF Suc.prems(1) i refl p(1)] by blast
  have "\<exists>m l ws. run_books lt (replicate m (QueryLog t1 t2 t3)) ?b =
    Some (?b\<lparr>b_hives := take (i + 1) (b_hives ?b) @ map (\<lambda>_. []) (drop (i + 1) (b_hives ?b)), b_stHiveLog := l, b_fs := fs,
      b_written := b_written ?b @ ws, b_hpc := HiveOpen\<rparr>) \<and> map snd ws = concat (drop (i + 1) (b_hives ?b))"
    by (rule Suc.hyps(1)) (use Suc.hyps(2) i p(2) in simp_all)
  then obtain m l' ws where 2: "run_books lt (replicate m (QueryLog t1 t2 t3)) ?b =
    Some (?b\<lparr>b_hives := take (i + 1) (b_hives ?b) @ map (\<lambda>_. []) (drop (i + 1) (b_hives ?b)), b_stHiveLog := l', b_fs := fs,
      b_written := b_written ?b @ ws, b_hpc := HiveOpen\<rparr>)" and ws: "map snd ws = concat (drop (i + 1) (b_hives b))" by auto
  have "take (i + 1) ((b_hives b)[i := []]) = take i (b_hives b) @ [[]]" using i by (simp add: take_Suc_conv_app_nth)
  moreover have "run_books lt (replicate (n + m) (QueryLog t1 t2 t3)) b =
    Some (?b\<lparr>b_hives := take (i + 1) (b_hives ?b) @ map (\<lambda>_. []) (drop (i + 1) (b_hives ?b)), b_stHiveLog := l', b_fs := fs,
      b_written := b_written ?b @ ws, b_hpc := HiveOpen\<rparr>)"
    by (simp only: replicate_add run_books_append 1 2 Option.bind.bind_lunit)
  ultimately show ?case using dr ws
    by (intro exI [of _ "n + m"] exI [of _ l'] exI [of _ "map (Pair i) ?q @ ws"]) (simp add: comp_def)
qed

text \<open>The same for the query log thread and \<open>hive_iteration\<close>.\<close>

theorem query_log_lines_make_a_round:
  assumes "hive_iteration lt t1 t2 t3 t4 (b_hive b) (b_hives b) (b_fs b) = Some (h, xs, fs)" "b_hpc b = HiveOpen"
  shows "\<exists>n l ws. run_books lt (QueryLog t1 t2 t3 # QueryLog t4 t2 t3 # replicate n (QueryLog t1 t2 t3)) b =
    Some (b\<lparr>b_hive := h, b_hives := xs, b_stHiveLog := l, b_fs := fs, b_written := b_written b @ ws\<rparr>)
    \<and> map snd ws = concat (b_hives b)"
proof -
  obtain h1 fs1 where o: "BdxQueryHiveLogOpenFile lt t1 t2 t3 (b_hive b) (b_fs b) = (h1, fs1)" by force
  then have pr: "print_rows (h_pFile h1) (map (hive_row (lt t4)) (concat (b_hives b))) fs1 = Some fs"
    and h: "h = h1" "xs = map (\<lambda>_. []) (b_hives b)"
    using assms(1) by (auto simp: hive_iteration_def drain_hives_rows split: option.splits)
  let ?b = "b\<lparr>b_hive := h, b_fs := fs1, b_hpc := HiveTest (lt t4) 0\<rparr>"
  have 1: "run_books lt [QueryLog t1 t2 t3, QueryLog t4 t2 t3] b = Some ?b"
    using assms(2) o by (simp add: book_act_def hive_step_def h)
  have st: "b_hpc ?b = HiveTest (lt t4) 0" "0 \<le> length (b_hives ?b)"
    "print_rows (h_pFile (b_hive ?b)) (map (hive_row (lt t4)) (concat (drop 0 (b_hives ?b)))) (b_fs ?b) = Some fs"
    using pr h by simp_all
  obtain n l ws where 2: "run_books lt (replicate n (QueryLog t1 t2 t3)) ?b =
      Some (?b\<lparr>b_hives := take 0 (b_hives ?b) @ map (\<lambda>_. []) (drop 0 (b_hives ?b)), b_stHiveLog := l, b_fs := fs,
        b_written := b_written ?b @ ws, b_hpc := HiveOpen\<rparr>)" and ws: "map snd ws = concat (drop 0 (b_hives ?b))"
    using queue_lines [OF st, of lt t1 t2 t3] by blast
  have "run_books lt ([QueryLog t1 t2 t3, QueryLog t4 t2 t3] @ replicate n (QueryLog t1 t2 t3)) b =
      Some (?b\<lparr>b_hives := take 0 (b_hives ?b) @ map (\<lambda>_. []) (drop 0 (b_hives ?b)), b_stHiveLog := l, b_fs := fs,
        b_written := b_written ?b @ ws, b_hpc := HiveOpen\<rparr>)"
    by (simp only: run_books_append 1 2 Option.bind.bind_lunit)
  moreover have "QueryLog t1 t2 t3 # QueryLog t4 t2 t3 # as = [QueryLog t1 t2 t3, QueryLog t4 t2 t3] @ as" for as by simp
  moreover have "?b\<lparr>b_hives := take 0 (b_hives ?b) @ map (\<lambda>_. []) (drop 0 (b_hives ?b)), b_stHiveLog := l, b_fs := fs,
        b_written := b_written ?b @ ws, b_hpc := HiveOpen\<rparr> =
      b\<lparr>b_hive := h, b_hives := xs, b_stHiveLog := l, b_fs := fs, b_written := b_written b @ ws\<rparr>"
    using assms(2) by (simp add: h)
  moreover have "map snd ws = concat (b_hives b)" using ws by simp
  ultimately show ?thesis by metis
qed

section \<open>What a task writes\<close>

text \<open>
  The books after a task are those before it with lines of the two kinds written into them: so the
  steps \<open>Worker i\<close> are all that a worker does to its books.
\<close>

definition by_lines :: "('c, 'w) TaskState \<Rightarrow> ('c, 'w) TaskState \<Rightarrow> bool" where
  "by_lines s s' \<longleftrightarrow> (\<exists>ls. (t_report s', t_hive s') = fold write_line ls (t_report s, t_hive s))"

lemma by_lines_refl [simp]: "by_lines s s"
  unfolding by_lines_def by (rule exI [of _ "[]"]) simp

lemma by_lines_trans: "by_lines s s' \<Longrightarrow> by_lines s' s'' \<Longrightarrow> by_lines s s''"
  unfolding by_lines_def by (metis fold_append comp_apply)

lemma by_lines_same: "t_report s'' = t_report s' \<Longrightarrow> t_hive s'' = t_hive s' \<Longrightarrow> by_lines s s' \<Longrightarrow> by_lines s s''"
  by (simp add: by_lines_def)

lemma by_lines_books: "same_books s' s'' \<Longrightarrow> by_lines s s' \<Longrightarrow> by_lines s s''"
  by (rule by_lines_same) (simp_all add: same_books_def)

lemma by_lines_plus_one: "by_lines s s' \<Longrightarrow> by_lines s (bump (plus_one c) k s')"
  by (erule by_lines_trans) (auto simp: by_lines_def bump_def intro: exI [of _ "[AddOne c k]"])

lemma plus_one_fun:
  "plus_one ReqNum = (\<lambda>i. inc_Req i)" "plus_one ResNum = (\<lambda>i. inc_Res i)" "plus_one EmptyResNum = (\<lambda>i. inc_EmptyRes i)"
  "plus_one ResTagNum = (\<lambda>i. inc_ResTag i)" "plus_one TotalEmptyResNum = (\<lambda>i. inc_TotalEmptyRes i)"
  by (simp_all add: fun_eq_iff)

lemma by_lines_bump:
  assumes "by_lines s s'"
  shows "by_lines s (bump (\<lambda>i. inc_Req i) k s')" "by_lines s (bump (\<lambda>i. inc_Res i) k s')"
    "by_lines s (bump (\<lambda>i. inc_EmptyRes i) k s')" "by_lines s (bump (\<lambda>i. inc_ResTag i) k s')"
    "by_lines s (bump (\<lambda>i. inc_TotalEmptyRes i) k s')"
  using by_lines_plus_one [OF assms, of _ k] by (simp_all add: plus_one_fun [symmetric])

lemma by_lines_push: "by_lines s s' \<Longrightarrow> by_lines s (s'\<lparr>t_hive := t_hive s' @ [l]\<rparr>)"
  by (erule by_lines_trans) (auto simp: by_lines_def intro: exI [of _ "[LogRecord l]"])

lemma by_lines_other [simp]:
  "by_lines s (s'\<lparr>t_res := r\<rparr>) = by_lines s s'" "by_lines s (s'\<lparr>t_world := w\<rparr>) = by_lines s s'"
  "by_lines s (s'\<lparr>t_md5 := m\<rparr>) = by_lines s s'" "by_lines s (snd (task_sign k s')) = by_lines s s'"
  by (simp_all add: by_lines_def)

abbreviation lines_outcome :: "('c, 'w) TaskState \<Rightarrow> ('r \<times> ('c, 'w) TaskState) option \<Rightarrow> bool" where
  "lines_outcome s m \<equiv> outcome (\<lambda>r s'. by_lines s s') m"

lemma lines_and_then:
  "lines_outcome s m \<Longrightarrow> (\<And>a s'. by_lines s s' \<Longrightarrow> lines_outcome s (f a s')) \<Longrightarrow> lines_outcome s (and_then m f)"
  by (rule outcome_and_then [where P = "\<lambda>r s'. by_lines s s'"]) simp_all

lemma lines_books: "outcome (\<lambda>r s''. same_books s' s'') m \<Longrightarrow> by_lines s s' \<Longrightarrow> lines_outcome s m"
  by (erule outcome_mono) (rule by_lines_books)

lemma lines_quiet: "outcome (quiet C s') m \<Longrightarrow> by_lines s s' \<Longrightarrow> lines_outcome s m"
  by (erule outcome_mono) (metis quiet_def by_lines_books)

text \<open>A call of Redis in front of the rest.\<close>

lemma lines_redis:
  "by_lines s s' \<Longrightarrow> (\<And>r s''. by_lines s s'' \<Longrightarrow> t_res s'' = t_res s' \<Longrightarrow> lines_outcome s (g r s'')) \<Longrightarrow>
   lines_outcome s (Option.bind (on_redis f s') (\<lambda>(r, s''). g r s''))"
  by (rule redis_call.before) (metis by_lines_books same_booksD(3))

lemma count_request_lines: "by_lines s s' \<Longrightarrow> lines_outcome s (count_request X q s')"
  unfolding count_request_def Let_def by (intro outcome_bind_pure lines_redis outcome_SomeI by_lines_bump) simp_all

lemma cache_lookup_lines: "by_lines s s' \<Longrightarrow> lines_outcome s (cache_lookup X q s')"
  unfolding cache_lookup_def Let_def split_beta
  by (intro lines_redis [unfolded split_beta] outcome_if outcome_SomeI by_lines_bump) simp_all

lemma query_remote_lines: "by_lines s s' \<Longrightarrow> lines_outcome s (query_remote X q s')"
  unfolding query_remote_def fail_def Let_def
  by (intro outcome_bind_pure outcome_case_prod outcome_case_option outcome_if outcome_None outcome_SomeI)
    (simp_all add: by_lines_bump)

lemma extract_result_lines: "by_lines s s' \<Longrightarrow> lines_outcome s (extract_result r s')"
  unfolding extract_result_def fail_def Let_def
  by (intro outcome_bind_pure outcome_if outcome_SomeI) simp_all

lemma find_answer_lines: "by_lines s s' \<Longrightarrow> lines_outcome s (find_answer X q s')"
  unfolding find_answer_def
  by (intro lines_and_then cache_lookup_lines query_remote_lines extract_result_lines outcome_if outcome_SomeI)

lemma log_query_lines: "by_lines s s' \<Longrightarrow> lines_outcome s (log_query X q cached s')"
  unfolding log_query_def by (intro outcome_bind_pure outcome_SomeI by_lines_push)

lemma store_result_lines: "by_lines s s' \<Longrightarrow> lines_outcome s (store_result X q cached s')"
  unfolding store_result_def fail_def Let_def split_beta
  by (intro outcome_case_option outcome_if outcome_SomeI lines_redis [unfolded split_beta] by_lines_bump) (simp_all add: by_lines_bump)

lemma read_request_lines: "by_lines s s' \<Longrightarrow> lines_outcome s (read_request X sock s')"
  by (rule outcome_mono [OF read_request_outcome]) (simp add: same_books_def by_lines_def)

lemma packet_lines: "lines_outcome s (BdxGetHttpPacket X sock s)"
  unfolding BdxGetHttpPacket_def
  by (intro lines_and_then read_request_lines count_request_lines find_answer_lines log_query_lines store_result_lines
      lines_quiet [OF check_user_token_quiet] lines_quiet [OF gateway_token_quiet] lines_quiet [OF find_order_quiet]
      lines_quiet [OF check_quota_quiet] lines_quiet [OF charge_order_quiet] by_lines_refl)

lemma respond_lines: "by_lines s s' \<Longrightarrow> lines_outcome s (BdxSendRespones X sock s')"
  unfolding BdxSendRespones_def Let_def
  by (intro outcome_bind_pure outcome_case_prod outcome_bind_pair [where P = "\<lambda>r s'. by_lines s s'"] outcome_if outcome_SomeI
      lines_books [OF redis_call.keeps])
    (auto intro!: by_lines_bump)

lemma refuse_lines: "by_lines s s' \<Longrightarrow> lines_outcome s (refuse X sock e s')"
proof (rule outcomeI)
  fix r s3 assume s: "by_lines s s'" and "refuse X sock e s' = Some (r, s3)"
  then obtain s2 where 2: "count_empty X s' = Some s2" "BdxSendEmpyRespones X sock (error_body e) s2 = Some (r, s3)"
    by (auto simp: refuse_def bind_eq_Some_conv empty_record_TelNo)
  have "by_lines s s2" using 2(1) s
    by (auto simp: count_empty_def Let_def bind_eq_Some_conv intro: by_lines_bump by_lines_books dest!: books(1) split: if_splits)
  then show "by_lines s s3" by (rule by_lines_books [OF BdxSendEmpyRespones_books [OF 2(2)]])
qed

theorem task_writes_lines:
  assumes "BdxRunTask X m_pclSock s = Some (r, s')"
  shows "\<exists>ls. (t_report s', t_hive s') = fold write_line ls (t_report s, t_hive s)"
proof (cases m_pclSock)
  case (Some sock)
  obtain p s1 where p: "BdxGetHttpPacket X sock s = Some (p, s1)"
    and r: "(case p of Inr _ \<Rightarrow> BdxSendRespones X sock s1
             | Inl (iRes, e) \<Rightarrow> if iRes \<noteq> LINKERROR then refuse X sock e s1 else BdxSendEmpyRespones X sock e s1) = Some (r, s')"
    using assms Some by (auto simp: BdxRunTask_def bind_eq_Some_conv)
  have 1: "by_lines s s1" using outcomeD [OF packet_lines p] .
  have "by_lines s s'" using r outcomeD [OF respond_lines [OF 1]] outcomeD [OF refuse_lines [OF 1]]
      by_lines_books [OF BdxSendEmpyRespones_books 1]
    by (auto split: sum.splits if_splits)
  then show ?thesis by (simp add: by_lines_def)
qed (use assms in \<open>auto simp: BdxRunTask_def bind_eq_Some_conv intro: exI [of _ "[]"]\<close>)

end
