(* ===== verification/OrderRound.thy ===== *)
theory OrderRound
  imports OrderUpdate
begin

text \<open>
  What one day's round of the update thread does to the orders: \<open>update_round\<close> of \<open>OrderUpdate\<close>
  against a specification over the contents of Redis and the requests DataHub has got. The
  documented behaviour of Redis and the connection to DataHub are the two hypotheses
  \<open>redis_serves\<close> and \<open>hub_answers\<close>, over a view \<open>st\<close> of the outside world: all connections lead to
  one store (one server, or several that answer as one), and nobody else changes it during the round. One
  example of both is at the end.
\<close>

section \<open>The outside world, as this thread sees it\<close>

text \<open>String keys, sets, and the requests that were written to DataHub.\<close>

record Outside =
  kv :: "string \<Rightarrow> string option"
  members :: "string \<Rightarrow> string set"
  told :: "string list"

definition move :: "string \<Rightarrow> string \<Rightarrow> string \<Rightarrow> (string \<Rightarrow> string set) \<Rightarrow> string \<Rightarrow> string set" where
  "move m a b M = (if m \<in> M a then (\<lambda>k. if k = a then M a - {m} else if k = b then insert m (M b) else M k) else M)"

text \<open>A word in a command that is sent as text.\<close>

definition plain_word :: "string \<Rightarrow> bool" where
  "plain_word w \<longleftrightarrow> w \<noteq> [] \<and> CHR '' '' \<notin> set w \<and> CHR ''%'' \<notin> set w \<and> NUL \<notin> set w"

definition answers :: "('w \<Rightarrow> Outside) \<Rightarrow> redisReply option \<times> 'w \<Rightarrow> Outside \<Rightarrow> bool" where
  "answers st x v \<longleftrightarrow> (\<exists>r w'. x = (Some r, w') \<and> \<not> is_error r \<and> st w' = v)"

text \<open>Redis's promises for the commands of this thread.\<close>

definition redis_serves :: "('c, 'w) hiredis \<Rightarrow> ('w \<Rightarrow> Outside) \<Rightarrow> bool" where
  "redis_serves hi st \<longleftrightarrow>
     (\<forall>h p t w. \<exists>c w'. redisConnectWithTimeout hi h p t w = (Some (c, False), w') \<and> st w' = st w)
     \<and> (\<forall>c w. st (redisFree hi c w) = st w)
     \<and> (\<forall>c i w. answers st (redisCommand hi c ''select %d'' [D i] w) (st w))
     \<and> (\<forall>c w. answers st (redisCommand hi c ''PING'' [] w) (st w))
     \<and> (\<forall>c k w. \<exists>w'. redisCommand hi c ''GET %s'' [S k] w =
          (Some (case kv (st w) k of None \<Rightarrow> REPLY_NIL | Some v \<Rightarrow> REPLY_STRING v), w') \<and> st w' = st w)
     \<and> (\<forall>c k v w. answers st (redisCommand hi c ''SET %s %s'' [S k, S v] w) ((st w)\<lparr>kv := (kv (st w))(k \<mapsto> v)\<rparr>))
     \<and> (\<forall>c k w. \<exists>ms w'. redisCommand hi c ''smembers %s'' [S k] w = (Some (REPLY_ARRAY (map REPLY_STRING ms)), w')
          \<and> set ms = members (st w) k \<and> distinct ms \<and> st w' = st w)
     \<and> (\<forall>c a b m w. plain_word a \<and> plain_word b \<and> plain_word m \<longrightarrow>
          answers st (redisCommand hi c (''smove '' @ a @ '' '' @ b @ '' '' @ m) [] w)
            ((st w)\<lparr>members := move m a b (members (st w))\<rparr>))
     \<and> (\<forall>c k w. answers st (redisCommand hi c ''zremrangebyrank %s 0 0'' [S k] w) (st w))"

text \<open>
  DataHub can be reached and answers each request with one record, from which the client can take a body and
  a token; of Redis the network knows nothing.
\<close>

definition hub_text :: "string \<Rightarrow> bool" where
  "hub_text d \<longleftrightarrow> length d < 8192 \<and>
     (cstr d = [] \<or> (case datahub_body (cstr d) of None \<Rightarrow> False | Some body \<Rightarrow> token_of body \<noteq> None))"

definition hub_answers :: "'w net \<Rightarrow> ('w \<Rightarrow> Outside) \<Rightarrow> bool" where
  "hub_answers net st \<longleftrightarrow>
     (\<forall>w. \<exists>fd w'. os_socket net w = (fd, w') \<and> fd \<noteq> - 1 \<and> st w' = st w)
     \<and> (\<forall>fd w. \<exists>w'. os_setsockopt net fd w = (True, w') \<and> st w' = st w)
     \<and> (\<forall>fd ip p w. \<exists>w'. os_connect net fd ip p w = (True, w') \<and> st w' = st w)
     \<and> (\<forall>fd w. st (os_close net fd w) = st w)
     \<and> (\<forall>fd w. \<exists>w'. SSL_connect net fd w = (True, w') \<and> st w' = st w)
     \<and> (\<forall>fd b w. \<exists>w'. SSL_write net fd b w = ((int (length b), SSL_ERROR_NONE), w') \<and> st w' = (st w)\<lparr>told := told (st w) @ [b]\<rparr>)
     \<and> (\<forall>fd n w. \<exists>r d w'. SSL_read net fd n w = ((r, SSL_ERROR_NONE, d), w') \<and> 0 \<le> r \<and> hub_text d \<and> st w' = st w)
     \<and> (\<forall>fd w. st (SSL_shutdown net fd w) = st w)"

section \<open>Orders\<close>

text \<open>A value as \<open>UserGet\<close> gives it: the empty string counts as none.\<close>

definition value_of :: "Outside \<Rightarrow> string \<Rightarrow> string option" where
  "value_of z k = (case kv z k of Some v \<Rightarrow> if v = [] then None else Some v | None \<Rightarrow> None)"

definition number_of :: "Outside \<Rightarrow> string \<Rightarrow> int option" where
  "number_of z k = map_option (\<lambda>v. atoi (cstr v)) (value_of z k)"

text \<open>An order of the update set is open while its status is 0 and it has a count and a limit.\<close>

definition open_order :: "Outside \<Rightarrow> string \<Rightarrow> bool" where
  "open_order z m \<longleftrightarrow> number_of z (''order_status#'' @ m) = Some 0
     \<and> number_of z (''order_count#'' @ m) \<noteq> None \<and> number_of z (''order_limit#'' @ m) \<noteq> None"

text \<open>It is closed when it is used up and its expiry key is gone.\<close>

definition closes :: "Outside \<Rightarrow> string \<Rightarrow> bool" where
  "closes z m \<longleftrightarrow> open_order z m \<and> the (number_of z (''order_limit#'' @ m)) \<le> the (number_of z (''order_count#'' @ m))
     \<and> value_of z (''order_expire#'' @ m) = None"

definition after_round :: "string set \<Rightarrow> Outside \<Rightarrow> Outside \<Rightarrow> bool" where
  "after_round M z z' \<longleftrightarrow>
     kv z' = (\<lambda>k. if \<exists>m \<in> M. closes z m \<and> k = ''order_status#'' @ m then Some ''1'' else kv z k)
     \<and> members z' needUpdateOrder = members z needUpdateOrder - {m \<in> M. closes z m}
     \<and> members z' alreadyUpdateOrder = members z alreadyUpdateOrder \<union> {m \<in> M. closes z m}
     \<and> (\<forall>k. k \<noteq> needUpdateOrder \<and> k \<noteq> alreadyUpdateOrder \<longrightarrow> members z' k = members z k)"

text \<open>The report of an order to DataHub: a request with its count, for some token.\<close>

definition order_report :: "Outside \<Rightarrow> string \<Rightarrow> string \<Rightarrow> bool" where
  "order_report z m r \<longleftrightarrow>
     (\<exists>u rp i sid tok. split_member m = Some (u, rp, i, sid)
        \<and> update_request u tok rp i sid (the (number_of z (''order_count#'' @ m))) 5 = Some r)"

definition is_report :: "string \<Rightarrow> bool" where
  "is_report r \<longleftrightarrow> take 3 r = ''PUT''"

text \<open>A member that a request put together, without characters that mean something in a command.\<close>

definition member_ok :: "string \<Rightarrow> bool" where
  "member_ok m \<longleftrightarrow> plain_word m \<and> length m \<le> 800 \<and>
     (\<exists>a b c d. m = a @ ''#'' @ b @ ''#'' @ c @ ''#'' @ d \<and> CHR ''#'' \<notin> set (a @ b @ c @ d))"

section \<open>Redis\<close>

lemma redis_servesD:
  assumes "redis_serves hi st"
  shows "\<exists>c w'. redisConnectWithTimeout hi h p t w = (Some (c, False), w') \<and> st w' = st w"
    "st (redisFree hi c w) = st w"
    "answers st (redisCommand hi c ''select %d'' [D i] w) (st w)"
    "answers st (redisCommand hi c ''PING'' [] w) (st w)"
    "\<exists>w'. redisCommand hi c ''GET %s'' [S k] w = (Some (case kv (st w) k of None \<Rightarrow> REPLY_NIL | Some v \<Rightarrow> REPLY_STRING v), w') \<and> st w' = st w"
    "answers st (redisCommand hi c ''SET %s %s'' [S k, S v] w) ((st w)\<lparr>kv := (kv (st w))(k \<mapsto> v)\<rparr>)"
    "\<exists>ms w'. redisCommand hi c ''smembers %s'' [S k] w = (Some (REPLY_ARRAY (map REPLY_STRING ms)), w')
          \<and> set ms = members (st w) k \<and> distinct ms \<and> st w' = st w"
    "plain_word a \<Longrightarrow> plain_word b \<Longrightarrow> plain_word m \<Longrightarrow> answers st (redisCommand hi c (''smove '' @ a @ '' '' @ b @ '' '' @ m) [] w)
            ((st w)\<lparr>members := move m a b (members (st w))\<rparr>)"
    "answers st (redisCommand hi c ''zremrangebyrank %s 0 0'' [S k] w) (st w)"
  using assms by (simp_all add: redis_serves_def)

lemma checked_answers:
  assumes "answers st (redisCommand hi c fmt args w) v" "r_context d = Some c"
  shows "\<exists>r w'. checked_command hi fmt args d w = (Some r, d, w') \<and> st w' = v"
  using assms by (auto simp: answers_def checked_command_def)

lemma keep_serves:
  assumes "redis_serves hi st"
  obtains c d' w' where "KeepConnect hi 0 d w = (True, d', w')" "r_context d' = Some c" "st w' = st w"
proof (cases "r_context d")
  case None
  note R = redis_servesD [OF assms]
  obtain c w1 where c: "redisConnectWithTimeout hi (r_host d) (r_port d) 800000 w = (Some (c, False), w1)" "st w1 = st w"
    using R(1) by blast
  let ?d = "d\<lparr>r_context := Some c\<rparr>"
  obtain r1 w2 where s: "checked_command hi ''select %d'' [D (uint (r_idx ?d))] ?d w1 = (Some r1, ?d, w2)" "st w2 = st w1"
    using checked_answers [OF R(3), of ?d c] by force
  obtain r2 w3 where p: "checked_command hi ''PING'' [] ?d w2 = (Some r2, ?d, w3)" "st w3 = st w2"
    using checked_answers [OF R(4), of ?d c] by force
  obtain r4 w4 where q: "checked_command hi ''PING'' [] ?d w1 = (Some r4, ?d, w4)" "st w4 = st w1"
    using checked_answers [OF R(4), of ?d c] by force
  have "KeepConnect hi 0 d w = (True, ?d, if r_idx d = 0 then w4 else w3)"
    using None c s p q by (auto simp: KeepConnect_def Let_def)
  then show ?thesis using that [of ?d] c s p q by (auto split: if_splits)
qed (use that in \<open>auto simp: KeepConnect_def\<close>)

lemma call_answers:
  assumes "redis_serves hi st" "\<And>c w. answers st (redisCommand hi c fmt args w) (F (st w))"
  shows "\<exists>r d' w'. call hi fmt args d w = (Some r, d', w') \<and> st w' = F (st w)"
proof -
  obtain c d1 w1 where k: "KeepConnect hi 0 d w = (True, d1, w1)" "r_context d1 = Some c" "st w1 = st w"
    using keep_serves [OF assms(1)] .
  then show ?thesis using checked_answers [OF assms(2) k(2)] by (fastforce simp: call_def)
qed

lemma GetValue_serves:
  assumes "redis_serves hi st"
  shows "\<exists>d' w'. GetValue hi key out d w =
    ((value_of (st w) key \<noteq> None), (case value_of (st w) key of None \<Rightarrow> out | Some v \<Rightarrow> v), d', w') \<and> st w' = st w"
proof -
  obtain c d1 w1 where k: "KeepConnect hi 0 d w = (True, d1, w1)" "r_context d1 = Some c" "st w1 = st w"
    using keep_serves [OF assms] .
  obtain w2 where g: "redisCommand hi c ''GET %s'' [S key] w1 =
      (Some (case kv (st w) key of None \<Rightarrow> REPLY_NIL | Some v \<Rightarrow> REPLY_STRING v), w2)" "st w2 = st w"
    using redis_servesD(5) [OF assms, of c key w1] k(3) by auto
  show ?thesis using k g redis_servesD(2) [OF assms]
    by (auto simp: GetValue_def call_def checked_command_def value_of_def reply_len_def reply_text_def DisConnect_def
        split: option.split)
qed

lemma SetValue_serves:
  "redis_serves hi st \<Longrightarrow> \<exists>d' w'. SetValue hi key v (- 1) d w = (True, d', w') \<and> st w' = (st w)\<lparr>kv := (kv (st w))(key \<mapsto> v)\<rparr>"
  using call_answers [where F = "\<lambda>z. z\<lparr>kv := (kv z)(key \<mapsto> v)\<rparr>", OF _ redis_servesD(6), of hi st d w]
  by (fastforce simp: SetValue_def)

lemma Smembers_serves:
  assumes "redis_serves hi st" "\<forall>m \<in> members (st w) key. NUL \<notin> set m"
  shows "\<exists>ms d' w'. Smembers hi key [] d w = Some (True, ms, d', w') \<and> set ms = members (st w) key \<and> distinct ms \<and> st w' = st w"
proof -
  obtain c d1 w1 where k: "KeepConnect hi 0 d w = (True, d1, w1)" "r_context d1 = Some c" "st w1 = st w"
    using keep_serves [OF assms(1)] .
  obtain ms w2 where m: "redisCommand hi c ''smembers %s'' [S key] w1 = (Some (REPLY_ARRAY (map REPLY_STRING ms)), w2)"
    "set ms = members (st w) key" "distinct ms" "st w2 = st w"
    using redis_servesD(7) [OF assms(1), of c key w1] k(3) by auto
  have "push_elements (map REPLY_STRING xs) acc = Some (acc @ xs)" if "\<forall>x \<in> set xs. NUL \<notin> set x" for xs acc
    using that by (induction xs arbitrary: acc) auto
  then have "push_elements (map REPLY_STRING ms) [] = Some ms" using assms(2) m(2) by simp
  then show ?thesis using k m by (auto simp: Smembers_def list_query_def call_def checked_command_def)
qed

lemma Smove_serves:
  assumes "redis_serves hi st" "plain_word a" "plain_word b" "plain_word m" "length a + length b + length m \<le> 4000"
  shows "\<exists>d' w'. Smove hi a b m d w = (True, d', w') \<and> st w' = (st w)\<lparr>members := move m a b (members (st w))\<rparr>"
proof -
  have "take 4095 (''smove '' @ a @ '' '' @ b @ '' '' @ m) = ''smove '' @ a @ '' '' @ b @ '' '' @ m" using assms(5) by simp
  then show ?thesis
    using call_answers [where F = "\<lambda>z. z\<lparr>members := move m a b (members z)\<rparr>", OF assms(1) redis_servesD(8) [OF assms(1-4)], of d w] by (fastforce simp: Smove_def)
qed

lemma RemoveSortedSet_serves:
  assumes "redis_serves hi st"
  shows "\<exists>v d' w'. RemoveSortedSet hi key out d w = Some (True, v, d', w') \<and> st w' = st w"
proof -
  obtain c d1 w1 where k: "KeepConnect hi 0 d w = (True, d1, w1)" "r_context d1 = Some c" "st w1 = st w"
    using keep_serves [OF assms] .
  then show ?thesis using redis_servesD(9) [OF assms, of c key w1] by (auto simp: RemoveSortedSet_def answers_def)
qed

section \<open>DataHub\<close>

lemma hub_answersD:
  assumes "hub_answers net st"
  shows "\<exists>fd w'. os_socket net w = (fd, w') \<and> fd \<noteq> - 1 \<and> st w' = st w"
    "\<exists>w'. os_setsockopt net fd w = (True, w') \<and> st w' = st w"
    "\<exists>w'. os_connect net fd ip p w = (True, w') \<and> st w' = st w"
    "st (os_close net fd w) = st w"
    "\<exists>w'. SSL_connect net fd w = (True, w') \<and> st w' = st w"
    "\<exists>w'. SSL_write net fd b w = ((int (length b), SSL_ERROR_NONE), w') \<and> st w' = (st w)\<lparr>told := told (st w) @ [b]\<rparr>"
    "\<exists>r d w'. SSL_read net fd n w = ((r, SSL_ERROR_NONE, d), w') \<and> 0 \<le> r \<and> hub_text d \<and> st w' = st w"
    "st (SSL_shutdown net fd w) = st w"
  using assms by (simp_all add: hub_answers_def)

lemma TcpConnect_answers:
  assumes "hub_answers net st" "m_iSockfd s \<noteq> - 1"
  shows "\<exists>w'. TcpConnect net s w = (0, s\<lparr>m_bConnect := True\<rparr>, w') \<and> st w' = st w"
proof -
  note H = hub_answersD [OF assms(1)]
  obtain w1 where 1: "os_setsockopt net (m_iSockfd s) w = (True, w1)" "st w1 = st w" using H(2) by blast
  obtain w2 where 2: "os_setsockopt net (m_iSockfd s) w1 = (True, w2)" "st w2 = st w1" using H(2) by blast
  obtain w3 where 3: "os_connect net (m_iSockfd s) (m_strIp s) (m_in_portPort s) w2 = (True, w3)" "st w3 = st w2" using H(3) by blast
  show ?thesis using assms(2) 1 2 3 by (simp add: TcpConnect_def)
qed

lemma TcpSslDestroy_answers:
  assumes "hub_answers net st" "m_ssl s = Live"
  shows "\<exists>s' w'. TcpSslDestroy net s w = Some (s', w') \<and> st w' = st w"
proof -
  note H = hub_answersD [OF assms(1)]
  obtain w' where "os_setsockopt net (m_iSockfd s) (SSL_shutdown net (m_iSockfd s) w) = (True, w')"
    "st w' = st (SSL_shutdown net (m_iSockfd s) w)" using H(2) by blast
  then show ?thesis using assms(2) H(4,8) by (simp add: TcpSslDestroy_def TcpClose_def)
qed

lemma cstr_then_NUL: "cstr (d @ NUL # t) = cstr d"
  by (induction d) (simp_all add: cstr_def)

lemma ssl_exchange_answers:
  assumes "hub_answers net st" "m_ssl s = Live" "req \<noteq> []"
  shows "\<exists>ret w'. ssl_exchange net junk req s w = Some (ret, w') \<and> st w' = (st w)\<lparr>told := told (st w) @ [req]\<rparr> \<and> token_of ret \<noteq> None"
proof -
  note H = hub_answersD [OF assms(1)]
  obtain w1 where 1: "SSL_connect net (m_iSockfd s) w = (True, w1)" "st w1 = st w" using H(5) by blast
  obtain w2 where 2: "SSL_write net (m_iSockfd s) req w1 = ((int (length req), SSL_ERROR_NONE), w2)"
    "st w2 = (st w1)\<lparr>told := told (st w1) @ [req]\<rparr>" using H(6) by blast
  obtain r d w3 where 3: "SSL_read net (m_iSockfd s) 8192 w2 = ((r, SSL_ERROR_NONE, d), w3)" "0 \<le> r" "hub_text d" "st w3 = st w2"
    using H(7) by blast
  have wr: "TcpSslWriteLen net s req w1 = Some (int (length req), w2)"
    using assms(2) 2(1) by (simp add: TcpSslWriteLen_def ssl_write_loop.simps)
  have rd: "TcpSslReadLen net s junk 8192 buf w2 = Some (junk + r, d @ drop (length d) buf, w3)" for buf
    using assms(2) 3(1,2) by (simp add: TcpSslReadLen_def ssl_read_loop.simps)
  define z where "z = replicate 8192 NUL"
  have "length d < 8192" using 3(3) by (simp add: hub_text_def)
  then have "0 < 8192 - length d" by (rule zero_less_diff [THEN iffD2])
  then obtain n where "8192 - length d = Suc n" by (rule gr0_implies_Suc [THEN exE])
  then have n: "drop (length d) z = NUL # replicate n NUL"
    unfolding z_def by (simp only: drop_replicate replicate_Suc)
  have c: "cstr (d @ drop (length d) z) = cstr d" "NUL \<in> set (d @ drop (length d) z)"
    by (simp_all add: n cstr_then_NUL)
  have t: "token_of [] \<noteq> None" by (simp add: token_of_def str_find_def msg_OK_blank_def)
  show ?thesis
  proof (cases "cstr d = []")
    case True
    then have "ssl_exchange net junk req s w = Some ([], w3)"
      using assms(2,3) 1(1) wr rd c by (simp add: ssl_exchange_def [folded z_def] TcpSslConnect_def)
    then show ?thesis using 1(2) 2(2) 3(4) t by simp
  next
    case False
    then obtain body where b: "datahub_body (cstr d) = Some body" "token_of body \<noteq> None"
      using 3(3) by (auto simp: hub_text_def split: option.splits)
    then have "ssl_exchange net junk req s w = Some (body, w3)"
      using assms(2,3) 1(1) wr rd c False by (simp add: ssl_exchange_def [folded z_def] TcpSslConnect_def)
    then show ?thesis using 1(2) 2(2) 3(4) b(2) by simp
  qed
qed

lemma hub_call_answers:
  assumes "hub_answers net st" "cstr req \<noteq> []"
  shows "\<exists>ret b' w'. hub_call net junk ip (Some req) (b, w) = Some (ret, b', w')
    \<and> st w' = (st w)\<lparr>told := told (st w) @ [cstr req]\<rparr> \<and> token_of ret \<noteq> None"
proof -
  note H = hub_answersD [OF assms(1)]
  obtain fd w1 where 1: "os_socket net w = (fd, w1)" "fd \<noteq> - 1" "st w1 = st w" using H(1) by blast
  let ?s = "\<lparr>m_iSockfd = fd, m_in_portPort = 443, m_strIp = ip, m_uiTimeout = 300000, m_bConnect = False, m_ssl = Unset\<rparr>"
  obtain s1 w2 where 2: "TcpConnect net ?s w1 = (0, s1, w2)" "st w2 = st w1"
    using TcpConnect_answers [OF assms(1), of ?s w1] 1(2) by auto
  let ?t = "snd (TcpSslInitEnv (if b then s1 else TcpSslInitParams s1))"
  have l: "m_ssl ?t = Live" by (simp add: TcpSslInitEnv_def)
  obtain ret w3 where 3: "ssl_exchange net junk (cstr req) ?t w2 = Some (ret, w3)"
    "st w3 = (st w2)\<lparr>told := told (st w2) @ [cstr req]\<rparr>" "token_of ret \<noteq> None"
    using ssl_exchange_answers [OF assms(1) l assms(2)] by blast
  obtain s4 w4 where 4: "TcpSslDestroy net ?t w3 = Some (s4, w4)" "st w4 = st w3"
    using TcpSslDestroy_answers [OF assms(1) l] by blast
  have "new_CTcpSocket net 443 ip 300000 w = (Some ?s, w1)" using 1(1,2) by (simp add: new_CTcpSocket_def)
  then have "hub_call net junk ip (Some req) (b, w) = Some (ret, True, w4)"
    using 2(1) 3(1) 4(1) by (simp add: hub_call_def Let_def del: if_split)
  then show ?thesis using 1(3) 2(2) 3(2,3) 4(2) by auto
qed

section \<open>Requests that fit\<close>

lemma length_cstr: "length (cstr s) \<le> length s"
  by (simp add: cstr_def length_takeWhile_le)

lemma show_int_small: "- (2 ^ 31) \<le> n \<Longrightarrow> n < 2 ^ 31 \<Longrightarrow> length (show_int n) \<le> 11"
proof -
  assume "- (2 ^ 31) \<le> n" "n < 2 ^ 31"
  then have "nat (- n) < 10 ^ 10" "nat n < 10 ^ 10" by simp_all
  from this [THEN length_show_nat [of 10, rotated]] show ?thesis by (simp add: show_int_def)
qed

lemma digits_NUL: "NUL \<notin> set (show_nat n)" "NUL \<notin> set (show_int i)"
  by (auto simp: show_int_def digits_no is_digit_def)

lemma report_request:
  assumes "length u + length rp + length i + length sid \<le> 800" "length tok \<le> 1000" "- (2 ^ 31) \<le> n" "n < 2 ^ 31"
  shows "\<exists>r. update_request u tok rp i sid n 5 = Some r \<and> cstr r = r \<and> is_report r"
proof -
  let ?body = \<open>''{"action":'' @ (''"set_plan_used","used":'' @ show_int n) @ '',"repname":"'' @ cstr rp @ ''","itemname":"'' @ cstr i
       @ ''","username":"'' @ cstr u @ ''"}''\<close>
  note len = length_cstr [of u] length_cstr [of rp] length_cstr [of i] length_cstr [of sid] length_cstr [of tok]
  have l: "length ?body \<le> 900" using assms len show_int_small [OF assms(3,4)] by simp
  then have b: "put_body (''\"set_plan_used\",\"used\":'' @ show_int n) rp i u = Some ?body"
    by (simp add: put_body_def into_buffer_def)
  have "length (show_nat (length ?body)) \<le> 4" by (rule length_show_nat) (use l in simp_all)
  then have "length (put_request update_hub_IP sid tok ?body) < 8192"
    using assms len l by (simp add: put_request_def update_hub_IP_def)
  then have "update_request u tok rp i sid n 5 = Some (put_request update_hub_IP sid tok ?body)"
    by (simp add: update_request_def b [simplified] into_buffer_def)
  moreover have "NUL \<notin> set (put_request update_hub_IP sid tok ?body)"
    by (simp add: put_request_def update_hub_IP_def digits_NUL cstr_no_NUL)
  moreover have "is_report (put_request update_hub_IP sid tok ?body)" by (simp add: is_report_def put_request_def)
  ultimately show ?thesis using cstr_id by blast
qed

section \<open>The calls of the thread\<close>

definition good :: "('c, 'w) UpdateState \<Rightarrow> bool" where
  "good s \<longleftrightarrow> md5_ready (m_clMd5 (m_pTokenRedis s)) \<and> servers (m_pTokenRedis s) \<noteq> [] \<and> length (u_strDataHubToken s) \<le> 1000"

text \<open>The thread goes on from \<open>s\<close> in \<open>s'\<close>, with the token it had and \<open>z\<close> for the outside.\<close>

definition goes_on :: "('w \<Rightarrow> Outside) \<Rightarrow> ('c, 'w) UpdateState \<Rightarrow> Outside \<Rightarrow> ('c, 'w) UpdateState \<Rightarrow> bool" where
  "goes_on st s z s' \<longleftrightarrow> good s' \<and> u_strDataHubToken s' = u_strDataHubToken s \<and> st (u_world s') = z"

lemma u_shard:
  assumes "good s" "length key < 2 ^ 32" "f = on_shard key oper"
    and "\<And>d. \<exists>r d' w'. oper d (u_world s) = Some (r, d', w') \<and> Q r \<and> st w' = z"
  shows "\<exists>r s'. u_redis f s = Some (r, s') \<and> Q r \<and> goes_on st s z s'"
proof -
  let ?a = "m_pTokenRedis s"
  let ?i = "shard_of key (length (servers ?a))"
  have g: "md5_ready (m_clMd5 ?a)" "servers ?a \<noteq> []" using assms(1) by (simp_all add: good_def)
  obtain r d w' where o: "oper (servers ?a ! ?i) (u_world s) = Some (r, d, w')" "Q r" "st w' = z" using assms(4) by blast
  obtain m where m: "on_shard key oper ?a (u_world s) = Some (r, ?a\<lparr>servers := (servers ?a)[?i := d], m_clMd5 := m\<rparr>, w')" "md5_ready m"
    by (rule on_shard_eq [OF g(1) assms(2) g(2), of oper "u_world s" r d w']) (use o(1) in auto)
  then show ?thesis using o(2,3) assms(1,3) by (auto simp: u_redis_def goes_on_def good_def)
qed

lemmas adapter_defs = UserGet_def UserSmembers_def UserPut_def UserSmove_def UserRemoveSortedSet_def

lemma u_get:
  assumes "redis_serves hi st" "good s" "length key < 2 ^ 32" "NUL \<notin> set key" "z = st (u_world s)"
  shows "\<exists>s'. u_redis (UserGet hi key out) s = Some ((value_of z key \<noteq> None, case value_of z key of None \<Rightarrow> out | Some v \<Rightarrow> v), s')
    \<and> goes_on st s z s'"
proof -
  have "\<exists>r s'. u_redis (UserGet hi key out) s = Some (r, s')
      \<and> r = (value_of z key \<noteq> None, case value_of z key of None \<Rightarrow> out | Some v \<Rightarrow> v) \<and> goes_on st s z s'"
  proof (rule u_shard [OF assms(2,3)])
    show "UserGet hi key out = on_shard key (\<lambda>d w. value_result (GetValue hi (cstr key) out d w))"
      by (simp add: fun_eq_iff UserGet_def)
    show "\<exists>r d' w'. value_result (GetValue hi (cstr key) out d (u_world s)) = Some (r, d', w')
        \<and> r = (value_of z key \<noteq> None, case value_of z key of None \<Rightarrow> out | Some v \<Rightarrow> v) \<and> st w' = z" for d
      using GetValue_serves [OF assms(1), of key out d "u_world s"] assms(4,5) by auto
  qed
  then show ?thesis by blast
qed

lemma u_put:
  assumes "redis_serves hi st" "good s" "length key < 2 ^ 32" "NUL \<notin> set key" "NUL \<notin> set v" "z = st (u_world s)"
  shows "\<exists>r s'. u_redis (UserPut hi key v) s = Some (r, s') \<and> True \<and> goes_on st s (z\<lparr>kv := (kv z)(key \<mapsto> v)\<rparr>) s'"
proof (rule u_shard [OF assms(2,3)])
  show "UserPut hi key v = on_shard key (\<lambda>d w. Some (SetValue hi (cstr key) (cstr v) (- 1) d w))"
    by (simp add: fun_eq_iff UserPut_def)
  show "\<exists>r d' w'. Some (SetValue hi (cstr key) (cstr v) (- 1) d (u_world s)) = Some (r, d', w')
      \<and> True \<and> st w' = z\<lparr>kv := (kv z)(key \<mapsto> v)\<rparr>" for d
    using SetValue_serves [OF assms(1), of key v d "u_world s"] assms(4-6) by auto
qed

lemma u_move:
  assumes "redis_serves hi st" "good s" "plain_word a" "plain_word b" "plain_word m" "length a + length b + length m \<le> 4000"
    "z = st (u_world s)"
  shows "\<exists>r s'. u_redis (UserSmove hi a b m) s = Some (r, s') \<and> True \<and> goes_on st s (z\<lparr>members := move m a b (members z)\<rparr>) s'"
proof (rule u_shard [OF assms(2), of a])
  show "length a < 2 ^ 32" using assms(6) by simp
  show "UserSmove hi a b m = on_shard a (\<lambda>d w. Some (Smove hi (cstr a) (cstr b) (cstr m) d w))"
    by (simp add: fun_eq_iff UserSmove_def)
  show "\<exists>r d' w'. Some (Smove hi (cstr a) (cstr b) (cstr m) d (u_world s)) = Some (r, d', w')
      \<and> True \<and> st w' = z\<lparr>members := move m a b (members z)\<rparr>" for d
    using Smove_serves [OF assms(1,3-6), of d "u_world s"] assms(3-5,7) by (auto simp: plain_word_def)
qed

lemma u_zrem:
  assumes "redis_serves hi st" "good s" "length key < 2 ^ 32" "z = st (u_world s)"
  shows "\<exists>r s'. u_redis (UserRemoveSortedSet hi key v) s = Some (r, s') \<and> True \<and> goes_on st s z s'"
proof (rule u_shard [OF assms(2,3)])
  show "UserRemoveSortedSet hi key v = on_shard key (\<lambda>d w. opt_value_result (RemoveSortedSet hi (cstr key) v d w))"
    by (simp add: fun_eq_iff UserRemoveSortedSet_def)
  show "\<exists>r d' w'. opt_value_result (RemoveSortedSet hi (cstr key) v d (u_world s)) = Some (r, d', w') \<and> True \<and> st w' = z" for d
    using RemoveSortedSet_serves [OF assms(1), of "cstr key" v d "u_world s"] assms(4) by auto
qed

lemma u_members:
  assumes "redis_serves hi st" "good s" "plain_word key" "length key \<le> 100" "z = st (u_world s)" "\<forall>m \<in> members z key. NUL \<notin> set m"
  shows "\<exists>ms s'. u_redis (UserSmembers hi key []) s = Some ((True, ms), s') \<and> set ms = members z key \<and> distinct ms \<and> goes_on st s z s'"
proof -
  have "\<exists>r s'. u_redis (UserSmembers hi key []) s = Some (r, s')
      \<and> (fst r \<and> set (snd r) = members z key \<and> distinct (snd r)) \<and> goes_on st s z s'"
  proof (rule u_shard [OF assms(2), of key])
    show "length key < 2 ^ 32" using assms(4) by simp
    show "UserSmembers hi key [] = on_shard key (\<lambda>d w. opt_value_result (Smembers hi (cstr key) [] d w))"
      by (simp add: fun_eq_iff UserSmembers_def)
    show "\<exists>r d' w'. opt_value_result (Smembers hi (cstr key) [] d (u_world s)) = Some (r, d', w')
        \<and> (fst r \<and> set (snd r) = members z key \<and> distinct (snd r)) \<and> st w' = z" for d
      using Smembers_serves [OF assms(1), of "u_world s" key d] assms(3,5,6) by (auto simp: plain_word_def)
  qed
  then show ?thesis by auto
qed

section \<open>One order\<close>

definition close :: "string \<Rightarrow> Outside \<Rightarrow> Outside" where
  "close m z = (if closes z m
     then z\<lparr>kv := (kv z)(''order_status#'' @ m \<mapsto> ''1''), members := move m needUpdateOrder alreadyUpdateOrder (members z)\<rparr>
     else z)"

lemma goes_on_trans: "goes_on st s z s' \<Longrightarrow> goes_on st s' z' s'' \<Longrightarrow> goes_on st s z' s''"
  by (simp add: goes_on_def)

lemma goes_onD: "goes_on st s z s' \<Longrightarrow> good s'" "goes_on st s z s' \<Longrightarrow> st (u_world s') = z"
  "goes_on st s z s' \<Longrightarrow> u_strDataHubToken s' = u_strDataHubToken s"
  by (simp_all add: goes_on_def)

lemma close_order_goes_on:
  assumes "redis_serves (x_redis X) st" "good s" "plain_word m" "length m \<le> 800" "length u \<le> 800" "z = st (u_world s)"
  shows "\<exists>s'. close_order X (''order_status#'' @ m) m u v s = Some s'
    \<and> goes_on st s (z\<lparr>kv := (kv z)(''order_status#'' @ m \<mapsto> ''1''), members := move m needUpdateOrder alreadyUpdateOrder (members z)\<rparr>) s'"
proof -
  let ?k = "''order_status#'' @ m"
  have n: "NUL \<notin> set ?k" "length ?k < 2 ^ 32" using assms(3,4) by (simp_all add: plain_word_def)
  have p: "plain_word needUpdateOrder" "plain_word alreadyUpdateOrder" by (simp_all add: plain_word_def)
  obtain r1 s1 where 1: "u_redis (UserPut (x_redis X) ?k ''1'') s = Some (r1, s1)" "goes_on st s (z\<lparr>kv := (kv z)(?k \<mapsto> ''1'')\<rparr>) s1"
    using u_put [OF assms(1,2) n(2,1) _ assms(6), of "''1''"] by auto
  let ?z = "z\<lparr>kv := (kv z)(?k \<mapsto> ''1''), members := move m needUpdateOrder alreadyUpdateOrder (members z)\<rparr>"
  obtain r2 s2 where 2: "u_redis (UserSmove (x_redis X) needUpdateOrder alreadyUpdateOrder m) s1 = Some (r2, s2)" "goes_on st s1 ?z s2"
    using u_move [OF assms(1) goes_onD(1) [OF 1(2)] p assms(3) _ refl] assms(4) goes_onD(2) [OF 1(2)] by auto
  obtain r3 s3 where 3: "u_redis (UserRemoveSortedSet (x_redis X) (u @ ''#orderid'') v) s2 = Some (r3, s3)" "goes_on st s2 ?z s3"
    using u_zrem [OF assms(1) goes_onD(1) [OF 2(2)] _ refl, of "u @ ''#orderid''" v] assms(5) goes_onD(2) [OF 2(2)] by auto
  have "goes_on st s ?z s3" using goes_on_trans [OF goes_on_trans [OF 1(2) 2(2)] 3(2)] .
  then show ?thesis using 1(1) 2(1) 3(1) by (simp add: close_order_def)
qed

lemma number_of_value: "number_of z k = Some n \<longleftrightarrow> (\<exists>v. value_of z k = Some v \<and> atoi (cstr v) = n)"
  by (auto simp: number_of_def)

lemma u_hub_answers:
  assumes "good s" "f (u_InitSSLFlag s, u_world s) = Some (r, b, w)"
  shows "\<exists>s'. u_hub f s = Some (r, s') \<and> goes_on st s (st w) s'"
  using assms by (auto simp: u_hub_def goes_on_def good_def)

text \<open>The token: the old one, or one that DataHub gives on a request that is not a report.\<close>

lemma token_goes_on:
  assumes "hub_answers (x_net X) st" "good s" "z = st (u_world s)"
  shows "\<exists>s' reqs. (if u_strDataHubToken s = [] then do {
       (tok, s) \<leftarrow> u_hub (Update_BdxApiGateWayGetDataHubToken (x_net X) (x_junk X) [] []) s;
       Some (s\<lparr>u_strDataHubToken := tok\<rparr>)
     } else Some s) = Some s' \<and> good s' \<and> st (u_world s') = z\<lparr>told := told z @ reqs\<rparr> \<and> filter is_report reqs = []"
proof (cases "u_strDataHubToken s = []")
  case True
  obtain req where req: "update_request [] [] [] [] [] 0 2 = Some req" "cstr req \<noteq> []" "\<not> is_report (cstr req)"
    by (simp add: update_request_def into_buffer_def update_hub_IP_def is_report_def)
  obtain ret b w where c: "hub_call (x_net X) (x_junk X) update_hub_IP (Some req) (u_InitSSLFlag s, u_world s) = Some (ret, b, w)"
    "st w = (st (u_world s))\<lparr>told := told (st (u_world s)) @ [cstr req]\<rparr>" "token_of ret \<noteq> None"
    using hub_call_answers [OF assms(1) req(2), of "x_junk X" update_hub_IP "u_InitSSLFlag s" "u_world s"] by blast
  obtain tok where t: "token_of ret = Some tok" using c(3) by auto
  then have l: "length tok \<le> 32" by (auto simp: token_of_def str_substr_z_def split: if_splits)
  have "Update_BdxApiGateWayGetDataHubToken (x_net X) (x_junk X) [] [] (u_InitSSLFlag s, u_world s) = Some (tok, b, w)"
    using req(1) c(1) t by (simp add: Update_BdxApiGateWayGetDataHubToken_def Update_BdxGetDatafromDataHub_def)
  from u_hub_answers [where f = "Update_BdxApiGateWayGetDataHubToken (x_net X) (x_junk X) [] []", OF assms(2) this, of st] obtain s1 where
    "u_hub (Update_BdxApiGateWayGetDataHubToken (x_net X) (x_junk X) [] []) s = Some (tok, s1)" "goes_on st s (st w) s1" by blast
  then show ?thesis using True c(2) l req(3) assms(3)
    by (intro exI [of _ "s1\<lparr>u_strDataHubToken := tok\<rparr>"] exI [of _ "[cstr req]"]) (simp add: goes_on_def good_def)
qed (use assms in \<open>auto intro: exI [of _ "[]"]\<close>)

lemma report_goes_on:
  assumes "hub_answers (x_net X) st" "good s" "z = st (u_world s)" "split_member m = Some (u, rp, i, sid)"
    and "length u + length rp + length i + length sid \<le> 800" "number_of z' (''order_count#'' @ m) = Some n"
  shows "\<exists>r s' req. u_hub (Update_BdxApiUpdateUserOrder (x_net X) (x_junk X) u sid rp i (u_strDataHubToken s) n) s = Some (r, s')
    \<and> goes_on st s (z\<lparr>told := told z @ [req]\<rparr>) s' \<and> is_report req \<and> order_report z' m req"
proof -
  have n: "- (2 ^ 31) \<le> n" "n < 2 ^ 31" using assms(6) atoi_bounds by (auto simp: number_of_value)
  have tok: "length (u_strDataHubToken s) \<le> 1000" using assms(2) by (simp add: good_def)
  obtain req where req: "update_request u (u_strDataHubToken s) rp i sid n 5 = Some req" "cstr req = req" "is_report req"
    using report_request [OF assms(5) tok n] by blast
  then have ne: "cstr req \<noteq> []" by (auto simp: is_report_def)
  obtain ret b w where c: "hub_call (x_net X) (x_junk X) update_hub_IP (Some req) (u_InitSSLFlag s, u_world s) = Some (ret, b, w)"
    "st w = (st (u_world s))\<lparr>told := told (st (u_world s)) @ [req]\<rparr>" "token_of ret \<noteq> None"
    using hub_call_answers [OF assms(1) ne, of "x_junk X" update_hub_IP "u_InitSSLFlag s" "u_world s"] req(2) by auto
  obtain r where "token_of ret = Some r" using c(3) by auto
  then have "Update_BdxApiUpdateUserOrder (x_net X) (x_junk X) u sid rp i (u_strDataHubToken s) n (u_InitSSLFlag s, u_world s) = Some (r, b, w)"
    using req(1) c(1) by (simp add: Update_BdxApiUpdateUserOrder_def Update_BdxGetDatafromDataHub_def)
  from u_hub_answers [where f = "Update_BdxApiUpdateUserOrder (x_net X) (x_junk X) u sid rp i (u_strDataHubToken s) n", OF assms(2) this, of st]
  obtain s' where "u_hub (Update_BdxApiUpdateUserOrder (x_net X) (x_junk X) u sid rp i (u_strDataHubToken s) n) s = Some (r, s')"
    "goes_on st s (z\<lparr>told := told z @ [req]\<rparr>) s'" using c(2) assms(3) by auto
  moreover have "order_report z' m req" using req(1) assms(4,6) by (auto simp: order_report_def)
  ultimately show ?thesis using req(3) by blast
qed

lemma value_NUL: "member_ok m \<Longrightarrow> NUL \<notin> set (''order_status#'' @ m)" "member_ok m \<Longrightarrow> NUL \<notin> set (''order_count#'' @ m)"
  "member_ok m \<Longrightarrow> NUL \<notin> set (''order_limit#'' @ m)" "member_ok m \<Longrightarrow> NUL \<notin> set (''order_expire#'' @ m)"
  by (simp_all add: member_ok_def plain_word_def)

lemma member_okD:
  assumes "member_ok m"
  obtains u rp i sid where "split_member m = Some (u, rp, i, sid)" "m = u @ ''#'' @ rp @ ''#'' @ i @ ''#'' @ sid"
    "length u + length rp + length i + length sid \<le> 800" "plain_word m" "length m \<le> 800"
proof -
  obtain u rp i sid where m: "m = u @ ''#'' @ rp @ ''#'' @ i @ ''#'' @ sid" "CHR ''#'' \<notin> set (u @ rp @ i @ sid)"
    "plain_word m" "length m \<le> 800" using assms by (auto simp: member_ok_def)
  have "split_member m = Some (u, rp, i, sid)" unfolding m(1) by (rule split_four) (use m(2) in auto)
  then show ?thesis using that m by simp
qed

text \<open>
  An order whose status is 0: with a count and a limit it is closed if it is due, and reported;
  without one of them nothing happens.
\<close>

lemma report_order_goes_on:
  assumes "redis_serves (x_redis X) st" "hub_answers (x_net X) st" "good s" "member_ok m" "z = st (u_world s)"
    and "number_of z (''order_status#'' @ m) = Some 0"
  shows "\<exists>s' reqs. report_order X m s = Some s' \<and> good s' \<and> st (u_world s') = (close m z)\<lparr>told := told z @ reqs\<rparr>
    \<and> list_all2 (order_report z) (if open_order z m then [m] else []) (filter is_report reqs)"
proof -
  obtain u rp i sid where m: "split_member m = Some (u, rp, i, sid)" "u @ ''#'' @ rp @ ''#'' @ i @ ''#'' @ sid = m"
    "length u + length rp + length i + length sid \<le> 800" "plain_word m" "length m \<le> 800"
    using member_okD [OF assms(4)] by metis
  have len: "length (''order_count#'' @ m) < 2 ^ 32" "length (''order_limit#'' @ m) < 2 ^ 32" "length (''order_expire#'' @ m) < 2 ^ 32"
    using m(5) by simp_all
  let ?c = "value_of z (''order_count#'' @ m)" and ?l = "value_of z (''order_limit#'' @ m)" and ?e = "value_of z (''order_expire#'' @ m)"
  obtain s1 where 1: "u_redis (UserGet (x_redis X) (''order_count#'' @ m) []) s = Some ((?c \<noteq> None, case ?c of None \<Rightarrow> [] | Some v \<Rightarrow> v), s1)"
    "goes_on st s z s1" using u_get [OF assms(1,3) len(1) value_NUL(2) [OF assms(4)] assms(5)] by blast
  obtain s2 where 2: "u_redis (UserGet (x_redis X) (''order_limit#'' @ m) []) s1 = Some ((?l \<noteq> None, case ?l of None \<Rightarrow> [] | Some v \<Rightarrow> v), s2)"
    "goes_on st s1 z s2" using u_get [OF assms(1) goes_onD(1) [OF 1(2)] len(2) value_NUL(3) [OF assms(4)] goes_onD(2) [OF 1(2), symmetric]] by blast
  show ?thesis
  proof (cases "?c = None \<or> ?l = None")
    case True
    then have "\<not> open_order z m" by (auto simp: open_order_def number_of_def)
    then have "close m z = z" by (simp add: close_def closes_def)
    moreover have "report_order X m s = Some (if ?c = None then s1 else s2)"
      using True 1(1) 2(1) m(1,2) by (auto simp: report_order_def Let_def)
    ultimately show ?thesis using 1(2) 2(2) \<open>\<not> open_order z m\<close> goes_on_def
      by (intro exI [of _ "if ?c = None then s1 else s2"] exI [of _ "[]"]) (auto simp: goes_on_def)
  next
    case False
    then obtain c l where cl: "?c = Some c" "?l = Some l" by auto
    have op: "open_order z m" using assms(6) cl by (simp add: open_order_def number_of_def)
    let ?due = "atoi (cstr l) \<le> atoi (cstr c)"
    obtain s3 where 3: "u_redis (UserGet (x_redis X) (''order_expire#'' @ m) c) s2 = Some ((?e \<noteq> None, case ?e of None \<Rightarrow> c | Some v \<Rightarrow> v), s3)"
      "goes_on st s2 z s3" using u_get [OF assms(1) goes_onD(1) [OF 2(2)] len(3) value_NUL(4) [OF assms(4)] goes_onD(2) [OF 2(2), symmetric]] by blast
    have cz: "closes z m \<longleftrightarrow> ?due \<and> ?e = None" using op cl by (simp add: closes_def number_of_def)
    have "\<exists>s4. (if ?due then do {
             ((b3, v3), s) \<leftarrow> u_redis (UserGet (x_redis X) (''order_expire#'' @ m) c) s2;
             if \<not> b3 then close_order X (''order_status#'' @ m) m u v3 s else Some s
           } else Some s2) = Some s4 \<and> goes_on st s2 (close m z) s4"
    proof (cases "closes z m")
      case True
      obtain s4 where "close_order X (''order_status#'' @ m) m u c s3 = Some s4"
        "goes_on st s3 (z\<lparr>kv := (kv z)(''order_status#'' @ m \<mapsto> ''1''), members := move m needUpdateOrder alreadyUpdateOrder (members z)\<rparr>) s4"
        using close_order_goes_on [OF assms(1) goes_onD(1) [OF 3(2)] m(4,5) _ goes_onD(2) [OF 3(2), symmetric], of u c] m(3) by auto
      then show ?thesis using True cz 3 goes_on_trans [OF 3(2)] by (auto simp: close_def)
    next
      case False
      then show ?thesis using cz 3 goes_onD(1,2) [OF 2(2)] by (auto simp: close_def goes_on_def)
    qed
    then obtain s4 where 4: "(if ?due then do {
             ((b3, v3), s) \<leftarrow> u_redis (UserGet (x_redis X) (''order_expire#'' @ m) c) s2;
             if \<not> b3 then close_order X (''order_status#'' @ m) m u v3 s else Some s
           } else Some s2) = Some s4" "goes_on st s2 (close m z) s4" by blast
    obtain s5 toks where 5: "(if u_strDataHubToken s4 = [] then do {
         (tok, s) \<leftarrow> u_hub (Update_BdxApiGateWayGetDataHubToken (x_net X) (x_junk X) [] []) s4;
         Some (s\<lparr>u_strDataHubToken := tok\<rparr>)
       } else Some s4) = Some s5" "good s5" "st (u_world s5) = (close m z)\<lparr>told := told (close m z) @ toks\<rparr>" "filter is_report toks = []"
      using token_goes_on [OF assms(2) goes_onD(1) [OF 4(2)] goes_onD(2) [OF 4(2), symmetric]] by blast
    have n: "number_of z (''order_count#'' @ m) = Some (atoi (cstr c))" using cl by (simp add: number_of_def)
    obtain r s6 req where 6: "u_hub (Update_BdxApiUpdateUserOrder (x_net X) (x_junk X) u sid rp i (u_strDataHubToken s5) (atoi (cstr c))) s5 = Some (r, s6)"
      "goes_on st s5 ((close m z)\<lparr>told := told (close m z) @ toks @ [req]\<rparr>) s6" "is_report req" "order_report z m req"
      using report_goes_on [OF assms(2) 5(2) refl m(1,3) n] 5(3) by auto
    have "report_order X m s = Some s6"
      by (simp only: report_order_def Let_def m(1,2) 1(1) 2(1) cl 4(1) 5(1) 6(1) Option.bind.bind_lunit prod.case
          option.case option.distinct simp_thms if_False if_True)
    moreover have "told (close m z) = told z" by (simp add: close_def)
    ultimately show ?thesis using 5(4) 6 op
      by (intro exI [of _ s6] exI [of _ "toks @ [req]"]) (simp add: goes_on_def)
  qed
qed

section \<open>All orders\<close>

lemma key_inj: "''order_status#'' @ m = ''order_status#'' @ m' \<longleftrightarrow> m = m'"
  "''order_count#'' @ m \<noteq> ''order_status#'' @ m'" "''order_limit#'' @ m \<noteq> ''order_status#'' @ m'" "''order_expire#'' @ m \<noteq> ''order_status#'' @ m'"
  by simp_all

text \<open>Closing one order changes nothing that the decision about another one reads.\<close>

lemma close_frame:
  assumes "m' \<noteq> m"
  shows "number_of (close m z) (''order_status#'' @ m') = number_of z (''order_status#'' @ m')"
    "open_order (close m z) m' = open_order z m'" "closes (close m z) m' = closes z m'"
    "order_report (close m z) m' r = order_report z m' r"
proof -
  have v: "value_of (close m z) (''order_status#'' @ m') = value_of z (''order_status#'' @ m')"
    "value_of (close m z) (''order_count#'' @ m') = value_of z (''order_count#'' @ m')"
    "value_of (close m z) (''order_limit#'' @ m') = value_of z (''order_limit#'' @ m')"
    "value_of (close m z) (''order_expire#'' @ m') = value_of z (''order_expire#'' @ m')"
    using assms by (simp_all add: value_of_def close_def)
  then have n: "number_of (close m z) (''order_status#'' @ m') = number_of z (''order_status#'' @ m')"
    "number_of (close m z) (''order_count#'' @ m') = number_of z (''order_count#'' @ m')"
    "number_of (close m z) (''order_limit#'' @ m') = number_of z (''order_limit#'' @ m')"
    by (simp_all only: number_of_def)
  show "number_of (close m z) (''order_status#'' @ m') = number_of z (''order_status#'' @ m')" by (rule n(1))
  show o: "open_order (close m z) m' = open_order z m'" by (simp only: open_order_def n)
  show "closes (close m z) m' = closes z m'" by (simp only: closes_def o n v(4))
  show "order_report (close m z) m' r = order_report z m' r" by (simp only: order_report_def n)
qed

text \<open>What was written to DataHub plays no part.\<close>

lemma told_frame:
  "value_of (z\<lparr>told := t\<rparr>) = value_of z" "number_of (z\<lparr>told := t\<rparr>) = number_of z" "open_order (z\<lparr>told := t\<rparr>) = open_order z"
  "closes (z\<lparr>told := t\<rparr>) = closes z" "order_report (z\<lparr>told := t\<rparr>) = order_report z" "close m (z\<lparr>told := t\<rparr>) = (close m z)\<lparr>told := t\<rparr>"
proof -
  show v: "value_of (z\<lparr>told := t\<rparr>) = value_of z" by (simp add: fun_eq_iff value_of_def)
  show n: "number_of (z\<lparr>told := t\<rparr>) = number_of z" by (simp add: fun_eq_iff number_of_def v)
  show o: "open_order (z\<lparr>told := t\<rparr>) = open_order z" by (simp add: fun_eq_iff open_order_def n)
  show c: "closes (z\<lparr>told := t\<rparr>) = closes z" by (simp add: fun_eq_iff closes_def n v o)
  show "order_report (z\<lparr>told := t\<rparr>) = order_report z" by (simp add: fun_eq_iff order_report_def n)
  show "close m (z\<lparr>told := t\<rparr>) = (close m z)\<lparr>told := t\<rparr>" by (simp add: close_def c)
qed

lemma after_round_fold:
  assumes "distinct ms" "set ms \<subseteq> members z needUpdateOrder"
  shows "after_round (set ms) z (fold close ms z)"
  using assms
proof (induction ms arbitrary: z)
  case Nil
  show ?case by (simp add: after_round_def)
next
  case (Cons m ms)
  have f: "closes (close m z) m' = closes z m'" if "m' \<in> set ms" for m'
    by (rule close_frame(3)) (use that Cons.prems(1) in auto)
  have "members (close m z) needUpdateOrder = members z needUpdateOrder - (if closes z m then {m} else {})"
    "members (close m z) alreadyUpdateOrder = members z alreadyUpdateOrder \<union> (if closes z m then {m} else {})"
    and o: "k \<noteq> needUpdateOrder \<Longrightarrow> k \<noteq> alreadyUpdateOrder \<Longrightarrow> members (close m z) k = members z k" for k
    using Cons.prems(2) by (auto simp: close_def move_def)
  moreover have "after_round (set ms) (close m z) (fold close ms (close m z))"
    by (rule Cons.IH) (use Cons.prems calculation(1) in auto)
  moreover have "kv (close m z) = (\<lambda>k. if closes z m \<and> k = ''order_status#'' @ m then Some ''1'' else kv z k)"
    by (auto simp: close_def)
  moreover have "{m' \<in> set ms. closes (close m z) m'} = {m' \<in> set ms. closes z m'}" using f by blast
  moreover have "(\<exists>m' \<in> set ms. closes (close m z) m' \<and> k = ''order_status#'' @ m') \<longleftrightarrow> (\<exists>m' \<in> set ms. closes z m' \<and> k = ''order_status#'' @ m')" for k
    using f by blast
  ultimately show ?case unfolding after_round_def by (auto simp: fun_eq_iff)
qed

lemma report_orders_go_on:
  assumes "redis_serves (x_redis X) st" "hub_answers (x_net X) st" "good s" "list_all member_ok ms" "distinct ms"
  shows "\<exists>s' reqs. report_orders X ms s = Some s' \<and> good s'
    \<and> st (u_world s') = (fold close ms (st (u_world s)))\<lparr>told := told (st (u_world s)) @ reqs\<rparr>
    \<and> list_all2 (order_report (st (u_world s))) (filter (open_order (st (u_world s))) ms) (filter is_report reqs)"
  using assms(3-5)
proof (induction ms arbitrary: s)
  case Nil
  then show ?case by (intro exI [of _ s] exI [of _ "[]"]) simp
next
  case (Cons m ms)
  let ?z = "st (u_world s)"
  have ok: "member_ok m" "list_all member_ok ms" "m \<notin> set ms" "distinct ms" using Cons.prems by simp_all
  have "length (''order_status#'' @ m) < 2 ^ 32" using ok(1) by (simp add: member_ok_def)
  then obtain s1 where 1: "u_redis (UserGet (x_redis X) (''order_status#'' @ m) []) s =
      Some ((value_of ?z (''order_status#'' @ m) \<noteq> None, case value_of ?z (''order_status#'' @ m) of None \<Rightarrow> [] | Some v \<Rightarrow> v), s1)"
    "goes_on st s ?z s1" using u_get [OF assms(1) Cons.prems(1) _ value_NUL(1) [OF ok(1)] refl] by blast
  let ?n = "number_of ?z (''order_status#'' @ m)"
  obtain s2 reqs where 2: "(if ?n = Some 0 then report_order X m s1 else Some s1) = Some s2" "good s2"
    "st (u_world s2) = (close m ?z)\<lparr>told := told ?z @ reqs\<rparr>"
    "list_all2 (order_report ?z) (if open_order ?z m then [m] else []) (filter is_report reqs)"
  proof (cases "?n = Some 0")
    case True
    then show ?thesis
      using report_order_goes_on [OF assms(1,2) goes_onD(1) [OF 1(2)] ok(1) goes_onD(2) [OF 1(2), symmetric]] that by auto
  next
    case False
    then have "\<not> open_order ?z m" by (simp add: open_order_def)
    moreover then have "close m ?z = ?z" by (simp add: close_def closes_def)
    ultimately show ?thesis using that [of s1 "[]"] False 1(2) by (simp add: goes_on_def)
  qed
  have nz: "(value_of ?z (''order_status#'' @ m) \<noteq> None \<and>
      atoi (cstr (case value_of ?z (''order_status#'' @ m) of None \<Rightarrow> [] | Some v \<Rightarrow> v)) = 0) = (?n = Some 0)"
    by (auto simp: number_of_def split: option.split)
  obtain s3 reqs2 where 3: "report_orders X ms s2 = Some s3" "good s3"
    "st (u_world s3) = (fold close ms (st (u_world s2)))\<lparr>told := told (st (u_world s2)) @ reqs2\<rparr>"
    "list_all2 (order_report (st (u_world s2))) (filter (open_order (st (u_world s2))) ms) (filter is_report reqs2)"
    using Cons.IH [OF 2(2) ok(2,4)] by blast
  have r: "report_orders X (m # ms) s = Some s3"
    by (simp only: report_orders.simps 1(1) Option.bind.bind_lunit prod.case nz 2(1) 3(1))
  have fr: "open_order (close m ?z) m' = open_order ?z m'" "order_report (close m ?z) m' = order_report ?z m'" if "m' \<in> set ms" for m'
  proof -
    have "m' \<noteq> m" using that ok(3) by auto
    then show "open_order (close m ?z) m' = open_order ?z m'" "order_report (close m ?z) m' = order_report ?z m'"
      by (simp_all only: fun_eq_iff close_frame simp_thms)
  qed
  have "filter (open_order (close m ?z)) ms = filter (open_order ?z) ms" using fr(1) by (intro filter_cong) auto
  then have "list_all2 (order_report (close m ?z)) (filter (open_order ?z) ms) (filter is_report reqs2)"
    using 3(4) by (simp add: 2(3) told_frame)
  then have l: "list_all2 (order_report ?z) (filter (open_order ?z) ms) (filter is_report reqs2)"
    by (rule list.rel_mono_strong) (use fr(2) in auto)
  have ft: "fold close xs (z\<lparr>told := t\<rparr>) = (fold close xs z)\<lparr>told := t\<rparr>" for xs z t
    by (induction xs arbitrary: z) (simp_all add: told_frame)
  have "list_all2 (order_report ?z) (filter (open_order ?z) (m # ms)) (filter is_report (reqs @ reqs2))"
    using list_all2_appendI [OF 2(4) l] by (cases "open_order ?z m") simp_all
  then show ?case using r 3(2,3) by (intro exI [of _ s3] exI [of _ "reqs @ reqs2"]) (simp add: 2(3) ft)
qed

section \<open>The round\<close>

lemma u_redis_date: "u_redis f s = Some (r, s') \<Longrightarrow> g_strCurrentDate s' = g_strCurrentDate s"
  by (auto simp: u_redis_def split: option.splits)

lemma u_hub_date: "u_hub f s = Some (r, s') \<Longrightarrow> g_strCurrentDate s' = g_strCurrentDate s"
  by (auto simp: u_hub_def split: option.splits)

definition keeps_date :: "string \<Rightarrow> ('c, 'w) UpdateState option \<Rightarrow> bool" where
  "keeps_date d m \<longleftrightarrow> (\<forall>s'. m = Some s' \<longrightarrow> g_strCurrentDate s' = d)"

lemma keeps_date_intros:
  "g_strCurrentDate s = d \<Longrightarrow> (\<And>r s1. g_strCurrentDate s1 = d \<Longrightarrow> keeps_date d (g (r, s1))) \<Longrightarrow> keeps_date d (Option.bind (u_redis f s) g)"
  "g_strCurrentDate s = d \<Longrightarrow> (\<And>r s1. g_strCurrentDate s1 = d \<Longrightarrow> keeps_date d (g (r, s1))) \<Longrightarrow> keeps_date d (Option.bind (u_hub f' s) g)"
  "g_strCurrentDate s = d \<Longrightarrow> keeps_date d (Some s)"
  "(b \<Longrightarrow> keeps_date d m) \<Longrightarrow> (\<not> b \<Longrightarrow> keeps_date d m') \<Longrightarrow> keeps_date d (if b then m else m')"
  by (auto simp: keeps_date_def bind_eq_Some_conv dest: u_redis_date u_hub_date)

lemma keeps_date_bind:
  "keeps_date d m \<Longrightarrow> (\<And>s1. g_strCurrentDate s1 = d \<Longrightarrow> keeps_date d (g s1)) \<Longrightarrow> keeps_date d (Option.bind m g)"
  by (auto simp: keeps_date_def bind_eq_Some_conv)

lemma close_order_date: "g_strCurrentDate s = d \<Longrightarrow> keeps_date d (close_order X k m u v s)"
  unfolding close_order_def split_beta by (intro keeps_date_intros) simp_all

lemma report_order_date: "g_strCurrentDate s = d \<Longrightarrow> keeps_date d (report_order X m s)"
proof (cases "split_member m")
  case (Some q)
  assume "g_strCurrentDate s = d"
  then show ?thesis unfolding report_order_def Some Let_def split_beta Option.bind.bind_lunit
    by (intro keeps_date_intros keeps_date_bind close_order_date) simp_all
qed (simp add: report_order_def keeps_date_def)

lemma report_orders_date: "report_orders X ms s = Some s' \<Longrightarrow> g_strCurrentDate s' = g_strCurrentDate s"
proof -
  have "keeps_date d (report_orders X ms s)" if "g_strCurrentDate s = d" for d
    using that
  proof (induction ms arbitrary: s)
    case (Cons m ms)
    then show ?case unfolding report_orders.simps split_beta
      by (intro keeps_date_intros keeps_date_bind report_order_date) simp_all
  qed (simp add: keeps_date_def)
  then show "report_orders X ms s = Some s' \<Longrightarrow> ?thesis" by (simp add: keeps_date_def)
qed


section \<open>An example\<close>

text \<open>A small Redis with string keys and sets, and a DataHub that says yes.\<close>

record DayWorld =
  d_kv :: "string \<Rightarrow> string option"
  d_sets :: "string \<Rightarrow> string list"
  d_told :: "string list"

definition day_view :: "DayWorld \<Rightarrow> Outside" where
  "day_view w = \<lparr>kv = d_kv w, members = (\<lambda>k. set (d_sets w k)), told = d_told w\<rparr>"

fun first_word :: "string \<Rightarrow> string \<times> string" where
  "first_word [] = ([], [])"
| "first_word (c # s) = (if c = CHR '' '' then ([], s) else case first_word s of (a, r) \<Rightarrow> (c # a, r))"

definition day_command :: "unit \<Rightarrow> string \<Rightarrow> redis_arg list \<Rightarrow> DayWorld \<Rightarrow> redisReply option \<times> DayWorld" where
  "day_command c fmt args w =
     (case args of
        [S k, S v] \<Rightarrow> (Some (REPLY_STATUS ''OK''), w\<lparr>d_kv := (d_kv w)(k \<mapsto> v)\<rparr>)
      | [S k] \<Rightarrow>
          (Some (if fmt = ''GET %s'' then (case d_kv w k of None \<Rightarrow> REPLY_NIL | Some v \<Rightarrow> REPLY_STRING v)
                 else if fmt = ''smembers %s'' then REPLY_ARRAY (map REPLY_STRING (remdups (d_sets w k)))
                 else REPLY_INTEGER 1), w)
      | [] \<Rightarrow>
          (case first_word fmt of (cmd, r) \<Rightarrow> case first_word r of (a, r) \<Rightarrow> case first_word r of (b, m) \<Rightarrow>
             (Some (REPLY_INTEGER 1),
              if cmd = ''smove'' \<and> m \<in> set (d_sets w a)
              then w\<lparr>d_sets := (\<lambda>k. if k = a then removeAll m (d_sets w a) else if k = b then m # d_sets w b else d_sets w k)\<rparr>
              else w))
      | _ \<Rightarrow> (Some (REPLY_STATUS ''OK''), w))"

definition day_redis :: "(unit, DayWorld) hiredis" where
  "day_redis = \<lparr>redisConnectWithTimeout = (\<lambda>h p t w. (Some ((), False), w)), redisCommand = day_command, redisFree = (\<lambda>c w. w)\<rparr>"

definition day_answer :: string where \<open>day_answer = ''HTTP/1.1 200 OK'' @ CRLF @ CRLF @ ''{"msg":"OK"}''\<close>

definition day_net :: "DayWorld net" where
  "day_net = \<lparr>os_socket = (\<lambda>w. (3, w)), os_setsockopt = (\<lambda>fd w. (True, w)), os_connect = (\<lambda>fd ip p w. (True, w)),
     os_recv = (\<lambda>fd n w. (RecvError, w)), os_send = (\<lambda>fd b w. (- 1, w)), os_close = (\<lambda>fd w. w),
     SSL_connect = (\<lambda>fd w. (True, w)), SSL_read = (\<lambda>fd n w. ((int (length day_answer), SSL_ERROR_NONE, day_answer), w)),
     SSL_write = (\<lambda>fd b w. ((int (length b), SSL_ERROR_NONE), w\<lparr>d_told := d_told w @ [b]\<rparr>)), SSL_shutdown = (\<lambda>fd w. w)\<rparr>"

lemma first_word_plain: "CHR '' '' \<notin> set a \<Longrightarrow> first_word (a @ CHR '' '' # r) = (a, r)"
  by (induction a) auto

lemma day_smove:
  assumes "plain_word a" "plain_word b" "plain_word m"
  shows "answers day_view (day_command c (''smove '' @ a @ '' '' @ b @ '' '' @ m) [] w)
    ((day_view w)\<lparr>members := move m a b (members (day_view w))\<rparr>)"
proof -
  have s: "CHR '' '' \<notin> set a" "CHR '' '' \<notin> set b" using assms by (simp_all add: plain_word_def)
  have "first_word (''smove '' @ a @ '' '' @ b @ '' '' @ m) = (''smove'', a @ '' '' @ b @ '' '' @ m)" by simp
  then have "day_command c (''smove '' @ a @ '' '' @ b @ '' '' @ m) [] w = (Some (REPLY_INTEGER 1),
      if m \<in> set (d_sets w a)
      then w\<lparr>d_sets := (\<lambda>k. if k = a then removeAll m (d_sets w a) else if k = b then m # d_sets w b else d_sets w k)\<rparr> else w)"
    using first_word_plain [OF s(1), of "b @ '' '' @ m"] first_word_plain [OF s(2), of m] by (simp add: day_command_def)
  then show ?thesis by (auto simp: answers_def day_view_def move_def fun_eq_iff)
qed

lemma day_redis_serves: "redis_serves day_redis day_view"
proof -
  have k: "answers day_view (day_command c ''select %d'' [D i] w) (day_view w)" "answers day_view (day_command c ''PING'' [] w) (day_view w)"
    "answers day_view (day_command c ''SET %s %s'' [S k, S v] w) ((day_view w)\<lparr>kv := (kv (day_view w))(k \<mapsto> v)\<rparr>)"
    "answers day_view (day_command c ''zremrangebyrank %s 0 0'' [S k] w) (day_view w)" for c i w k v
    by (auto simp: answers_def day_command_def day_view_def)
  have g: "day_command c ''GET %s'' [S k] w = (Some (case kv (day_view w) k of None \<Rightarrow> REPLY_NIL | Some v \<Rightarrow> REPLY_STRING v), w)"
    "day_command c ''smembers %s'' [S k] w = (Some (REPLY_ARRAY (map REPLY_STRING (remdups (d_sets w k)))), w)"
    "set (remdups (d_sets w k)) = members (day_view w) k" for c k w
    by (simp_all add: day_command_def day_view_def)
  have gs: "\<exists>w'. day_command c ''GET %s'' [S k] w = (Some (case kv (day_view w) k of None \<Rightarrow> REPLY_NIL | Some v \<Rightarrow> REPLY_STRING v), w')
      \<and> day_view w' = day_view w"
    "\<exists>ms w'. day_command c ''smembers %s'' [S k] w = (Some (REPLY_ARRAY (map REPLY_STRING ms)), w')
      \<and> set ms = members (day_view w) k \<and> distinct ms \<and> day_view w' = day_view w" for c k w
    using g by (metis, metis distinct_remdups)
  show ?thesis unfolding redis_serves_def day_redis_def hiredis.simps
    by (intro conjI allI impI k gs) (simp, rule refl, elim conjE, rule day_smove, assumption+)
qed

lemma day_net_answers: "hub_answers day_net day_view"
proof -
  have "hub_text day_answer" by code_simp
  then show ?thesis by (simp add: hub_answers_def day_net_def day_view_def)
qed

definition day_ext :: "(unit, DayWorld, unit) Ext" where
  "day_ext = \<lparr>x_redis = day_redis, x_net = day_net,
     x_json = \<lparr>jparse = (\<lambda>s. None), jmember = (\<lambda>j k. j), jindex = (\<lambda>j i. j), jsize = (\<lambda>j. 0), jstyled = (\<lambda>j. [])\<rparr>,
     x_localtime = demo_lt, x_time = (\<lambda>w. 0), x_apis = [], x_junk = 0\<rparr>"

definition day_state :: "(unit, DayWorld) UpdateState" where
  "day_state = \<lparr>m_pTokenRedis = \<lparr>servers = [new_CDataRedis], m_clMd5 = blank_md5\<rparr>, g_strCurrentDate = ''20240227'',
     u_strDataHubToken = [], u_InitSSLFlag = False,
     u_world = \<lparr>d_kv = [''order_status#u#r#i#7'' \<mapsto> ''0'', ''order_count#u#r#i#7'' \<mapsto> ''5'', ''order_limit#u#r#i#7'' \<mapsto> ''5''],
       d_sets = (\<lambda>k. if k = needUpdateOrder then [''u#r#i#7''] else []), d_told = []\<rparr>\<rparr>"


end
