(* ===== verification/Spec2Isabelle.thy ===== *)
theory Spec2Isabelle
  imports Md5 Base64 UrlEncode Conf StdMap UserQueryStruct UserQueryMain Redis DataAdapter Server Files Clock Logger Reports WorkThreads
    Sockets TaskTools DataHub TaskMain TaskOrders TaskRun Outcome TaskProps TaskAnswers OrderUpdate
    Locks ThreadRefine CacheProps Accounting ServerSockets StartUp Mail Monitor UdpSocket MysqlClient BookThreads OrderRound
begin

text \<open>
  A verification library for the location gateway in \<^verbatim>\<open>src/src\<close>: an HTTP server that answers location
  queries from a Redis cache or a remote API, charges them to orders kept by a service called DataHub,
  and writes statistics and a query log.

  \<^bold>\<open>How the program works.\<close> \<^verbatim>\<open>CUserQueryMain\<close> reads the configuration and starts the threads. The
  server thread accepts connections, makes a task for each and hands readable ones to the workers;
  finished tasks come back over status queues. A worker runs \<^verbatim>\<open>BdxRunTask\<close>: read the request, check
  the token, find an order and its quota, look into the cache, ask the remote API, log, store and
  answer. A statistics thread adds up the workers' reports, a query log thread drains their queues, and an
  update thread reports orders to DataHub once a day.

  \<^bold>\<open>Which theory models what\<close> (paths under \<^verbatim>\<open>src/src\<close>; records have the members of the classes, functions
  the names of the methods):

  \<^item> \<open>Prelude\<close>: C strings, \<^verbatim>\<open>std::string\<close>, \<^verbatim>\<open>strtok\<close>, \<^verbatim>\<open>atoi\<close>, decimal output. \<open>StdMap\<close>: \<^verbatim>\<open>std::map\<close> as a
    sorted association list, with the interface \<open>keyed_store\<close>. \<open>Outcome\<close>: partial correctness of
    computations that may end the process.
  \<^item> \<open>Md5\<close> (\<^verbatim>\<open>CommonTools/Md5\<close>): the class at 32-bit width and a reference hash after RFC 1321; the interface
    of a hash object is a locale, interpreted on the class. \<open>Base64\<close>, \<open>UrlEncode\<close>, \<open>Conf\<close>, \<open>Files\<close>,
    \<open>Clock\<close>, \<open>Logger\<close>: the other parts of \<^verbatim>\<open>CommonTools\<close>; files live in a small file system of
    directories and texts.
  \<^item> \<open>UserQueryStruct\<close>, \<open>UserQueryMain\<close>: the shared structures and the loading of the configuration.
  \<^item> \<open>Redis\<close>, \<open>DataAdapter\<close> (\<^verbatim>\<open>redisCommon\<close>): the client over a parameter \<open>hiredis\<close> and the sharding over
    several servers by MD5.
  \<^item> \<open>Server\<close>, \<open>WorkThreads\<close>: the event loop, the dispatch and the workers as an interleaved step
    relation; the creation of the workers. \<open>Reports\<close>: the statistics and query log threads;
    \<open>Accounting\<close>: workers and both threads over an interval. \<open>BookThreads\<close>: the same three line by line, with
    no lock between them, as in the code.
  \<^item> \<open>Locks\<close> (\<^verbatim>\<open>CommonTools/Lock\<close>): mutexes and conditions, and mutual exclusion as an interface.
    \<open>ThreadRefine\<close>: the same server and workers line by line with the queue locks, every line that
    touches shared data a step; its states are those of \<open>Server\<close>.
  \<^item> \<open>StartUp\<close> (\<^verbatim>\<open>AIBdxUserQuery.cpp\<close>, \<^verbatim>\<open>CommonTools/Thread\<close>): the command line, the main object and the
    creation of the threads. \<open>ServerSockets\<close>: listening sockets, epoll and the server object.
  \<^item> \<open>Sockets\<close>, \<open>Mail\<close> (\<^verbatim>\<open>CommonTools/Socket/TcpSocket.cpp\<close>): TCP and SSL over a parameter \<open>net\<close>, and the
    mail client. \<open>UdpSocket\<close>: datagrams.
  \<^item> \<open>TaskTools\<close>, \<open>DataHub\<close>, \<open>TaskMain\<close>, \<open>TaskOrders\<close>, \<open>TaskRun\<close> (\<^verbatim>\<open>UserQueryTask\<close>): dates and digests, the
    DataHub client, and the request in three parts: line, parameters and tokens; orders and quota; cache,
    remote API, bookkeeping, answers and \<^verbatim>\<open>BdxRunTask\<close> itself. \<open>TaskProps\<close>, \<open>TaskAnswers\<close> and \<open>CacheProps\<close> hold what is
    proved of them; the locale \<open>outside_call\<close> is what a request relies on in Redis and DataHub calls.
  \<^item> \<open>OrderUpdate\<close>, \<open>Monitor\<close> (\<^verbatim>\<open>UserQueryUpdate\<close>): the daily round, the permission table and the monitors
    of the API. \<open>OrderRound\<close>: what the daily round does to the orders, over the contents of Redis. \<open>MysqlClient\<close> (\<^verbatim>\<open>CommonTools/Mysql\<close>): the client whose records fill that table.

  \<^bold>\<open>What is shown.\<close> Round trips: Base64, URL coding, configuration values, server lists, files, values
  through the sharding adapter, requests, members of the update set, cached answers from one request to
  the next, permission records. Equivalence and refinement: the unrolled MD5 with RFC 1321 for any
  sequence of updates; the threads line by line with the handlers of \<open>Server\<close>, and the lines of the
  reporting threads with their rounds. Concurrency: the queue
  locks exclude each other's holders, a queued task is always run, and the status queues race.
  Start: which threads run, that a server object listens, and that one without a name serves nobody.
  Accounting: whatever the workers do, the statistics file and the query log agree.
  Invariants: every open connection is in exactly
  one place in every reachable state of the server; every request of an answered task is counted once; with workers
  and reporting threads line by line, no record of the query log is lost or out of order, and the counts
  that are lost are exactly those made between the two lines of \<^verbatim>\<open>BdxQueryCountGetReport\<close>. Safety of the business: nobody is served
  without a checked token and an open order, and the order is charged; the daily round closes exactly the
  orders that are used up and expired and reports every open one once. Types and errors: the nine error
  codes of a request; what is refused and how. Termination: which configurations load, when text
  replacement ends, when an SSL read returns. Where the code does not do what it means to, the theorem
  states what it does: the dead check of the method, the overrun of the parameter buffer, the shared cache
  keys, the wrapped expiry, the order queue split between two servers, the leaks of sockets and streams,
  the crash of the statistics thread at midnight and of a request when DataHub is down.

  \<^bold>\<open>Conventions.\<close> \<open>None\<close> is undefined behaviour, a crash or an uncaught exception, and for the loops made
  with \<^verbatim>\<open>partial_function\<close> also a call that does not return; theorems that a call returns are stated as
  such. The configuration readers, text replacement and the SSL loops are of that kind; all other loops
  recurse on data or on a measure, so no fuel is needed. Fixed buffers have their sizes from the source
  (1024, 8192 and 65536 bytes). Machine integers have their width where it matters: MD5, shards, ports,
  counters, \<^verbatim>\<open>find\<close> into \<^verbatim>\<open>unsigned int\<close>, the expiry.

  \<^bold>\<open>What is assumed.\<close> Parameters stand for hiredis, the operating system and OpenSSL, JsonCpp,
  \<^verbatim>\<open>localtime\<close> and the clock; what a theorem needs of them is a hypothesis in its statement, and its
  witness gives an instance. Two clock readings with no other outside call between them are equal.

  \<^bold>\<open>Not modelled.\<close> Log and console output inside a request, and functions that only print
  (\<^verbatim>\<open>BdxPrintConfig\<close>, \<^verbatim>\<open>TimeDisplay\<close>, \<^verbatim>\<open>DisplayHeader\<close>, \<^verbatim>\<open>UdpPrintAddr\<close>, \<^verbatim>\<open>UdpPrintf\<close>); the block of
  the update thread that is compiled out; the headers of MySQL, JsonCpp and hiredis that the repository
  carries. Lines of the server and the workers interleave (\<open>ThreadRefine\<close>), and so do lines of the workers, the
  statistics and the query log (\<open>BookThreads\<close>), where each line is taken to be atomic; the update thread
  runs one round at a time, with nobody else changing Redis meanwhile. What is left of \<^verbatim>\<open>src/src\<close> are
  destructors and constructors without a body and declarations.
\<close>

end
